(* ===== verification/Prelude.thy ===== *)
theory Prelude
  imports Main "HOL-Library.Word"
begin

text \<open>
  Shared vocabulary of the development: the widths of the Rust integer types, Rust's checked,
  saturating and rounding integer operations on naturals with the bound written out, single-bit
  tests and masks on registers, little-endian byte encodings, and the two contracts that the
  timed devices of the machine share (\<open>tick_device\<close> and \<open>deadline_device\<close>).
\<close>

unbundle bit_operations_syntax

type_synonym u8 = "8 word"
type_synonym u16 = "16 word"
type_synonym u32 = "32 word"

named_theorems reg_defs \<open>definitions of register constants and register-level helpers\<close>
named_theorems rust_int \<open>definitions of Rust's integer operations\<close>

section \<open>Rust's 64-bit and 128-bit unsigned integers, as bounded naturals\<close>

definition u64_max :: nat where
  "u64_max = 18446744073709551615"

definition u128_max :: nat where
  "u128_max = 340282366920938463463374607431768211455"

definition sat64 :: "nat \<Rightarrow> nat" where
  "sat64 n = (if n > u64_max then u64_max else n)"

definition checked_add64 :: "nat \<Rightarrow> nat \<Rightarrow> nat option" where
  "checked_add64 a b = (if a + b \<le> u64_max then Some (a + b) else None)"

definition checked_mul64 :: "nat \<Rightarrow> nat \<Rightarrow> nat option" where
  "checked_mul64 a b = (if a * b \<le> u64_max then Some (a * b) else None)"

definition checked_sub64 :: "nat \<Rightarrow> nat \<Rightarrow> nat option" where
  "checked_sub64 a b = (if b \<le> a then Some (a - b) else None)"

definition checked_mul128 :: "nat \<Rightarrow> nat \<Rightarrow> nat option" where
  "checked_mul128 a b = (if a * b \<le> u128_max then Some (a * b) else None)"

definition saturating_add64 :: "nat \<Rightarrow> nat \<Rightarrow> nat" where
  "saturating_add64 a b = sat64 (a + b)"

definition saturating_mul64 :: "nat \<Rightarrow> nat \<Rightarrow> nat" where
  "saturating_mul64 a b = sat64 (a * b)"

definition wrapping_add64 :: "nat \<Rightarrow> nat \<Rightarrow> nat" where
  "wrapping_add64 a b = (a + b) mod (u64_max + 1)"

text \<open>Rust's \<open>div_ceil\<close>: the quotient, plus one when the remainder is not zero.\<close>

definition div_ceil :: "nat \<Rightarrow> nat \<Rightarrow> nat" where
  "div_ceil a b = (if a mod b = 0 then a div b else a div b + 1)"

lemmas [rust_int] =
  sat64_def checked_add64_def checked_mul64_def checked_sub64_def checked_mul128_def
  saturating_add64_def saturating_mul64_def wrapping_add64_def

lemma sat64_le [simp]: "sat64 n \<le> u64_max"
  by (simp add: sat64_def)

lemma sat64_id [simp]: "n \<le> u64_max \<Longrightarrow> sat64 n = n"
  by (simp add: sat64_def)

lemma sat64_eq_min: "sat64 n = min n u64_max"
  by (simp add: sat64_def)

lemma le_sat64_iff: "m \<le> u64_max \<Longrightarrow> m \<le> sat64 n \<longleftrightarrow> m \<le> n"
  by (simp add: sat64_def)

lemma sat64_le_iff: "m < u64_max \<Longrightarrow> sat64 n \<le> m \<longleftrightarrow> n \<le> m"
  by (auto simp: sat64_def)

lemma sat64_add_left: "sat64 (sat64 a + b) = sat64 (a + b)"
  by (auto simp: sat64_def)

lemma u64_product_fits_u128: "a \<le> u64_max \<Longrightarrow> b \<le> u64_max \<Longrightarrow> a * b \<le> u128_max"
proof -
  assume "a \<le> u64_max" and "b \<le> u64_max"
  then have "a * b \<le> u64_max * u64_max"
    by (rule mult_le_mono)
  also have "\<dots> \<le> u128_max"
    by (simp add: u64_max_def u128_max_def)
  finally show ?thesis .
qed

lemma div_ceil_le_iff: "0 < b \<Longrightarrow> div_ceil a b \<le> n \<longleftrightarrow> a \<le> n * b"
proof -
  assume b: "0 < b"
  have ab: "a div b * b + a mod b = a" by simp
  have less: "a div b < n \<longleftrightarrow> a < n * b" using b by (simp add: div_less_iff_less_mult)
  show ?thesis
  proof (cases "a mod b = 0")
    case True
    then have "a div b * b = a" using ab by simp
    then have "a \<le> n * b \<longleftrightarrow> a div b * b \<le> n * b" by simp
    also have "\<dots> \<longleftrightarrow> a div b \<le> n" using b by simp
    finally show ?thesis using True by (simp add: div_ceil_def)
  next
    case False
    have "a \<noteq> n * b" using False by auto
    then have "a \<le> n * b \<longleftrightarrow> a < n * b" by linarith
    then show ?thesis using False less by (simp add: div_ceil_def Suc_le_eq)
  qed
qed

lemma div_ceil_pos: "0 < a \<Longrightarrow> 0 < b \<Longrightarrow> 0 < div_ceil a b"
  using div_ceil_le_iff [of b a 0] by simp

lemma le_div_iff_mult_le_nat: "0 < (b::nat) \<Longrightarrow> n \<le> a div b \<longleftrightarrow> n * b \<le> a"
  by (simp add: less_eq_div_iff_mult_less_eq)

section \<open>Single bits of a register\<close>

text \<open>\<open>1 << i\<close> on a \<open>u8\<close> register, and the test \<open>r & (1 << i) != 0\<close>.\<close>

definition bit_mask :: "u8 \<Rightarrow> u8" where
  "bit_mask i = push_bit (unat i) 1"

definition has_bit :: "u8 \<Rightarrow> u8 \<Rightarrow> bool" where
  "has_bit r i \<longleftrightarrow> r AND bit_mask i \<noteq> 0"

definition test :: "'a::len word \<Rightarrow> 'a word \<Rightarrow> bool" where
  "test r m \<longleftrightarrow> r AND m \<noteq> 0"

definition of_bool8 :: "bool \<Rightarrow> u8" where
  "of_bool8 b = (if b then 1 else 0)"

lemma test_or: "test w (a OR b) \<longleftrightarrow> test w a \<or> test w b"
  by (auto simp: test_def bit_eq_iff bit_simps)

lemma bit_bit_mask [simp]: "bit (bit_mask i) n \<longleftrightarrow> n = unat i \<and> n < 8"
  by (auto simp: bit_mask_def bit_simps)

lemma and_push_bit_1_nonzero:
  fixes w :: "'a::len word"
  shows "w AND push_bit n 1 \<noteq> 0 \<longleftrightarrow> bit w n"
proof
  assume "bit w n"
  then have "n < LENGTH('a)"
    by (rule bit_imp_le_length)
  with \<open>bit w n\<close> have "bit (w AND push_bit n 1) n"
    by (simp add: bit_simps)
  then show "w AND push_bit n 1 \<noteq> 0" by auto
next
  assume "w AND push_bit n 1 \<noteq> 0"
  then obtain m where "bit (w AND push_bit n 1) m"
    using bit_eqI [of "w AND push_bit n 1" 0] by auto
  then show "bit w n" by (auto simp: bit_simps)
qed

lemma has_bit_iff: "has_bit r i \<longleftrightarrow> bit r (unat i)"
  unfolding has_bit_def bit_mask_def by (rule and_push_bit_1_nonzero)

lemma has_bit_0 [simp]: "\<not> has_bit 0 i"
  by (simp add: has_bit_def)

lemma has_bit_or [simp]: "has_bit (a OR b) i \<longleftrightarrow> has_bit a i \<or> has_bit b i"
  by (simp add: has_bit_iff bit_simps)

lemma has_bit_and [simp]: "has_bit (a AND b) i \<longleftrightarrow> has_bit a i \<and> has_bit b i"
  by (simp add: has_bit_iff bit_simps)

lemma has_bit_not: "i < 8 \<Longrightarrow> has_bit (NOT a) i \<longleftrightarrow> \<not> has_bit a i"
  by (simp add: has_bit_iff bit_simps word_less_nat_alt)

lemma has_bit_mask: "i < 8 \<Longrightarrow> has_bit (bit_mask j) i \<longleftrightarrow> i = j"
  by (auto simp: has_bit_iff word_less_nat_alt dest: word_unat_eq_iff [THEN iffD2])

lemma has_bit_and_not_mask: "i < 8 \<Longrightarrow> has_bit (a AND NOT (bit_mask j)) i \<longleftrightarrow> has_bit a i \<and> i \<noteq> j"
  by (simp add: has_bit_not has_bit_mask)

lemma eight_levels: "(i::u8) < 8 \<Longrightarrow> i \<in> {0, 1, 2, 3, 4, 5, 6, 7}"
proof -
  assume "i < 8"
  then have "unat i < 8" by (simp add: word_less_nat_alt)
  then have "unat i \<in> {0, 1, 2, 3, 4, 5, 6, 7}" by auto
  then show ?thesis by (auto simp: word_unat_eq_iff)
qed

lemma word8_eqI_has_bit: "(\<And>i. i < 8 \<Longrightarrow> has_bit a i = has_bit b i) \<Longrightarrow> a = b"
proof (rule bit_word_eqI)
  fix n assume h: "\<And>i. i < 8 \<Longrightarrow> has_bit a i = has_bit b i" and n: "n < LENGTH(8)"
  have "unat (of_nat n :: u8) = n" using n by (simp add: unat_of_nat)
  moreover have "(of_nat n :: u8) < 8" using n by (simp add: word_less_nat_alt unat_of_nat)
  ultimately show "bit a n = bit b n" using h [of "of_nat n"] by (simp add: has_bit_iff)
qed

lemma and_mask7_less8: "(x :: u8) AND 7 < 8"
proof -
  have "x AND 7 \<le> 7" by (rule word_and_le1)
  also have "(7::u8) < 8" by simp
  finally show ?thesis .
qed

section \<open>Bytes of wider registers\<close>

definition lo8 :: "u16 \<Rightarrow> u8" where
  "lo8 w = ucast (w AND 0xFF)"

definition hi8 :: "u16 \<Rightarrow> u8" where
  "hi8 w = ucast (drop_bit 8 w)"

definition join16 :: "u8 \<Rightarrow> u8 \<Rightarrow> u16" where
  "join16 lo hi = push_bit 8 (ucast hi) OR ucast lo"

text \<open>\<open>to_le_bytes\<close> and \<open>from_le_bytes\<close> on naturals below \<open>256 ^ n\<close>.\<close>

fun le_bytes :: "nat \<Rightarrow> nat \<Rightarrow> u8 list" where
  "le_bytes 0 v = []"
| "le_bytes (Suc n) v = of_nat (v mod 256) # le_bytes n (v div 256)"

fun from_le :: "u8 list \<Rightarrow> nat" where
  "from_le [] = 0"
| "from_le (b # bs) = unat b + 256 * from_le bs"

lemma length_le_bytes [simp]: "length (le_bytes n v) = n"
  by (induction n arbitrary: v) auto

lemma from_le_le_bytes: "v < 256 ^ n \<Longrightarrow> from_le (le_bytes n v) = v"
proof (induction n arbitrary: v)
  case (Suc n)
  then have "v div 256 < 256 ^ n"
    by (simp add: less_mult_imp_div_less mult.commute)
  then have "from_le (le_bytes n (v div 256)) = v div 256" by (rule Suc.IH)
  then show ?case by (simp add: unat_of_nat)
qed simp

lemma from_le_less: "from_le bs < 256 ^ length bs"
proof (induction bs)
  case (Cons b bs)
  have "unat b < 256" using unsigned_less [of b] by simp
  with Cons show ?case by simp
qed simp

lemma le_bytes_from_le: "length bs = n \<Longrightarrow> le_bytes n (from_le bs) = bs"
proof (induction bs arbitrary: n)
  case (Cons b bs)
  have "unat b < 256" using unsigned_less [of b] by simp
  with Cons show ?case by auto
qed simp

lemma le_bytes_inject: "a < 256 ^ n \<Longrightarrow> b < 256 ^ n \<Longrightarrow> le_bytes n a = le_bytes n b \<longleftrightarrow> a = b"
  by (metis from_le_le_bytes)

lemma unat_less_u8: "unat (w :: u8) < 256"
  using unsigned_less [of w] by simp

lemma unat_less_u16: "unat (w :: u16) < 65536"
  using unsigned_less [of w] by simp

lemma unat_less_u32: "unat (w :: u32) < 4294967296"
  using unsigned_less [of w] by simp

section \<open>Fallible operations\<close>

text \<open>Rust's \<open>?\<close>: stop at the first error. A \<open>Result\<close> is a sum with the error on the left.\<close>

definition bindE :: "'e + 'a \<Rightarrow> ('a \<Rightarrow> 'e + 'b) \<Rightarrow> 'e + 'b" where
  "bindE x f = (case x of Inl e \<Rightarrow> Inl e | Inr v \<Rightarrow> f v)"

definition ok_or :: "'a option \<Rightarrow> 'e \<Rightarrow> 'e + 'a" where
  "ok_or x e = (case x of None \<Rightarrow> Inl e | Some v \<Rightarrow> Inr v)"

lemma bindE_simps [simp]: "bindE (Inl e) f = Inl e" "bindE (Inr v) f = f v"
  by (simp_all add: bindE_def)

lemma bindE_eq_Inr: "bindE x f = Inr y \<longleftrightarrow> (\<exists>v. x = Inr v \<and> f v = Inr y)"
  by (cases x) simp_all

lemma ok_or_simps [simp]: "ok_or (Some v) e = Inr v" "ok_or None e = Inl e"
  by (simp_all add: ok_or_def)

lemma ok_or_eq_Inr [simp]: "ok_or x e = Inr v \<longleftrightarrow> x = Some v"
  by (cases x) simp_all

section \<open>Deadlines\<close>

text \<open>The earlier of two optional deadlines: \<open>a.into_iter().chain(b).min()\<close>.\<close>

fun min_opt :: "nat option \<Rightarrow> nat option \<Rightarrow> nat option" where
  "min_opt None b = b"
| "min_opt (Some a) None = Some a"
| "min_opt (Some a) (Some b) = Some (min a b)"

lemma min_opt_None_right [simp]: "min_opt a None = a"
  by (cases a) simp_all

lemma min_opt_eq_None [simp]: "min_opt a b = None \<longleftrightarrow> a = None \<and> b = None"
  by (cases a; cases b) simp_all

lemma min_opt_le: "min_opt a b = Some k \<Longrightarrow> a = Some x \<Longrightarrow> k \<le> x" "min_opt a b = Some k \<Longrightarrow> b = Some x \<Longrightarrow> k \<le> x"
  by (cases a; cases b; auto)+

lemma min_opt_cases: "min_opt a b = Some k \<Longrightarrow> a = Some k \<or> b = Some k"
  by (cases a; cases b) (auto simp: min_def split: if_splits)

lemma min_opt_shift: "min_opt (map_option ((+) k) a) (map_option ((+) k) b) = map_option ((+) k) (min_opt a b)"
  by (cases a; cases b) (auto simp: min_def)

lemma min_opt_commute: "min_opt a b = min_opt b a"
  by (cases a; cases b) (auto simp: min.commute)

lemma min_opt_assoc: "min_opt (min_opt a b) c = min_opt a (min_opt b c)"
  by (cases a; cases b; cases c) (auto simp: min.assoc)

lemma min_opt_left_commute: "min_opt a (min_opt b c) = min_opt b (min_opt a c)"
  by (metis min_opt_assoc min_opt_commute)

lemmas min_opt_ac = min_opt_assoc min_opt_commute min_opt_left_commute

section \<open>Contracts of the timed devices\<close>

text \<open>
  A device that lives on the machine timeline is advanced by a number of ticks. The run loop
  chooses its batches freely, so what it relies on is that the split does not matter: one
  advance by the total gives the state that any sequence of batches with this total gives.
\<close>

locale tick_device =
  fixes inv :: "'s \<Rightarrow> bool"
    and adv :: "nat \<Rightarrow> 's \<Rightarrow> 's"
  assumes inv_adv: "inv s \<Longrightarrow> inv (adv n s)"
    and adv_zero: "inv s \<Longrightarrow> adv 0 s = s"
    and adv_add: "inv s \<Longrightarrow> adv (m + n) s = adv n (adv m s)"
begin

lemma inv_batches: "inv s \<Longrightarrow> inv (fold adv ns s)"
  by (induction ns arbitrary: s) (auto intro: inv_adv)

lemma batches: "inv s \<Longrightarrow> fold adv ns s = adv (sum_list ns) s"
  by (induction ns arbitrary: s) (auto simp: adv_zero adv_add inv_adv)

lemma batches_same_total: "inv s \<Longrightarrow> sum_list ms = sum_list ns \<Longrightarrow> fold adv ms s = fold adv ns s"
  by (simp add: batches)

end

text \<open>
  A device that also publishes a deadline: strictly before it, what the rest of the machine
  can see of the device does not move. \<open>None\<close> is a device with nothing scheduled.
\<close>

locale deadline_device = tick_device +
  fixes deadline :: "'s \<Rightarrow> nat option"
    and visible :: "'s \<Rightarrow> 'o"
  assumes quiet: "inv s \<Longrightarrow> (case deadline s of None \<Rightarrow> True | Some d \<Rightarrow> n < d) \<Longrightarrow>
      visible (adv n s) = visible s"
begin

lemma quiet_batches:
  assumes "inv s" and "case deadline s of None \<Rightarrow> True | Some d \<Rightarrow> sum_list ns < d"
  shows "visible (fold adv ns s) = visible s"
  using assms by (simp add: batches quiet)

end

text \<open>
  A device that the guest reaches in the middle of a batch. The access names the ticks of the
  batch that have passed (its prefix); the device catches up to it, remembers that credit, and
  the advance at the end of the batch deducts the credit. \<open>run_at\<close> is a batch as the code runs it,
  with the values the accesses return, and \<open>run_live\<close> the same accesses with the time between
  them passing as it is.
\<close>

datatype io_access = In u16 | Out u16 u8

fun run_at :: "('s \<Rightarrow> nat \<Rightarrow> 'a \<Rightarrow> ('v \<times> 's) option) \<Rightarrow> (nat \<times> 'a) list \<Rightarrow> 's \<Rightarrow> ('v list \<times> 's) option" where
  "run_at access [] s = Some ([], s)"
| "run_at access ((p, a) # xs) s =
    (case access s p a of
       None \<Rightarrow> None
     | Some (v, s') \<Rightarrow> map_option (\<lambda>(vs, s'). (v # vs, s')) (run_at access xs s'))"

fun run_live :: "(nat \<Rightarrow> 's \<Rightarrow> 's) \<Rightarrow> ('a \<Rightarrow> 's \<Rightarrow> 'v \<times> 's) \<Rightarrow> nat \<Rightarrow> nat \<Rightarrow> (nat \<times> 'a) list \<Rightarrow> 's \<Rightarrow> 'v list \<times> 's" where
  "run_live adv act t span [] s = ([], adv (span - t) s)"
| "run_live adv act t span ((p, a) # xs) s =
    (let (v, s1) = act a (adv (p - t) s); (vs, s2) = run_live adv act p span xs s1 in (v # vs, s2))"

fun prefixes_ok :: "nat \<Rightarrow> nat \<Rightarrow> (nat \<times> 'a) list \<Rightarrow> bool" where
  "prefixes_ok t span [] \<longleftrightarrow> t \<le> span"
| "prefixes_ok t span ((p, a) # xs) \<longleftrightarrow> t \<le> p \<and> prefixes_ok p span xs"

locale credit_device = tick_device inv adv
  for inv :: "'s \<Rightarrow> bool" and adv :: "nat \<Rightarrow> 's \<Rightarrow> 's" +
  fixes credit :: "'s \<Rightarrow> nat"
    and set_credit :: "nat \<Rightarrow> 's \<Rightarrow> 's"
    and act :: "'a \<Rightarrow> 's \<Rightarrow> 'v \<times> 's"
    and decodes :: "'s \<Rightarrow> 'a \<Rightarrow> bool"
    and access :: "'s \<Rightarrow> nat \<Rightarrow> 'a \<Rightarrow> ('v \<times> 's) option"
    and advance :: "'s \<Rightarrow> nat \<Rightarrow> 's"
  assumes credit_set: "credit (set_credit c s) = c"
    and set_same: "set_credit (credit s) s = s"
    and set_set: "set_credit c (set_credit d s) = set_credit c s"
    and adv_set: "adv n (set_credit c s) = set_credit c (adv n s)"
    and inv_set: "inv (set_credit c s) = inv s"
    and act_set: "act a (set_credit c s) = apsnd (set_credit c) (act a s)"
    and act_inv: "inv s \<Longrightarrow> inv (snd (act a s))"
    and act_foreign: "\<not> decodes s a \<Longrightarrow> snd (act a s) = s"
    and foreign_adv: "\<not> decodes s a \<Longrightarrow> fst (act a (adv n s)) = fst (act a s)"
    and decodes_adv: "decodes (adv n s) a = decodes s a"
    and access: "access s p a =
      (if \<not> decodes s a then Some (act a s)
       else if credit s \<le> p then Some (act a (set_credit p (adv (p - credit s) s))) else None)"
    and advance: "advance s n = adv (n - credit s) (set_credit (credit s - n) s)"
begin

lemma set_credit_inv: "inv s \<Longrightarrow> inv (set_credit c s)"
  by (simp add: inv_set)

lemma run_live_set:
  "run_live adv act t span xs (set_credit c s) = apsnd (set_credit c) (run_live adv act t span xs s)"
  by (induction xs arbitrary: t s) (auto simp: adv_set act_set split: prod.splits)

text \<open>The batch returns what the live run returns, and its end leaves the same state.\<close>

lemma batch_live:
  assumes "inv s" and "credit s \<le> t" and "prefixes_ok t span xs"
  shows "\<exists>vs s'. run_at access xs s = Some (vs, s') \<and>
    (vs, advance s' span) = apsnd (set_credit 0) (run_live adv act t span xs (adv (t - credit s) s))"
  using assms
proof (induction xs arbitrary: t s)
  case Nil
  then have "adv (span - credit s) s = adv (span - t) (adv (t - credit s) s)"
    using adv_add [of s "t - credit s" "span - t"] by simp
  with Nil show ?case by (simp add: advance adv_set)
next
  case (Cons x xs)
  obtain p a where x: "x = (p, a)" by (cases x)
  with Cons.prems have le: "t \<le> p" "credit s \<le> p" and ok: "prefixes_ok p span xs" by auto
  let ?u = "adv (p - credit s) s"
  have u: "adv (p - t) (adv (t - credit s) s) = ?u"
    using adv_add [of s "t - credit s" "p - t"] Cons.prems le by simp
  have inv_u: "inv ?u" using Cons.prems by (simp add: inv_adv)
  show ?case
  proof (cases "decodes s a")
    case True
    obtain v w where vw: "act a ?u = (v, w)" by (cases "act a ?u")
    have "inv w" using act_inv [OF inv_u, of a] vw by simp
    then have "\<exists>vs s'. run_at access xs (set_credit p w) = Some (vs, s') \<and>
        (vs, advance s' span) = apsnd (set_credit 0) (run_live adv act p span xs (adv 0 (set_credit p w)))"
      using Cons.IH [of "set_credit p w" p] ok by (simp add: credit_set inv_set)
    moreover have "access s p a = Some (act a (set_credit p ?u))"
      using True le by (simp add: access)
    ultimately show ?thesis using \<open>inv w\<close> vw u
      by (auto simp: x act_set adv_zero inv_set run_live_set set_set apsnd_def map_prod_def split: prod.splits)
  next
    case False
    then have f: "act a ?u = (fst (act a s), ?u)" "act a s = (fst (act a s), s)"
      using act_foreign [of s a] act_foreign [of ?u a] foreign_adv [of s a] decodes_adv
      by (metis prod.collapse)+
    moreover have "access s p a = Some (act a s)"
      using False by (simp add: access)
    ultimately show ?thesis using Cons.IH [of s p] Cons.prems ok le u
      by (auto simp: x split: prod.splits)
  qed
qed

end

end
