(* ===== verification/Clock.thy ===== *)
theory Clock
  imports Prelude
begin

text \<open>
  Exact clock rates and the four CPU modes of the machine
  (\<open>crates/izarravm-core/src/clock.rs\<close> and \<open>gsw.rs\<close>). A rate is a ratio of two \<open>u64\<close>; every
  conversion runs in \<open>u128\<close> and saturates to \<open>u64\<close>, which is written out here. The lemmas show
  that the saturating code computes the saturated exact value, that the two roundings are
  adjoint, and that every CPU mode divides the master timeline.
\<close>

section \<open>Clock rates\<close>

record clock_rate =
  numerator_hz :: nat
  denominator :: nat

definition MASTER_CLOCK_HZ :: nat where
  "MASTER_CLOCK_HZ = 5478000000"

text \<open>\<open>ClockRate::new\<close> asserts that neither part is zero; \<open>None\<close> is the failed assertion.\<close>

definition clock_rate_new :: "nat \<Rightarrow> nat \<Rightarrow> clock_rate option" where
  "clock_rate_new n d = (if n \<noteq> 0 \<and> d \<noteq> 0 then Some \<lparr>numerator_hz = n, denominator = d\<rparr> else None)"

definition clock_rate_from_hz :: "nat \<Rightarrow> clock_rate option" where
  "clock_rate_from_hz hz = clock_rate_new hz 1"

definition master_ticks_per_clock :: "clock_rate \<Rightarrow> nat option" where
  "master_ticks_per_clock r =
    (let scaled = MASTER_CLOCK_HZ * denominator r; divisor = numerator_hz r
     in if scaled mod divisor \<noteq> 0 then None
        else let ticks = scaled div divisor in if ticks > u64_max then None else Some ticks)"

definition master_ticks_for_clocks_floor :: "clock_rate \<Rightarrow> nat \<Rightarrow> nat" where
  "master_ticks_for_clocks_floor r clocks =
    (let per_clock = MASTER_CLOCK_HZ * denominator r
     in case checked_mul128 per_clock clocks of
          Some scaled \<Rightarrow> sat64 (scaled div numerator_hz r)
        | None \<Rightarrow> u64_max)"

definition master_ticks_for_clocks_ceil :: "clock_rate \<Rightarrow> nat \<Rightarrow> nat" where
  "master_ticks_for_clocks_ceil r clocks =
    (let per_clock = MASTER_CLOCK_HZ * denominator r
     in case checked_mul128 per_clock clocks of
          Some scaled \<Rightarrow> sat64 (div_ceil scaled (numerator_hz r))
        | None \<Rightarrow> u64_max)"

definition clocks_for_master_ticks_floor :: "clock_rate \<Rightarrow> nat \<Rightarrow> nat" where
  "clocks_for_master_ticks_floor r master_ticks =
    (let scaled = master_ticks * numerator_hz r; divisor = MASTER_CLOCK_HZ * denominator r
     in sat64 (scaled div divisor))"

definition clocks_for_master_ticks_ceil :: "clock_rate \<Rightarrow> nat \<Rightarrow> nat" where
  "clocks_for_master_ticks_ceil r master_ticks =
    (let scaled = master_ticks * numerator_hz r; divisor = MASTER_CLOCK_HZ * denominator r
     in sat64 (div_ceil scaled divisor))"

text \<open>\<open>None\<close>: the assertion on the denominator fails.\<close>

definition clocks_for_fraction_floor :: "clock_rate \<Rightarrow> nat \<Rightarrow> nat \<Rightarrow> nat option" where
  "clocks_for_fraction_floor r seconds_numerator seconds_denominator =
    (if seconds_denominator = 0 then None
     else Some (sat64 ((numerator_hz r * seconds_numerator) div (denominator r * seconds_denominator))))"

definition floor_hz :: "clock_rate \<Rightarrow> nat" where
  "floor_hz r = numerator_hz r div denominator r"

section \<open>The GSW modes\<close>

datatype gsw_mode = Gsw386Slow | Gsw386 | Gsw486 | Gsw586

datatype cpu_persona = I386 | I486 | I586

fun has_fpu :: "cpu_persona \<Rightarrow> bool" where
  "has_fpu I386 = False"
| "has_fpu I486 = True"
| "has_fpu I586 = True"

datatype l1_cache = NoL1 | Unified nat | Split nat nat

fun l1_total_kib :: "l1_cache \<Rightarrow> nat" where
  "l1_total_kib NoL1 = 0"
| "l1_total_kib (Unified kib) = kib"
| "l1_total_kib (Split instruction_kib data_kib) = instruction_kib + data_kib"

record cache_geometry =
  l1 :: l1_cache
  external_kib :: nat

definition compatibility_kib :: "cache_geometry \<Rightarrow> nat \<times> nat" where
  "compatibility_kib g = (l1_total_kib (l1 g), external_kib g)"

record gsw_mode_spec =
  mode :: gsw_mode
  canonical_name :: string
  rank :: nat
  register_code :: nat
  clock :: clock_rate
  persona :: cpu_persona
  cache :: cache_geometry

definition GSW_MODE_SPECS :: "gsw_mode_spec list" where
  "GSW_MODE_SPECS =
    [ \<lparr>mode = Gsw386Slow, canonical_name = ''386-slow'', rank = 0, register_code = 3,
       clock = \<lparr>numerator_hz = 22000000, denominator = 3\<rparr>, persona = I386,
       cache = \<lparr>l1 = NoL1, external_kib = 512\<rparr>\<rparr>,
      \<lparr>mode = Gsw386, canonical_name = ''386'', rank = 1, register_code = 0,
       clock = \<lparr>numerator_hz = 22000000, denominator = 1\<rparr>, persona = I386,
       cache = \<lparr>l1 = NoL1, external_kib = 512\<rparr>\<rparr>,
      \<lparr>mode = Gsw486, canonical_name = ''486'', rank = 2, register_code = 1,
       clock = \<lparr>numerator_hz = 66000000, denominator = 1\<rparr>, persona = I486,
       cache = \<lparr>l1 = Unified 8, external_kib = 512\<rparr>\<rparr>,
      \<lparr>mode = Gsw586, canonical_name = ''586'', rank = 3, register_code = 2,
       clock = \<lparr>numerator_hz = 166000000, denominator = 1\<rparr>, persona = I586,
       cache = \<lparr>l1 = Split 16 16, external_kib = 512\<rparr>\<rparr> ]"

fun spec :: "gsw_mode \<Rightarrow> gsw_mode_spec" where
  "spec Gsw386Slow = GSW_MODE_SPECS ! 0"
| "spec Gsw386 = GSW_MODE_SPECS ! 1"
| "spec Gsw486 = GSW_MODE_SPECS ! 2"
| "spec Gsw586 = GSW_MODE_SPECS ! 3"

text \<open>The search loops of \<open>from_rank\<close> and \<open>from_register_code\<close> over the table.\<close>

fun from_rank_loop :: "gsw_mode_spec list \<Rightarrow> nat \<Rightarrow> gsw_mode option" where
  "from_rank_loop [] r = None"
| "from_rank_loop (s # ss) r = (if rank s = r then Some (mode s) else from_rank_loop ss r)"

definition from_rank :: "nat \<Rightarrow> gsw_mode option" where
  "from_rank r = from_rank_loop GSW_MODE_SPECS r"

fun from_register_code_loop :: "gsw_mode_spec list \<Rightarrow> nat \<Rightarrow> gsw_mode option" where
  "from_register_code_loop [] c = None"
| "from_register_code_loop (s # ss) c =
     (if register_code s = c then Some (mode s) else from_register_code_loop ss c)"

definition from_register_code :: "nat \<Rightarrow> gsw_mode option" where
  "from_register_code c = from_register_code_loop GSW_MODE_SPECS c"

definition clock_hz :: "gsw_mode \<Rightarrow> nat" where
  "clock_hz m = floor_hz (clock (spec m))"

definition cache_kb :: "gsw_mode \<Rightarrow> nat \<times> nat" where
  "cache_kb m = compatibility_kib (cache (spec m))"

definition uses_approximate_timing :: "gsw_mode \<Rightarrow> bool" where
  "uses_approximate_timing m \<longleftrightarrow> persona (spec m) = I486 \<or> persona (spec m) = I586"

text \<open>
  \<open>normalize\<close> (\<open>crates/izarravm-core/src/lib.rs\<close>) drops hyphens and blanks and lowers ASCII
  letters; \<open>from_str\<close> matches the result against the accepted spellings.
\<close>

datatype config_error = RemovedCpu286 | UnknownPreset string string

definition to_ascii_lowercase :: "char \<Rightarrow> char" where
  "to_ascii_lowercase c =
    (if 65 \<le> (of_char c :: nat) \<and> (of_char c :: nat) \<le> 90
     then char_of ((of_char c :: nat) + 32) else c)"

definition normalize :: "string \<Rightarrow> string" where
  "normalize v = map to_ascii_lowercase (filter (\<lambda>c. c \<noteq> CHR ''-'' \<and> c \<noteq> CHR '' '') v)"

definition gsw_mode_from_str :: "string \<Rightarrow> config_error + gsw_mode" where
  "gsw_mode_from_str v =
    (let n = normalize v in
     if n \<in> set [''286'', ''80286'', ''i286'', ''gsw286''] then Inl RemovedCpu286
     else if n \<in> set [''386'', ''gsw386'', ''386dx25'', ''i386dx25'', ''i386dx_25'', ''386_25'']
       then Inr Gsw386
     else if n \<in> set [''386slow'', ''slow'', ''gsw386slow''] then Inr Gsw386Slow
     else if n \<in> set [''486'', ''gsw486'', ''486dx266'', ''i486dx266'', ''i486dx2_66'', ''486dx2_66'']
       then Inr Gsw486
     else if n \<in> set [''586'', ''gsw586''] then Inr Gsw586
     else Inl (UnknownPreset ''CPU'' v))"

section \<open>Laws of the conversions\<close>

definition rate_ok :: "clock_rate \<Rightarrow> bool" where
  "rate_ok r \<longleftrightarrow> 0 < numerator_hz r \<and> numerator_hz r \<le> u64_max \<and> 0 < denominator r \<and> denominator r \<le> u64_max"

lemma overflow_saturates:
  assumes "u128_max < x" and "0 < n" and "n \<le> u64_max"
  shows "u64_max < x div n"
proof -
  have "(u64_max + 1) * n \<le> (u64_max + 1) * u64_max"
    using assms(3) by (rule mult_le_mono2)
  also have "\<dots> \<le> x"
    using assms(1) by (simp add: u64_max_def u128_max_def)
  finally have "u64_max + 1 \<le> x div n"
    using assms(2) by (simp add: le_div_iff_mult_le_nat)
  then show ?thesis by simp
qed

lemma div_le_div_ceil: "a div b \<le> div_ceil a b"
  by (simp add: div_ceil_def)

lemma floor_exact:
  assumes "rate_ok r"
  shows "master_ticks_for_clocks_floor r c = sat64 (MASTER_CLOCK_HZ * denominator r * c div numerator_hz r)"
proof (cases "MASTER_CLOCK_HZ * denominator r * c \<le> u128_max")
  case True
  then show ?thesis by (simp add: master_ticks_for_clocks_floor_def checked_mul128_def Let_def)
next
  case False
  then have "u64_max < MASTER_CLOCK_HZ * denominator r * c div numerator_hz r"
    using assms by (intro overflow_saturates) (auto simp: rate_ok_def)
  with False show ?thesis
    by (simp add: master_ticks_for_clocks_floor_def checked_mul128_def Let_def sat64_def)
qed

lemma ceil_exact:
  assumes "rate_ok r"
  shows "master_ticks_for_clocks_ceil r c = sat64 (div_ceil (MASTER_CLOCK_HZ * denominator r * c) (numerator_hz r))"
proof (cases "MASTER_CLOCK_HZ * denominator r * c \<le> u128_max")
  case True
  then show ?thesis by (simp add: master_ticks_for_clocks_ceil_def checked_mul128_def Let_def)
next
  case False
  then have "u64_max < MASTER_CLOCK_HZ * denominator r * c div numerator_hz r"
    using assms by (intro overflow_saturates) (auto simp: rate_ok_def)
  then have "u64_max < div_ceil (MASTER_CLOCK_HZ * denominator r * c) (numerator_hz r)"
    using div_le_div_ceil by (rule less_le_trans)
  with False show ?thesis
    by (simp add: master_ticks_for_clocks_ceil_def checked_mul128_def Let_def sat64_def)
qed

lemma clocks_ceil_le_iff:
  assumes "rate_ok r" and "c < u64_max"
  shows "clocks_for_master_ticks_ceil r m \<le> c \<longleftrightarrow> m * numerator_hz r \<le> c * (MASTER_CLOCK_HZ * denominator r)"
  using assms
  by (simp add: clocks_for_master_ticks_ceil_def Let_def sat64_le_iff div_ceil_le_iff rate_ok_def MASTER_CLOCK_HZ_def)

lemma le_ticks_floor_iff:
  assumes "rate_ok r" and "m \<le> u64_max"
  shows "m \<le> master_ticks_for_clocks_floor r c \<longleftrightarrow> m * numerator_hz r \<le> c * (MASTER_CLOCK_HZ * denominator r)"
  using assms
  by (simp add: floor_exact le_sat64_iff le_div_iff_mult_le_nat rate_ok_def ac_simps)

lemma gsw_quantum:
  "master_ticks_per_clock (clock (spec m)) =
     Some (case m of Gsw386Slow \<Rightarrow> 747 | Gsw386 \<Rightarrow> 249 | Gsw486 \<Rightarrow> 83 | Gsw586 \<Rightarrow> 33)"
  by (cases m) (simp_all add: master_ticks_per_clock_def GSW_MODE_SPECS_def MASTER_CLOCK_HZ_def u64_max_def)

section \<open>Properties\<close>

text \<open>C34: The deadline conversion and the tick conversion are adjoint: a tick \<open>m\<close> is covered by \<open>c\<close>
  CPU clocks exactly when the rounded-up clock count of \<open>m\<close> is at most \<open>c\<close>. So
  \<open>clocks_for_master_ticks_ceil\<close> returns the first clock at or after a deadline, for every rate
  with non-zero \<open>u64\<close> parts and although both directions saturate.\<close>

theorem clock_conversions_adjoint:
  assumes "rate_ok r" and "m \<le> u64_max" and "c < u64_max"
  shows "clocks_for_master_ticks_ceil r m \<le> c \<longleftrightarrow> m \<le> master_ticks_for_clocks_floor r c"
  using assms by (simp add: clocks_ceil_le_iff le_ticks_floor_iff)

theorem clock_conversions_adjoint_witness:
  "clocks_for_master_ticks_ceil \<lparr>numerator_hz = 22000000, denominator = 3\<rparr> 748 = 2 \<and>
   (2 \<le> (1::nat) \<longleftrightarrow> 748 \<le> master_ticks_for_clocks_floor \<lparr>numerator_hz = 22000000, denominator = 3\<rparr> 1)"
proof -
  let ?r = "\<lparr>numerator_hz = 22000000, denominator = 3\<rparr>"
  have c: "clocks_for_master_ticks_ceil ?r 748 = 2"
    by (simp add: clocks_for_master_ticks_ceil_def MASTER_CLOCK_HZ_def div_ceil_def sat64_def u64_max_def)
  have "clocks_for_master_ticks_ceil ?r 748 \<le> 1 \<longleftrightarrow> 748 \<le> master_ticks_for_clocks_floor ?r 1"
    by (rule clock_conversions_adjoint) (simp_all add: rate_ok_def u64_max_def)
  then show ?thesis using c by simp
qed

text \<open>Every CPU mode is an exact number of master ticks per clock: 747 at 22/3 MHz, 249 at 22 MHz,
  83 at 66 MHz and 33 at 166 MHz. The mode is recovered from its rank, from its register code and
  from its canonical name, so no two modes share one.\<close>

lemma gsw_modes_exact:
  "master_ticks_per_clock (clock (spec m)) =
     Some (case m of Gsw386Slow \<Rightarrow> 747 | Gsw386 \<Rightarrow> 249 | Gsw486 \<Rightarrow> 83 | Gsw586 \<Rightarrow> 33)
   \<and> from_rank (rank (spec m)) = Some m
   \<and> from_register_code (register_code (spec m)) = Some m
   \<and> gsw_mode_from_str (canonical_name (spec m)) = Inr m"
  using gsw_quantum [of m]
  by (cases m)
    (simp_all add: GSW_MODE_SPECS_def from_rank_def from_register_code_def
      gsw_mode_from_str_def normalize_def to_ascii_lowercase_def)

end
