(* ===== verification/Canonical.thy ===== *)
theory Canonical
  imports Prelude
begin

text \<open>
  The canonical state container (\<open>crates/izarravm-core/src/canonical_state.rs\<close>): the field writer,
  the section writer with its rollback, and the framing parser. Lengths and offsets are \<open>usize\<close>
  (64 bits) with the checked additions of the source; what the host allocator grants to
  \<open>try_reserve\<close> is the parameter \<open>grants\<close> (current length, additional length). The lemmas show
  that writer and parser are inverse to each other.
\<close>

section \<open>Sections and errors\<close>

datatype requirement = Required | Optional

fun requirement_flags :: "requirement \<Rightarrow> nat" where
  "requirement_flags Required = 0"
| "requirement_flags Optional = 1"

definition requirement_from_flags :: "nat \<Rightarrow> requirement option" where
  "requirement_from_flags flags =
    (if flags = 0 then Some Required else if flags = 1 then Some Optional else None)"

datatype canonical_error =
    AllocationFailed
  | LengthOverflow
  | SectionCountOverflow
  | SectionOutOfOrder nat nat
  | TruncatedHeader
  | InvalidMagic
  | UnsupportedMajorVersion nat
  | UnsupportedHeaderFlags nat
  | TruncatedSectionHeader nat
  | ReservedSectionId
  | ReservedSectionVersion nat
  | UnsupportedSectionFlags nat nat
  | TruncatedSectionPayload nat nat nat
  | TrailingBytes nat

text \<open>\<open>NonZeroU32\<close> identifiers and \<open>NonZeroU16\<close> versions.\<close>

definition section_id_new :: "nat \<Rightarrow> nat option" where
  "section_id_new v = (if v = 0 then None else Some v)"

definition section_version_new :: "nat \<Rightarrow> nat option" where
  "section_version_new v = (if v = 0 then None else Some v)"

record canonical_section =
  sec_id :: nat
  sec_version :: nat
  sec_requirement :: requirement
  sec_payload :: "u8 list"

definition MAGIC :: "u8 list" where
  "MAGIC = [0x49, 0x5A, 0x43, 0x53, 0x54, 0x41, 0x54, 0x45]"

definition HEADER_LEN :: nat where "HEADER_LEN = 20"
definition SECTION_HEADER_LEN :: nat where "SECTION_HEADER_LEN = 16"
definition HEADER_FLAGS_OFFSET :: nat where "HEADER_FLAGS_OFFSET = 12"
definition SECTION_COUNT_OFFSET :: nat where "SECTION_COUNT_OFFSET = 16"

section \<open>Checked lengths\<close>

type_synonym grants = "nat \<Rightarrow> nat \<Rightarrow> bool"

definition reserve :: "grants \<Rightarrow> nat \<Rightarrow> nat \<Rightarrow> canonical_error + unit" where
  "reserve g len additional =
    (case checked_add64 len additional of
       None \<Rightarrow> Inl LengthOverflow
     | Some _ \<Rightarrow> if g len additional then Inr () else Inl AllocationFailed)"

definition checked_add_len :: "nat \<Rightarrow> nat \<Rightarrow> canonical_error + nat" where
  "checked_add_len a b = ok_or (checked_add64 a b) LengthOverflow"

definition read_le :: "nat \<Rightarrow> u8 list \<Rightarrow> nat \<Rightarrow> canonical_error + nat" where
  "read_le n bytes offset =
    bindE (checked_add_len offset n) (\<lambda>e.
      if e \<le> length bytes then Inr (from_le (take n (drop offset bytes))) else Inl TruncatedHeader)"

definition read_u16 :: "u8 list \<Rightarrow> nat \<Rightarrow> canonical_error + nat" where
  "read_u16 = read_le 2"

definition read_u32 :: "u8 list \<Rightarrow> nat \<Rightarrow> canonical_error + nat" where
  "read_u32 = read_le 4"

definition read_u64 :: "u8 list \<Rightarrow> nat \<Rightarrow> canonical_error + nat" where
  "read_u64 = read_le 8"

section \<open>The field writer\<close>

text \<open>
  One field of a payload; a section callback is a sequence of them. Signed integers are written
  as their two's complement, floats as their bits, tags and counts as \<open>U32\<close> and \<open>U64\<close>.
\<close>

datatype field =
    FU8 u8
  | FU16 u16
  | FU32 u32
  | FU64 nat
  | FBool bool
  | FRaw "u8 list"
  | FLenPrefixed "u8 list"

fun field_bytes :: "field \<Rightarrow> u8 list" where
  "field_bytes (FU8 v) = [v]"
| "field_bytes (FU16 v) = le_bytes 2 (unat v)"
| "field_bytes (FU32 v) = le_bytes 4 (unat v)"
| "field_bytes (FU64 v) = le_bytes 8 v"
| "field_bytes (FBool b) = [of_bool8 b]"
| "field_bytes (FRaw bs) = bs"
| "field_bytes (FLenPrefixed bs) = le_bytes 8 (length bs) @ bs"

text \<open>
  The writer's operations change the byte vector in place and may then fail: each returns its result
  and the bytes it leaves behind.  \<open>and_then\<close> is the \<open>?\<close> operator: after an error the bytes stay as they
  are at that point.
\<close>

type_synonym written = "(canonical_error + unit) \<times> u8 list"

fun and_then :: "written \<Rightarrow> (u8 list \<Rightarrow> written) \<Rightarrow> written" where
  "and_then (Inl e, bytes) k = (Inl e, bytes)"
| "and_then (Inr u, bytes) k = k bytes"

definition append_bytes :: "grants \<Rightarrow> u8 list \<Rightarrow> u8 list \<Rightarrow> written" where
  "append_bytes g v bytes = and_then (reserve g (length bytes) (length v), bytes) (\<lambda>b. (Inr (), b @ v))"

definition append_field :: "grants \<Rightarrow> field \<Rightarrow> u8 list \<Rightarrow> written" where
  "append_field g f bytes =
    (case f of
       FLenPrefixed v \<Rightarrow>
         if length v > u64_max then (Inl LengthOverflow, bytes)
         else (case checked_add_len 8 (length v) of
             Inl e \<Rightarrow> (Inl e, bytes)
           | Inr additional \<Rightarrow> and_then (reserve g (length bytes) additional, bytes)
               (\<lambda>b. (Inr (), b @ le_bytes 8 (length v) @ v)))
     | _ \<Rightarrow> append_bytes g (field_bytes f) bytes)"

fun write_fields :: "grants \<Rightarrow> field list \<Rightarrow> u8 list \<Rightarrow> written" where
  "write_fields g [] bytes = (Inr (), bytes)"
| "write_fields g (f # fs) bytes = and_then (append_field g f bytes) (write_fields g fs)"

definition fields_bytes :: "field list \<Rightarrow> u8 list" where
  "fields_bytes fs = concat (map field_bytes fs)"

section \<open>The section writer\<close>

record canonical_writer =
  w_bytes :: "u8 list"
  w_count :: nat
  w_last :: "nat option"

definition header_bytes :: "nat \<Rightarrow> nat \<Rightarrow> u8 list" where
  "header_bytes minor count = MAGIC @ le_bytes 2 1 @ le_bytes 2 minor @ le_bytes 4 0 @ le_bytes 4 count"

definition writer_new :: "grants \<Rightarrow> canonical_error + canonical_writer" where
  "writer_new g =
    bindE (reserve g 0 HEADER_LEN) (\<lambda>_.
      Inr \<lparr>w_bytes = header_bytes 0 0, w_count = 0, w_last = None\<rparr>)"

text \<open>\<open>bytes[lo..lo + n].copy_from_slice(src)\<close>\<close>

definition overwrite :: "u8 list \<Rightarrow> nat \<Rightarrow> u8 list \<Rightarrow> u8 list" where
  "overwrite bytes lo src = take lo bytes @ src @ drop (lo + length src) bytes"

text \<open>
  \<open>CanonicalStateWriter::section\<close>: the inner closure appends the section header, runs the callback on
  the writer's own vector and patches the length, and leaves behind whatever was written when it
  fails; the caller then truncates the vector to the section's start.  The second component is the
  writer after the call.
\<close>

definition section_body :: "grants \<Rightarrow> nat \<Rightarrow> nat \<Rightarrow> requirement \<Rightarrow> (u8 list \<Rightarrow> written) \<Rightarrow> u8 list \<Rightarrow> written" where
  "section_body g sid version req callback bytes0 =
    and_then (reserve g (length bytes0) SECTION_HEADER_LEN, bytes0) (\<lambda>bytes1.
    let head = bytes1 @ le_bytes 4 sid @ le_bytes 2 version @ le_bytes 2 (requirement_flags req);
        length_offset = length head;
        opened = head @ le_bytes 8 0;
        payload_start = length opened
    in and_then (callback opened) (\<lambda>bytes.
       case checked_sub64 (length bytes) payload_start of
         None \<Rightarrow> (Inl LengthOverflow, bytes)
       | Some payload_len \<Rightarrow>
           if payload_len > u64_max then (Inl LengthOverflow, bytes)
           else (case checked_add_len length_offset 8 of
               Inl e \<Rightarrow> (Inl e, bytes)
             | Inr length_end \<Rightarrow> (Inr (), overwrite bytes length_offset (le_bytes 8 payload_len)))))"

definition writer_section ::
  "grants \<Rightarrow> canonical_writer \<Rightarrow> nat \<Rightarrow> nat \<Rightarrow> requirement \<Rightarrow> (u8 list \<Rightarrow> written)
   \<Rightarrow> (canonical_error + unit) \<times> canonical_writer" where
  "writer_section g w sid version req callback =
    (if (case w_last w of None \<Rightarrow> False | Some previous \<Rightarrow> sid \<le> previous)
     then (Inl (SectionOutOfOrder (the (w_last w)) sid), w)
     else if w_count w + 1 > 0xFFFFFFFF then (Inl SectionCountOverflow, w)
     else
       let section_start = length (w_bytes w);
           (result, bytes) = section_body g sid version req callback (w_bytes w)
       in case result of
            Inl e \<Rightarrow> (Inl e, w\<lparr>w_bytes := take section_start bytes\<rparr>)
          | Inr _ \<Rightarrow> (Inr (), \<lparr>w_bytes = bytes, w_count = w_count w + 1, w_last = Some sid\<rparr>))"

section \<open>The parser\<close>

definition parse_section ::
  "u8 list \<Rightarrow> nat \<Rightarrow> nat \<Rightarrow> nat option \<Rightarrow> canonical_error + (canonical_section \<times> nat)" where
  "parse_section bytes index cursor last_section =
    bindE (checked_add_len cursor SECTION_HEADER_LEN) (\<lambda>header_end.
    if header_end > length bytes then Inl (TruncatedSectionHeader index)
    else bindE (read_u32 bytes cursor) (\<lambda>raw_id.
    bindE (ok_or (section_id_new raw_id) ReservedSectionId) (\<lambda>sid.
    if (case last_section of None \<Rightarrow> False | Some previous \<Rightarrow> raw_id \<le> previous)
    then Inl (SectionOutOfOrder (the last_section) raw_id)
    else bindE (read_u16 bytes (cursor + 4)) (\<lambda>raw_version.
    bindE (ok_or (section_version_new raw_version) (ReservedSectionVersion raw_id)) (\<lambda>version.
    bindE (read_u16 bytes (cursor + 6)) (\<lambda>raw_flags.
    bindE (ok_or (requirement_from_flags raw_flags) (UnsupportedSectionFlags raw_id raw_flags)) (\<lambda>req.
    bindE (read_u64 bytes (cursor + 8)) (\<lambda>declared.
    bindE (checked_add_len header_end declared) (\<lambda>payload_end.
    if payload_end > length bytes
    then Inl (TruncatedSectionPayload raw_id declared (length bytes - header_end))
    else Inr (\<lparr>sec_id = sid, sec_version = version, sec_requirement = req,
               sec_payload = take declared (drop header_end bytes)\<rparr>, payload_end))))))))))"

fun parse_sections ::
  "grants \<Rightarrow> u8 list \<Rightarrow> nat \<Rightarrow> nat \<Rightarrow> nat \<Rightarrow> nat option \<Rightarrow> canonical_section list
   \<Rightarrow> canonical_error + (canonical_section list \<times> nat)" where
  "parse_sections g bytes 0 index cursor last_section sections = Inr (sections, cursor)"
| "parse_sections g bytes (Suc n) index cursor last_section sections =
    bindE (parse_section bytes index cursor last_section) (\<lambda>(s, payload_end).
    bindE (reserve g (length sections) 1) (\<lambda>_.
    parse_sections g bytes n (index + 1) payload_end (Some (sec_id s)) (sections @ [s])))"

definition canonical_parse :: "grants \<Rightarrow> u8 list \<Rightarrow> canonical_error + (nat \<times> canonical_section list)" where
  "canonical_parse g bytes =
    (if length bytes < HEADER_LEN then Inl TruncatedHeader
     else if take 8 bytes \<noteq> MAGIC then Inl InvalidMagic
     else bindE (read_u16 bytes 8) (\<lambda>major.
     if major \<noteq> 1 then Inl (UnsupportedMajorVersion major)
     else bindE (read_u16 bytes 10) (\<lambda>minor.
     bindE (read_u32 bytes HEADER_FLAGS_OFFSET) (\<lambda>header_flags.
     if header_flags \<noteq> 0 then Inl (UnsupportedHeaderFlags header_flags)
     else bindE (read_u32 bytes SECTION_COUNT_OFFSET) (\<lambda>section_count.
     bindE (parse_sections g bytes section_count 0 HEADER_LEN None []) (\<lambda>(sections, cursor).
     if cursor \<noteq> length bytes then Inl (TrailingBytes (length bytes - cursor))
     else Inr (minor, sections)))))))"

definition writer_finish :: "grants \<Rightarrow> canonical_writer \<Rightarrow> canonical_error + u8 list" where
  "writer_finish g w =
    (let bytes = overwrite (w_bytes w) SECTION_COUNT_OFFSET (le_bytes 4 (w_count w))
     in bindE (canonical_parse g bytes) (\<lambda>_. Inr bytes))"

section \<open>The format, as a specification\<close>

definition encode_section :: "canonical_section \<Rightarrow> u8 list" where
  "encode_section s =
    le_bytes 4 (sec_id s) @ le_bytes 2 (sec_version s) @ le_bytes 2 (requirement_flags (sec_requirement s))
    @ le_bytes 8 (length (sec_payload s)) @ sec_payload s"

definition encode_sections :: "canonical_section list \<Rightarrow> u8 list" where
  "encode_sections ss = concat (map encode_section ss)"

definition encode_container :: "nat \<Rightarrow> canonical_section list \<Rightarrow> u8 list" where
  "encode_container minor ss = header_bytes minor (length ss) @ encode_sections ss"

definition section_ok :: "canonical_section \<Rightarrow> bool" where
  "section_ok s \<longleftrightarrow> 0 < sec_id s \<and> sec_id s < 2 ^ 32 \<and> 0 < sec_version s \<and> sec_version s < 2 ^ 16"

definition after_last :: "nat option \<Rightarrow> nat \<Rightarrow> bool" where
  "after_last l n \<longleftrightarrow> (case l of None \<Rightarrow> True | Some p \<Rightarrow> p < n)"

fun sections_ok :: "nat option \<Rightarrow> canonical_section list \<Rightarrow> bool" where
  "sections_ok l [] = True"
| "sections_ok l (s # ss) = (section_ok s \<and> after_last l (sec_id s) \<and> sections_ok (Some (sec_id s)) ss)"

definition grants_all :: "grants \<Rightarrow> nat \<Rightarrow> bool" where
  "grants_all g n \<longleftrightarrow> (\<forall>len add. len + add \<le> n \<longrightarrow> g len add)"

lemma length_encode_section [simp]: "length (encode_section s) = 16 + length (sec_payload s)"
  by (simp add: encode_section_def)

lemma encode_sections_simps [simp]:
  "encode_sections [] = []" "encode_sections (s # ss) = encode_section s @ encode_sections ss"
  by (simp_all add: encode_sections_def)

lemma requirement_flags_less: "requirement_flags r < 65536"
  by (cases r) auto

lemma requirement_roundtrip [simp]: "requirement_from_flags (requirement_flags r) = Some r"
  by (cases r) (auto simp: requirement_from_flags_def)

lemma requirement_flags_inv: "requirement_from_flags f = Some r \<Longrightarrow> requirement_flags r = f"
  by (auto simp: requirement_from_flags_def split: if_splits)

lemma read_le_eq_Inr:
  "read_le n bytes off = Inr v \<longleftrightarrow>
     off + n \<le> u64_max \<and> off + n \<le> length bytes \<and> v = from_le (take n (drop off bytes))"
  by (auto simp: read_le_def checked_add_len_def checked_add64_def bindE_eq_Inr)

lemma read_le_at:
  assumes "length (pre @ le_bytes n v @ post) \<le> u64_max" and "v < 256 ^ n"
  shows "read_le n (pre @ le_bytes n v @ post) (length pre) = Inr v"
  using assms by (simp add: read_le_eq_Inr from_le_le_bytes)

lemma read_le_offset:
  assumes "length bytes \<le> u64_max" and "v < 256 ^ n" and "bytes = pre @ le_bytes n v @ post" and "off = length pre"
  shows "read_le n bytes off = Inr v"
  using assms read_le_at by simp

lemma parse_section_encode:
  assumes len: "length (pre @ encode_section s @ post) \<le> u64_max"
    and ok: "section_ok s" and l: "after_last l (sec_id s)"
  shows "parse_section (pre @ encode_section s @ post) i (length pre) l
       = Inr (s, length pre + length (encode_section s))"
proof -
  let ?b = "pre @ encode_section s @ post"
  let ?f = "requirement_flags (sec_requirement s)"
  have pl: "length (sec_payload s) \<le> u64_max" using len by simp
  have "read_le 4 ?b (length pre) = Inr (sec_id s)"
    by (rule read_le_offset [OF len, where pre = pre])
      (use ok in \<open>simp_all add: section_ok_def encode_section_def\<close>)
  moreover have "read_le 2 ?b (length pre + 4) = Inr (sec_version s)"
    by (rule read_le_offset [OF len, where pre = "pre @ le_bytes 4 (sec_id s)"])
      (use ok in \<open>simp_all add: section_ok_def encode_section_def\<close>)
  moreover have "read_le 2 ?b (length pre + 6) = Inr ?f"
    by (rule read_le_offset [OF len, where pre = "pre @ le_bytes 4 (sec_id s) @ le_bytes 2 (sec_version s)"])
      (simp_all add: requirement_flags_less encode_section_def)
  moreover have "read_le 8 ?b (length pre + 8) = Inr (length (sec_payload s))"
    by (rule read_le_offset [OF len, where pre = "pre @ le_bytes 4 (sec_id s) @ le_bytes 2 (sec_version s) @ le_bytes 2 ?f"])
      (use pl in \<open>simp_all add: u64_max_def encode_section_def\<close>)
  moreover have "take (length (sec_payload s)) (drop (length pre + 16) ?b) = sec_payload s"
    by (simp add: encode_section_def)
  ultimately show ?thesis
    using ok l len
    by (auto simp: parse_section_def read_u16_def read_u32_def read_u64_def checked_add_len_def checked_add64_def
        SECTION_HEADER_LEN_def section_id_new_def section_version_new_def section_ok_def after_last_def
        split: option.splits)
qed

lemma take_drop_split: "take (m + n) (drop k xs) = take m (drop k xs) @ take n (drop (k + m) xs)"
  by (simp add: take_add add.commute)

lemma parse_section_inv:
  assumes "parse_section bytes i cursor l = Inr (s, e)"
  shows "section_ok s \<and> after_last l (sec_id s) \<and> e = cursor + length (encode_section s) \<and> e \<le> length bytes
    \<and> take (length (encode_section s)) (drop cursor bytes) = encode_section s"
proof -
  from assms obtain v f d where
    c16: "cursor + 16 \<le> length bytes"
    and s_id: "sec_id s = from_le (take 4 (drop cursor bytes))" and id0: "0 < sec_id s"
    and s_v: "sec_version s = from_le (take 2 (drop (cursor + 4) bytes))" and v0: "0 < sec_version s"
    and s_f: "requirement_flags (sec_requirement s) = from_le (take 2 (drop (cursor + 6) bytes))"
    and d: "d = from_le (take 8 (drop (cursor + 8) bytes))"
    and e: "e = cursor + 16 + d" and el: "e \<le> length bytes"
    and pl: "sec_payload s = take d (drop (cursor + 16) bytes)"
    and l: "after_last l (sec_id s)"
    by (auto simp: parse_section_def bindE_eq_Inr read_u16_def read_u32_def read_u64_def read_le_eq_Inr
        checked_add_len_def checked_add64_def SECTION_HEADER_LEN_def section_id_new_def
        section_version_new_def after_last_def not_le split: if_splits option.splits
        dest!: requirement_flags_inv)
  have d_len: "d = length (sec_payload s)" using pl el e by simp
  have lens: "length (take 4 (drop cursor bytes)) = 4" "length (take 2 (drop (cursor + 4) bytes)) = 2"
    "length (take 2 (drop (cursor + 6) bytes)) = 2" "length (take 8 (drop (cursor + 8) bytes)) = 8"
    using c16 by simp_all
  have "sec_id s < 2 ^ 32" using from_le_less [of "take 4 (drop cursor bytes)"] lens s_id by simp
  moreover have "sec_version s < 2 ^ 16" using from_le_less [of "take 2 (drop (cursor + 4) bytes)"] lens s_v by simp
  ultimately have ok: "section_ok s" using id0 v0 by (simp add: section_ok_def)
  have "take (4 + (2 + (2 + (8 + d)))) (drop cursor bytes) =
      take 4 (drop cursor bytes) @ take 2 (drop (cursor + 4) bytes) @ take 2 (drop (cursor + 6) bytes)
      @ take 8 (drop (cursor + 8) bytes) @ take d (drop (cursor + 16) bytes)"
    by (simp only: take_drop_split add.assoc) simp
  also have "\<dots> = encode_section s"
    unfolding encode_section_def s_id s_v s_f d_len [symmetric] pl [symmetric]
    using lens [THEN le_bytes_from_le] d by simp
  finally show ?thesis using ok l e el d_len by simp
qed

lemma parse_sections_encode:
  assumes "sections_ok l ss" and "length (pre @ encode_sections ss) \<le> u64_max"
    and "grants_all g (length acc + length ss)" and "length acc + length ss \<le> u64_max"
  shows "parse_sections g (pre @ encode_sections ss) (length ss) i (length pre) l acc
       = Inr (acc @ ss, length (pre @ encode_sections ss))"
  using assms
proof (induction ss arbitrary: l pre i acc)
  case (Cons s ss)
  have head: "parse_section (pre @ encode_section s @ encode_sections ss) i (length pre) l
      = Inr (s, length (pre @ encode_section s))"
    using parse_section_encode [of pre s "encode_sections ss" l i] Cons.prems by simp
  have room: "reserve g (length acc) 1 = Inr ()"
    using Cons.prems by (simp add: reserve_def checked_add64_def grants_all_def)
  have tail: "parse_sections g ((pre @ encode_section s) @ encode_sections ss) (length ss) (i + 1)
      (length (pre @ encode_section s)) (Some (sec_id s)) (acc @ [s])
      = Inr ((acc @ [s]) @ ss, length ((pre @ encode_section s) @ encode_sections ss))"
    using Cons.prems by (intro Cons.IH) simp_all
  then show ?case using head room by simp
qed simp

lemma parse_sections_inv:
  assumes "parse_sections g bytes n i cursor l acc = Inr (ss, e)" and "cursor \<le> length bytes"
  shows "\<exists>new. ss = acc @ new \<and> length new = n \<and> sections_ok l new \<and> e = cursor + length (encode_sections new)
    \<and> e \<le> length bytes \<and> take (length (encode_sections new)) (drop cursor bytes) = encode_sections new"
  using assms
proof (induction n arbitrary: i cursor l acc)
  case (Suc n)
  from Suc.prems obtain s e1 where
    one: "parse_section bytes i cursor l = Inr (s, e1)"
    and rest: "parse_sections g bytes n (i + 1) e1 (Some (sec_id s)) (acc @ [s]) = Inr (ss, e)"
    by (auto simp: bindE_eq_Inr)
  note inv = parse_section_inv [OF one]
  then have "e1 \<le> length bytes" by simp
  with Suc.IH [OF rest] obtain new where
    new: "ss = (acc @ [s]) @ new" "length new = n" "sections_ok (Some (sec_id s)) new"
      "e = e1 + length (encode_sections new)" "e \<le> length bytes"
      "take (length (encode_sections new)) (drop e1 bytes) = encode_sections new" by blast
  have "take (length (encode_section s) + length (encode_sections new)) (drop cursor bytes)
      = encode_section s @ encode_sections new"
    using inv new by (simp only: take_drop_split)
  then show ?case using inv new by (intro exI [of _ "s # new"]) simp
qed simp

lemma length_MAGIC [simp]: "length MAGIC = 8"
  by (simp add: MAGIC_def)

lemma length_header_bytes [simp]: "length (header_bytes minor n) = 20"
  by (simp add: header_bytes_def)

lemma read_header:
  assumes "length (header_bytes minor n @ rest) \<le> u64_max" and "minor < 65536" and "n < 4294967296"
  shows "take 8 (header_bytes minor n @ rest) = MAGIC"
    and "read_u16 (header_bytes minor n @ rest) 8 = Inr 1"
    and "read_u16 (header_bytes minor n @ rest) 10 = Inr minor"
    and "read_u32 (header_bytes minor n @ rest) 12 = Inr 0"
    and "read_u32 (header_bytes minor n @ rest) 16 = Inr n"
proof -
  show "take 8 (header_bytes minor n @ rest) = MAGIC" by (simp add: header_bytes_def)
  show "read_u16 (header_bytes minor n @ rest) 8 = Inr 1"
    unfolding read_u16_def
    by (rule read_le_offset [OF assms(1), where pre = MAGIC]) (simp_all add: header_bytes_def)
  show "read_u16 (header_bytes minor n @ rest) 10 = Inr minor"
    unfolding read_u16_def
    by (rule read_le_offset [OF assms(1), where pre = "MAGIC @ le_bytes 2 1"])
      (use assms in \<open>simp_all add: header_bytes_def\<close>)
  show "read_u32 (header_bytes minor n @ rest) 12 = Inr 0"
    unfolding read_u32_def
    by (rule read_le_offset [OF assms(1), where pre = "MAGIC @ le_bytes 2 1 @ le_bytes 2 minor"])
      (simp_all add: header_bytes_def)
  show "read_u32 (header_bytes minor n @ rest) 16 = Inr n"
    unfolding read_u32_def
    by (rule read_le_offset [OF assms(1), where pre = "MAGIC @ le_bytes 2 1 @ le_bytes 2 minor @ le_bytes 4 0"])
      (use assms in \<open>simp_all add: header_bytes_def\<close>)
qed

lemma canonical_parse_encode:
  assumes "sections_ok None ss" and "minor < 65536" and "length ss < 4294967296"
    and "length (encode_container minor ss) \<le> u64_max" and "grants_all g (length ss)"
  shows "canonical_parse g (encode_container minor ss) = Inr (minor, ss)"
proof -
  have n: "length ss \<le> u64_max" using assms(3) by (simp add: u64_max_def)
  have "parse_sections g (header_bytes minor (length ss) @ encode_sections ss) (length ss) 0
      (length (header_bytes minor (length ss))) None []
      = Inr ([] @ ss, length (header_bytes minor (length ss) @ encode_sections ss))"
    using assms n by (intro parse_sections_encode) (simp_all add: encode_container_def)
  then show ?thesis
    using assms read_header [of minor "length ss" "encode_sections ss"]
    by (simp add: canonical_parse_def encode_container_def HEADER_LEN_def HEADER_FLAGS_OFFSET_def
        SECTION_COUNT_OFFSET_def)
qed

lemma canonical_parse_inv:
  assumes "canonical_parse g bytes = Inr (minor, ss)"
  shows "bytes = encode_container minor ss \<and> sections_ok None ss \<and> minor < 65536 \<and> length ss < 4294967296"
proof -
  from assms obtain n where
    len: "20 \<le> length bytes" and magic: "take 8 bytes = MAGIC"
    and major: "from_le (take 2 (drop 8 bytes)) = 1"
    and minor: "minor = from_le (take 2 (drop 10 bytes))"
    and flags: "from_le (take 4 (drop 12 bytes)) = 0"
    and n: "n = from_le (take 4 (drop 16 bytes))"
    and sections: "parse_sections g bytes n 0 20 None [] = Inr (ss, length bytes)"
    by (auto simp: canonical_parse_def bindE_eq_Inr read_u16_def read_u32_def read_le_eq_Inr
        HEADER_LEN_def HEADER_FLAGS_OFFSET_def SECTION_COUNT_OFFSET_def split: if_splits)
  from parse_sections_inv [OF sections] len
  have new: "length ss = n" "sections_ok None ss" "length bytes = 20 + length (encode_sections ss)"
    "take (length (encode_sections ss)) (drop 20 bytes) = encode_sections ss" by auto
  then have body: "drop 20 bytes = encode_sections ss" by simp
  have lens: "length (take 2 (drop 8 bytes)) = 2" "length (take 2 (drop 10 bytes)) = 2"
    "length (take 4 (drop 12 bytes)) = 4" "length (take 4 (drop 16 bytes)) = 4"
    using len by simp_all
  have "take (8 + (2 + (2 + (4 + 4)))) (drop 0 bytes) = take 8 (drop 0 bytes) @ take 2 (drop 8 bytes)
      @ take 2 (drop 10 bytes) @ take 4 (drop 12 bytes) @ take 4 (drop 16 bytes)"
    by (simp only: take_drop_split add.assoc) simp
  also have "\<dots> = header_bytes minor n"
    unfolding header_bytes_def minor n using lens [THEN le_bytes_from_le] magic major flags by simp
  finally have "take 20 bytes = header_bytes minor n" by simp
  then have "bytes = header_bytes minor n @ encode_sections ss"
    using body append_take_drop_id [of 20 bytes] by simp
  moreover have "minor < 65536" using from_le_less [of "take 2 (drop 10 bytes)"] lens minor by simp
  moreover have "n < 4294967296" using from_le_less [of "take 4 (drop 16 bytes)"] lens n by simp
  ultimately show ?thesis using new by (simp add: encode_container_def)
qed

lemma reserve_Inr: "reserve g len add = Inr u \<Longrightarrow> len + add \<le> u64_max"
  by (auto simp: reserve_def checked_add64_def split: if_splits)

lemma and_then_Inr: "and_then r k = (Inr u, b) \<longleftrightarrow> (\<exists>b1. r = (Inr (), b1) \<and> k b1 = (Inr u, b))"
  by (cases "(r, k)" rule: and_then.cases) auto

lemma append_field_Inr:
  "append_field g f bytes = (Inr u, b) \<Longrightarrow> b = bytes @ field_bytes f \<and> length b \<le> u64_max"
  by (cases f) (auto simp: append_field_def append_bytes_def and_then_Inr checked_add_len_def checked_add64_def
      split: if_splits sum.splits dest!: reserve_Inr)

lemma write_fields_Inr:
  assumes "write_fields g fs bytes = (Inr u, b)" and "length bytes \<le> u64_max"
  shows "b = bytes @ fields_bytes fs \<and> length b \<le> u64_max"
  using assms
proof (induction fs arbitrary: bytes)
  case (Cons f fs)
  then obtain b1 where one: "append_field g f bytes = (Inr (), b1)" and rest: "write_fields g fs b1 = (Inr u, b)"
    by (auto simp: and_then_Inr)
  from append_field_Inr [OF one] Cons.IH [OF rest] show ?case by (auto simp: fields_bytes_def)
qed (simp add: fields_bytes_def)

text \<open>A callback reaches the vector only through the field writer, which appends.\<close>

definition append_only :: "(u8 list \<Rightarrow> written) \<Rightarrow> bool" where
  "append_only callback \<longleftrightarrow> (\<forall>bytes. \<exists>ext. snd (callback bytes) = bytes @ ext)"

lemma append_only_and_then:
  assumes "append_only f" and "append_only k"
  shows "append_only (\<lambda>bytes. and_then (f bytes) k)"
  unfolding append_only_def
proof
  fix bytes
  obtain r b where f: "f bytes = (r, b)" by fastforce
  then obtain ext where "b = bytes @ ext" using assms(1) unfolding append_only_def by (metis snd_conv)
  then show "\<exists>ext. snd (and_then (f bytes) k) = bytes @ ext"
    using assms(2) f unfolding append_only_def by (cases r) (auto, metis append.assoc)
qed

lemma append_field_only: "append_only (append_field g f)"
  unfolding append_only_def append_field_def append_bytes_def
  by (cases f) (auto split: sum.splits simp: reserve_def split: option.splits)

lemma write_fields_only: "append_only (write_fields g fs)"
proof (induction fs)
  case (Cons f fs)
  have "write_fields g (f # fs) = (\<lambda>bytes. and_then (append_field g f bytes) (write_fields g fs))" by (simp add: fun_eq_iff)
  then show ?case using append_only_and_then [OF append_field_only Cons] by simp
qed (simp add: append_only_def)

text \<open>Whatever the closure leaves behind starts with the bytes it was given, when it fails.\<close>

lemma section_body_keeps:
  assumes "append_only callback" and "section_body g sid v req callback bytes = (Inl e, b)"
  shows "take (length bytes) b = bytes"
proof (cases "reserve g (length bytes) SECTION_HEADER_LEN")
  case (Inl e')
  then show ?thesis using assms(2) by (simp add: section_body_def)
next
  case (Inr u)
  let ?opened = "bytes @ le_bytes 4 sid @ le_bytes 2 v @ le_bytes 2 (requirement_flags req) @ le_bytes 8 0"
  obtain r b1 where cb: "callback ?opened = (r, b1)" by fastforce
  then obtain ext where ext: "b1 = ?opened @ ext" using assms(1) unfolding append_only_def by (metis snd_conv)
  have "b = b1"
    using assms(2) Inr cb by (cases r) (auto simp: section_body_def Let_def split: option.splits if_splits sum.splits)
  then show ?thesis by (simp add: ext)
qed

definition last_id :: "canonical_section list \<Rightarrow> nat option" where
  "last_id ss = (if ss = [] then None else Some (sec_id (last ss)))"

lemma sections_ok_snoc_gen:
  "sections_ok l (ss @ [s]) \<longleftrightarrow>
     sections_ok l ss \<and> section_ok s \<and> after_last (if ss = [] then l else Some (sec_id (last ss))) (sec_id s)"
  by (induction ss arbitrary: l) auto

lemma sections_ok_snoc:
  "sections_ok None (ss @ [s]) \<longleftrightarrow> sections_ok None ss \<and> section_ok s \<and> after_last (last_id ss) (sec_id s)"
  by (simp add: sections_ok_snoc_gen last_id_def)

lemma encode_sections_snoc [simp]: "encode_sections (ss @ [s]) = encode_sections ss @ encode_section s"
  by (simp add: encode_sections_def)

text \<open>What a writer holds after the sections \<open>ss\<close>.\<close>

definition writer_holds :: "canonical_writer \<Rightarrow> canonical_section list \<Rightarrow> bool" where
  "writer_holds w ss \<longleftrightarrow>
     w_bytes w = header_bytes 0 0 @ encode_sections ss \<and> w_count w = length ss \<and> w_last w = last_id ss
     \<and> sections_ok None ss \<and> length (w_bytes w) \<le> u64_max \<and> length ss < 4294967296"

lemma writer_new_holds: "writer_new g = Inr w \<Longrightarrow> writer_holds w []"
  by (auto simp: writer_new_def bindE_eq_Inr writer_holds_def last_id_def u64_max_def)

lemma overwrite_mid: "length old = length new \<Longrightarrow> overwrite (a @ old @ c) (length a) new = a @ new @ c"
  by (simp add: overwrite_def)

lemma writer_section_holds:
  assumes w: "writer_holds w ss"
    and run: "writer_section g w sid v req (write_fields g fs) = (Inr (), w')"
    and id: "0 < sid" "sid < 2 ^ 32" and ver: "0 < v" "v < 2 ^ 16"
  shows "writer_holds w' (ss @ [\<lparr>sec_id = sid, sec_version = v, sec_requirement = req,
                                sec_payload = fields_bytes fs\<rparr>])"
proof -
  let ?s = "\<lparr>sec_id = sid, sec_version = v, sec_requirement = req, sec_payload = fields_bytes fs\<rparr>"
  let ?head = "w_bytes w @ le_bytes 4 sid @ le_bytes 2 v @ le_bytes 2 (requirement_flags req)"
  let ?n = "length (fields_bytes fs)"
  from run obtain b where
    room: "length (w_bytes w) + 16 \<le> u64_max"
    and fields: "write_fields g fs (?head @ le_bytes 8 0) = (Inr (), b)"
    and w': "w' = \<lparr>w_bytes = overwrite b (length ?head) (le_bytes 8 (length b - length (?head @ le_bytes 8 0))),
                 w_count = w_count w + 1, w_last = Some sid\<rparr>"
    and order: "after_last (w_last w) sid" and count: "w_count w + 1 \<le> 0xFFFFFFFF"
    by (auto simp: writer_section_def section_body_def and_then_Inr Let_def checked_sub64_def SECTION_HEADER_LEN_def
        after_last_def not_le split: if_splits sum.splits option.splits prod.splits dest!: reserve_Inr)
  have "length (?head @ le_bytes 8 0) \<le> u64_max" using room by simp
  note b = write_fields_Inr [OF fields this]
  then have "overwrite b (length ?head) (le_bytes 8 ?n) = ?head @ le_bytes 8 ?n @ fields_bytes fs"
    using overwrite_mid [of "le_bytes 8 0" "le_bytes 8 ?n" ?head "fields_bytes fs"] by simp
  then have bytes: "w_bytes w' = w_bytes w @ encode_section ?s"
    using b by (simp add: w' encode_section_def)
  moreover have "length (w_bytes w @ encode_section ?s) = length b" using b by (simp add: encode_section_def)
  ultimately show ?thesis
    using w b order count id ver
    by (auto simp: writer_holds_def w' sections_ok_snoc section_ok_def last_id_def)
qed

text \<open>Writing a whole container: the sections in turn, stopping at the first error.\<close>

fun write_sections ::
  "grants \<Rightarrow> canonical_writer \<Rightarrow> (nat \<times> nat \<times> requirement \<times> field list) list
   \<Rightarrow> canonical_error + canonical_writer" where
  "write_sections g w [] = Inr w"
| "write_sections g w ((sid, v, req, fs) # rest) =
    (case writer_section g w sid v req (write_fields g fs) of
       (Inl e, _) \<Rightarrow> Inl e
     | (Inr _, w') \<Rightarrow> write_sections g w' rest)"

definition section_of :: "nat \<times> nat \<times> requirement \<times> field list \<Rightarrow> canonical_section" where
  "section_of d = (case d of (sid, v, req, fs) \<Rightarrow>
     \<lparr>sec_id = sid, sec_version = v, sec_requirement = req, sec_payload = fields_bytes fs\<rparr>)"

definition numbered :: "nat \<times> nat \<times> requirement \<times> field list \<Rightarrow> bool" where
  "numbered d = (case d of (sid, v, req, fs) \<Rightarrow> 0 < sid \<and> sid < 2 ^ 32 \<and> 0 < v \<and> v < 2 ^ 16)"

lemma write_sections_holds:
  assumes "write_sections g w ds = Inr w'" and "writer_holds w ss" and "list_all numbered ds"
  shows "writer_holds w' (ss @ map section_of ds)"
  using assms
proof (induction g w ds arbitrary: ss rule: write_sections.induct)
  case (2 g w sid v req fs rest)
  from "2.prems"(1) obtain w1 where
    one: "writer_section g w sid v req (write_fields g fs) = (Inr (), w1)"
    and rest: "write_sections g w1 rest = Inr w'"
    by (auto split: prod.splits sum.splits)
  have "writer_holds w1 (ss @ [section_of (sid, v, req, fs)])"
    using writer_section_holds [OF "2.prems"(2) one] "2.prems"(3) by (simp add: section_of_def numbered_def)
  then have "writer_holds w' ((ss @ [section_of (sid, v, req, fs)]) @ map section_of rest)"
    using "2.IH" [OF one [symmetric] refl rest, of "ss @ [section_of (sid, v, req, fs)]"] "2.prems"(3) by simp
  then show ?case by simp
qed simp

lemma finish_encode:
  assumes "writer_holds w ss" and "grants_all g (length ss)"
  shows "writer_finish g w = Inr (encode_container 0 ss)"
proof -
  have "header_bytes 0 n = (MAGIC @ le_bytes 2 1 @ le_bytes 2 0 @ le_bytes 4 0) @ le_bytes 4 n" for n
    by (simp add: header_bytes_def)
  then have "overwrite (w_bytes w) SECTION_COUNT_OFFSET (le_bytes 4 (w_count w)) = encode_container 0 ss"
    using assms(1) overwrite_mid [of "le_bytes 4 0" "le_bytes 4 (length ss)"
        "MAGIC @ le_bytes 2 1 @ le_bytes 2 0 @ le_bytes 4 0" "encode_sections ss"]
    by (simp add: writer_holds_def encode_container_def SECTION_COUNT_OFFSET_def)
  moreover have "canonical_parse g (encode_container 0 ss) = Inr (0, ss)"
    using assms by (intro canonical_parse_encode) (auto simp: writer_holds_def encode_container_def)
  ultimately show ?thesis by (simp add: writer_finish_def Let_def)
qed

section \<open>Properties\<close>

text \<open>C5: Writing then parsing is the identity. When the writer accepted the sections \<open>ds\<close> (their
  identifiers and versions are the non-zero numbers their types allow), \<open>finish\<close> succeeds and the
  parser reads from its bytes exactly these sections, in order, with their payload bytes.\<close>

theorem canonical_write_parse:
  assumes "writer_new g = Inr w0" and "write_sections g w0 ds = Inr w" and "list_all numbered ds"
    and "grants_all g (length ds)"
  shows "\<exists>bytes. writer_finish g w = Inr bytes \<and> canonical_parse g bytes = Inr (0, map section_of ds)"
proof -
  have w: "writer_holds w (map section_of ds)"
    using write_sections_holds [OF assms(2) writer_new_holds [OF assms(1)] assms(3)] by simp
  then have "canonical_parse g (encode_container 0 (map section_of ds)) = Inr (0, map section_of ds)"
    using assms(4) by (intro canonical_parse_encode) (auto simp: writer_holds_def encode_container_def)
  then show ?thesis using finish_encode [OF w] assms(4) by simp
qed

theorem canonical_write_parse_witness:
  "\<exists>w0 w bytes. writer_new (\<lambda>_ _. True) = Inr w0
     \<and> write_sections (\<lambda>_ _. True) w0 [(1, 1, Required, [FU8 7, FBool True]), (9, 2, Optional, [])] = Inr w
     \<and> writer_finish (\<lambda>_ _. True) w = Inr bytes
     \<and> canonical_parse (\<lambda>_ _. True) bytes
         = Inr (0, [\<lparr>sec_id = 1, sec_version = 1, sec_requirement = Required, sec_payload = [7, 1]\<rparr>,
                    \<lparr>sec_id = 9, sec_version = 2, sec_requirement = Optional, sec_payload = []\<rparr>])"
proof -
  let ?g = "\<lambda>_ _. True"
  let ?ds = "[(1, 1, Required, [FU8 7, FBool True]), (9, 2, Optional, [])]"
  obtain w0 where w0: "writer_new ?g = Inr w0" "w0 = \<lparr>w_bytes = header_bytes 0 0, w_count = 0, w_last = None\<rparr>"
    by (simp add: writer_new_def reserve_def checked_add64_def HEADER_LEN_def u64_max_def)
  obtain w where w: "write_sections ?g w0 ?ds = Inr w"
    by (simp add: w0(2) writer_section_def section_body_def reserve_def checked_add64_def checked_add_len_def checked_sub64_def
        SECTION_HEADER_LEN_def u64_max_def append_field_def append_bytes_def Let_def overwrite_def)
  have "\<exists>bytes. writer_finish ?g w = Inr bytes \<and> canonical_parse ?g bytes = Inr (0, map section_of ?ds)"
    by (rule canonical_write_parse [OF w0(1) w]) (simp_all add: numbered_def grants_all_def)
  then show ?thesis using w0 w by (auto simp: section_of_def fields_bytes_def of_bool8_def)
qed

text \<open>C6: The parser accepts a byte string exactly when it is the encoding of a list of sections with
  strictly increasing non-zero identifiers, and then returns that list: there is one byte string per
  container, nothing else is accepted, and no byte is left uninterpreted.\<close>

theorem canonical_parse_exact:
  assumes "length bytes \<le> u64_max" and "\<And>n. n < 4294967296 \<Longrightarrow> grants_all g n"
  shows "canonical_parse g bytes = Inr (minor, ss) \<longleftrightarrow>
     bytes = encode_container minor ss \<and> sections_ok None ss \<and> minor < 65536 \<and> length ss < 4294967296"
  using canonical_parse_inv [of g bytes minor ss] canonical_parse_encode [of ss minor g] assms by auto

theorem canonical_parse_exact_witness:
  "canonical_parse (\<lambda>_ _. True) (encode_container 3 [\<lparr>sec_id = 5, sec_version = 1,
      sec_requirement = Optional, sec_payload = [1, 2]\<rparr>])
   = Inr (3, [\<lparr>sec_id = 5, sec_version = 1, sec_requirement = Optional, sec_payload = [1, 2]\<rparr>])"
proof -
  let ?s = "[\<lparr>sec_id = 5, sec_version = 1, sec_requirement = Optional, sec_payload = [1, 2]\<rparr>]"
  have "length (encode_container 3 ?s) \<le> u64_max" by (simp add: encode_container_def u64_max_def)
  then show ?thesis
    using canonical_parse_exact [of "encode_container 3 ?s" "\<lambda>_ _. True" 3 ?s]
    by (simp add: grants_all_def section_ok_def after_last_def)
qed

text \<open>C24: A section whose callback fails, or that the writer refuses, leaves the writer exactly as it
  was: the bytes, the section count and the ordering state.  The callback is any that writes through
  the field writer, so that it only appends; whatever it had written of the section before the
  error, and the section header, are gone.\<close>

theorem canonical_section_rollback:
  assumes "append_only callback" and "writer_section g w sid v req callback = (Inl e, w')"
  shows "w' = w"
proof -
  obtain res bytes where b: "section_body g sid v req callback (w_bytes w) = (res, bytes)" by fastforce
  have "take (length (w_bytes w)) bytes = w_bytes w" if "res = Inl e" for e
    using section_body_keeps [OF assms(1)] b that by blast
  then show ?thesis
    using assms(2) b by (auto simp: writer_section_def Let_def split: if_splits sum.splits)
qed

text \<open>The allocator grants no more than nineteen bytes: the header and the first field are written, the
  second field fails.\<close>

theorem canonical_section_rollback_witness:
  "(\<exists>b. section_body (\<lambda>len add. len + add \<le> 19) 4 1 Required (write_fields (\<lambda>len add. len + add \<le> 19) [FU8 7, FU16 8]) [1, 2]
       = (Inl AllocationFailed, b) \<and> length b = 19 \<and> last b = 7)
   \<and> writer_section (\<lambda>len add. len + add \<le> 19) \<lparr>w_bytes = [1, 2], w_count = 0, w_last = None\<rparr> 4 1 Required
       (write_fields (\<lambda>len add. len + add \<le> 19) [FU8 7, FU16 8])
     = (Inl AllocationFailed, \<lparr>w_bytes = [1, 2], w_count = 0, w_last = None\<rparr>)"
proof -
  let ?g = "\<lambda>len add. len + add \<le> (19 :: nat)" and ?w = "\<lparr>w_bytes = [1, 2], w_count = 0, w_last = None\<rparr>"
  let ?cb = "write_fields ?g [FU8 7, FU16 8]"
  obtain b where b: "section_body ?g 4 1 Required ?cb [1, 2] = (Inl AllocationFailed, b)" "length b = 19" "last b = 7"
    by (simp add: section_body_def reserve_def checked_add64_def SECTION_HEADER_LEN_def u64_max_def Let_def
        append_field_def append_bytes_def)
  then obtain w' where r: "writer_section ?g ?w 4 1 Required ?cb = (Inl AllocationFailed, w')"
    by (simp add: writer_section_def)
  from canonical_section_rollback [OF write_fields_only r] r b show ?thesis by auto
qed

end
