(* ===== verification/Timeline.thy ===== *)
theory Timeline
  imports Clock Canonical
begin

text \<open>
  The machine timeline (\<open>crates/izarravm-machine/src/timeline.rs\<close>): the fractional phase of a device
  clock against the master clock, and the timeline that keeps one phase per device clock, the
  time-stamp counter and the stall total. Ticks are \<open>u64\<close> as naturals; each narrow arm of the source
  and its wide fallback are both written out. The lemmas show that the arms agree, that splitting
  an advance into batches does not matter, and that deadlines are exact.
\<close>

section \<open>A fractional device clock\<close>

record rate_phase =
  remainder :: nat

definition phase_default :: rate_phase where
  "phase_default = \<lparr>remainder = 0\<rparr>"

text \<open>\<open>None\<close>: the assertion fails.\<close>

definition with_remainder :: "nat \<Rightarrow> rate_phase option" where
  "with_remainder r = (if r < MASTER_CLOCK_HZ then Some \<lparr>remainder = r\<rparr> else None)"

definition phase_advance :: "rate_phase \<Rightarrow> nat \<Rightarrow> nat \<Rightarrow> nat \<times> rate_phase" where
  "phase_advance p master_ticks rate_hz =
    (let narrow = (case checked_mul64 master_ticks rate_hz of
                     None \<Rightarrow> None
                   | Some scaled \<Rightarrow> checked_add64 scaled (remainder p))
     in case narrow of
          Some ticks \<Rightarrow> (ticks div MASTER_CLOCK_HZ, \<lparr>remainder = ticks mod MASTER_CLOCK_HZ\<rparr>)
        | None \<Rightarrow>
            let ticks = remainder p + master_ticks * rate_hz
            in (sat64 (ticks div MASTER_CLOCK_HZ), \<lparr>remainder = ticks mod MASTER_CLOCK_HZ\<rparr>))"

definition phase_ticks_until :: "rate_phase \<Rightarrow> nat \<Rightarrow> nat \<Rightarrow> nat option" where
  "phase_ticks_until p events rate_hz =
    (if events = 0 then Some 0
     else if rate_hz = 0 then None
     else case checked_mul64 events MASTER_CLOCK_HZ of
            Some scaled \<Rightarrow> Some (div_ceil (scaled - remainder p) rate_hz)
          | None \<Rightarrow> Some (sat64 (div_ceil (events * MASTER_CLOCK_HZ - remainder p) rate_hz)))"

section \<open>The timeline\<close>

definition BUS_CLOCK_MASTER_TICKS :: nat where "BUS_CLOCK_MASTER_TICKS = 33"
definition MICROSECOND_HZ :: nat where "MICROSECOND_HZ = 1000000"
definition NANOSECOND_HZ :: nat where "NANOSECOND_HZ = 1000000000"
definition MARGO_FRAME_HZ :: nat where "MARGO_FRAME_HZ = 60"
definition DISTIRA_LINE_HZ :: nat where "DISTIRA_LINE_HZ = 525 * 60"
definition PIT_INPUT_HZ :: nat where "PIT_INPUT_HZ = 1193182"

record device_rates =
  dsp_hz :: nat
  wss_hz :: nat
  cd_playing :: bool
  vga_dot_hz :: nat

record device_advance =
  da_master_ticks :: nat
  da_pit_remainder_before :: nat
  da_microseconds :: nat
  da_pit_clocks :: nat
  da_dsp_frames :: nat
  da_wss_frames :: nat
  da_cd_frames :: nat
  da_rtc_seconds :: nat
  da_margo_nanoseconds :: nat
  da_margo_frames :: nat
  da_distira_lines :: nat
  da_vga_dots :: nat

record margo_scanout =
  ms_dots :: nat
  ms_beam :: nat

datatype device_clock = Pit | Dsp | Wss | MargoFrame | MargoNs | Rtc | Vga

record timeline =
  now_ticks :: nat
  io_stall_ticks :: nat
  ticks_per_cpu_clock :: nat
  tsc_clocks :: nat
  tsc_phase_ticks :: nat
  tl_microseconds :: rate_phase
  tl_pit :: rate_phase
  tl_dsp :: rate_phase
  tl_wss :: rate_phase
  tl_cd :: rate_phase
  tl_rtc :: rate_phase
  tl_margo :: rate_phase
  tl_margo_frame :: rate_phase
  tl_distira :: rate_phase
  tl_vga :: rate_phase

datatype canonical_timeline_error =
    CpuQuantum nat nat
  | PhaseRemainder string nat nat
  | Totals nat nat

text \<open>The \<open>expect\<close> of the source fails on \<open>None\<close>; the table of modes never gives it.\<close>

definition exact_cpu_quantum :: "gsw_mode \<Rightarrow> nat" where
  "exact_cpu_quantum m = (case master_ticks_per_clock (clock (spec m)) of Some q \<Rightarrow> q | None \<Rightarrow> 0)"

definition bus_timing :: "gsw_mode \<Rightarrow> nat \<times> nat" where
  "bus_timing m = (BUS_CLOCK_MASTER_TICKS, exact_cpu_quantum m)"

definition timeline_new :: "gsw_mode \<Rightarrow> timeline" where
  "timeline_new m =
    \<lparr>now_ticks = 0, io_stall_ticks = 0, ticks_per_cpu_clock = exact_cpu_quantum m, tsc_clocks = 0,
     tsc_phase_ticks = 0, tl_microseconds = phase_default, tl_pit = phase_default, tl_dsp = phase_default,
     tl_wss = phase_default, tl_cd = phase_default, tl_rtc = phase_default, tl_margo = phase_default,
     tl_margo_frame = phase_default, tl_distira = phase_default, tl_vga = phase_default\<rparr>"

definition phase_list :: "timeline \<Rightarrow> (string \<times> nat) list" where
  "phase_list t =
    [(''microseconds'', remainder (tl_microseconds t)), (''pit'', remainder (tl_pit t)),
     (''dsp'', remainder (tl_dsp t)), (''wss'', remainder (tl_wss t)), (''cd'', remainder (tl_cd t)),
     (''rtc'', remainder (tl_rtc t)), (''margo'', remainder (tl_margo t)),
     (''margo_frame'', remainder (tl_margo_frame t)), (''distira'', remainder (tl_distira t)),
     (''vga'', remainder (tl_vga t))]"

fun check_phases :: "(string \<times> nat) list \<Rightarrow> canonical_timeline_error + unit" where
  "check_phases [] = Inr ()"
| "check_phases ((name, r) # rest) =
    (if r \<ge> MASTER_CLOCK_HZ then Inl (PhaseRemainder name r MASTER_CLOCK_HZ) else check_phases rest)"

definition timeline_projection :: "timeline \<Rightarrow> gsw_mode \<Rightarrow> canonical_timeline_error + nat list" where
  "timeline_projection t m =
    (let expected = exact_cpu_quantum m in
     if ticks_per_cpu_clock t \<noteq> expected then Inl (CpuQuantum expected (ticks_per_cpu_clock t))
     else if tsc_phase_ticks t \<ge> ticks_per_cpu_clock t
       then Inl (PhaseRemainder ''tsc'' (tsc_phase_ticks t) (ticks_per_cpu_clock t))
     else bindE (check_phases (phase_list t)) (\<lambda>_.
       if io_stall_ticks t > now_ticks t then Inl (Totals (now_ticks t) (io_stall_ticks t))
       else Inr ([now_ticks t, io_stall_ticks t, tsc_phase_ticks t] @ map snd (phase_list t))))"

definition timeline_payload :: "nat list \<Rightarrow> field list" where
  "timeline_payload words = map FU64 words"

definition timeline_set_mode :: "timeline \<Rightarrow> gsw_mode \<Rightarrow> timeline" where
  "timeline_set_mode t m = t\<lparr>ticks_per_cpu_clock := exact_cpu_quantum m, tsc_phase_ticks := 0\<rparr>"

definition master_ticks_for_cpu_clocks :: "timeline \<Rightarrow> nat \<Rightarrow> nat" where
  "master_ticks_for_cpu_clocks t cpu_clocks = saturating_mul64 cpu_clocks (ticks_per_cpu_clock t)"

definition cpu_clocks_for_master_ticks_ceil :: "timeline \<Rightarrow> nat \<Rightarrow> nat" where
  "cpu_clocks_for_master_ticks_ceil t master_ticks = div_ceil master_ticks (ticks_per_cpu_clock t)"

text \<open>The time-stamp counter step of \<open>advance_master_ticks\<close>: clocks gained and the new phase.\<close>

definition tsc_step :: "nat \<Rightarrow> nat \<Rightarrow> nat \<Rightarrow> nat \<times> nat" where
  "tsc_step quantum phase_ticks master_ticks =
    (if phase_ticks < quantum \<and> quantum \<le> MASTER_CLOCK_HZ
     then let clocks = master_ticks div quantum; phase = master_ticks mod quantum + phase_ticks
          in if phase \<ge> quantum then (clocks + 1, phase - quantum) else (clocks, phase)
     else let tsc_ticks = phase_ticks + master_ticks
          in ((tsc_ticks div quantum) mod (u64_max + 1), tsc_ticks mod quantum))"

definition timeline_advance :: "timeline \<Rightarrow> nat \<Rightarrow> device_rates \<Rightarrow> device_advance \<times> timeline" where
  "timeline_advance t requested_ticks rates =
    (let master_ticks = min requested_ticks (u64_max - now_ticks t);
         (clocks, phase) = tsc_step (ticks_per_cpu_clock t) (tsc_phase_ticks t) master_ticks;
         (us, us') = phase_advance (tl_microseconds t) master_ticks MICROSECOND_HZ;
         (pit, pit') = phase_advance (tl_pit t) master_ticks PIT_INPUT_HZ;
         (dsp, dsp') = phase_advance (tl_dsp t) master_ticks (dsp_hz rates);
         (wss, wss') = phase_advance (tl_wss t) master_ticks (wss_hz rates);
         (cd, cd') = phase_advance (tl_cd t) master_ticks (if cd_playing rates then 75 else 0);
         (rtc, rtc') = phase_advance (tl_rtc t) master_ticks 1;
         (ns, ns') = phase_advance (tl_margo t) master_ticks NANOSECOND_HZ;
         (fr, fr') = phase_advance (tl_margo_frame t) master_ticks MARGO_FRAME_HZ;
         (li, li') = phase_advance (tl_distira t) master_ticks DISTIRA_LINE_HZ;
         (vga, vga') = phase_advance (tl_vga t) master_ticks (vga_dot_hz rates)
     in (\<lparr>da_master_ticks = master_ticks, da_pit_remainder_before = remainder (tl_pit t),
          da_microseconds = us, da_pit_clocks = pit, da_dsp_frames = dsp, da_wss_frames = wss,
          da_cd_frames = cd, da_rtc_seconds = rtc, da_margo_nanoseconds = ns, da_margo_frames = fr,
          da_distira_lines = li, da_vga_dots = vga\<rparr>,
         t\<lparr>now_ticks := now_ticks t + master_ticks, tsc_phase_ticks := phase,
           tsc_clocks := wrapping_add64 (tsc_clocks t) clocks,
           tl_microseconds := us', tl_pit := pit', tl_dsp := dsp', tl_wss := wss', tl_cd := cd',
           tl_rtc := rtc', tl_margo := ns', tl_margo_frame := fr', tl_distira := li', tl_vga := vga'\<rparr>))"

definition advance_io_stall_ticks :: "timeline \<Rightarrow> nat \<Rightarrow> device_rates \<Rightarrow> device_advance \<times> timeline" where
  "advance_io_stall_ticks t master_ticks rates =
    (let (advance, t') = timeline_advance t master_ticks rates
     in (advance, t'\<lparr>io_stall_ticks := saturating_add64 (io_stall_ticks t') (da_master_ticks advance)\<rparr>))"

definition preview_master_ticks :: "timeline \<Rightarrow> nat \<Rightarrow> nat \<Rightarrow> nat \<times> nat" where
  "preview_master_ticks t ticks dot_hz =
    (fst (phase_advance (tl_pit t) ticks PIT_INPUT_HZ), fst (phase_advance (tl_vga t) ticks dot_hz))"

definition master_ticks_until_microseconds :: "timeline \<Rightarrow> nat \<Rightarrow> nat option" where
  "master_ticks_until_microseconds t micros = phase_ticks_until (tl_microseconds t) micros MICROSECOND_HZ"

definition preview_microseconds_at_ticks :: "timeline \<Rightarrow> nat \<Rightarrow> nat" where
  "preview_microseconds_at_ticks t ticks = fst (phase_advance (tl_microseconds t) ticks MICROSECOND_HZ)"

definition preview_margo_nanoseconds_at_ticks :: "timeline \<Rightarrow> nat \<Rightarrow> nat" where
  "preview_margo_nanoseconds_at_ticks t ticks = fst (phase_advance (tl_margo t) ticks NANOSECOND_HZ)"

definition preview_margo_scanout_at_ticks :: "timeline \<Rightarrow> nat \<Rightarrow> nat \<Rightarrow> margo_scanout" where
  "preview_margo_scanout_at_ticks t ticks frame_dots =
    (if frame_dots = 0 then \<lparr>ms_dots = 0, ms_beam = 0\<rparr>
     else let (frames, margo_frame) = phase_advance (tl_margo_frame t) ticks MARGO_FRAME_HZ;
              beam = sat64 (remainder margo_frame * frame_dots) div MASTER_CLOCK_HZ
          in \<lparr>ms_dots = saturating_add64 (saturating_mul64 frames frame_dots) beam, ms_beam = beam\<rparr>)"

definition preview_margo_scanout :: "timeline \<Rightarrow> nat \<Rightarrow> nat \<Rightarrow> margo_scanout" where
  "preview_margo_scanout t cpu_clocks frame_dots =
    preview_margo_scanout_at_ticks t (master_ticks_for_cpu_clocks t cpu_clocks) frame_dots"

definition margo_master_ticks_until_dots :: "timeline \<Rightarrow> nat \<Rightarrow> nat \<Rightarrow> nat option" where
  "margo_master_ticks_until_dots t dots frame_dots =
    (if frame_dots = 0 then None
     else case checked_mul64 frame_dots MARGO_FRAME_HZ of
            None \<Rightarrow> None
          | Some dot_hz \<Rightarrow>
              (case with_remainder ((remainder (tl_margo_frame t) * frame_dots) mod MASTER_CLOCK_HZ) of
                 None \<Rightarrow> None
               | Some p \<Rightarrow> phase_ticks_until p dots dot_hz))"

definition margo_cpu_clocks_until_dots :: "timeline \<Rightarrow> nat \<Rightarrow> nat \<Rightarrow> nat option" where
  "margo_cpu_clocks_until_dots t dots frame_dots =
    map_option (\<lambda>ticks. max (cpu_clocks_for_master_ticks_ceil t ticks) 1)
      (margo_master_ticks_until_dots t dots frame_dots)"

fun phase_of :: "timeline \<Rightarrow> device_clock \<Rightarrow> rate_phase" where
  "phase_of t Pit = tl_pit t"
| "phase_of t Dsp = tl_dsp t"
| "phase_of t Wss = tl_wss t"
| "phase_of t MargoFrame = tl_margo_frame t"
| "phase_of t MargoNs = tl_margo t"
| "phase_of t Rtc = tl_rtc t"
| "phase_of t Vga = tl_vga t"

definition master_ticks_until :: "timeline \<Rightarrow> device_clock \<Rightarrow> nat \<Rightarrow> nat \<Rightarrow> nat option" where
  "master_ticks_until t clk events rate_hz = phase_ticks_until (phase_of t clk) events rate_hz"

definition cpu_clocks_until :: "timeline \<Rightarrow> device_clock \<Rightarrow> nat \<Rightarrow> nat \<Rightarrow> nat option" where
  "cpu_clocks_until t clk events rate_hz =
    map_option (\<lambda>ticks. max (cpu_clocks_for_master_ticks_ceil t ticks) 1)
      (master_ticks_until t clk events rate_hz)"

section \<open>Laws of one device clock\<close>

definition phase_ok :: "rate_phase \<Rightarrow> bool" where
  "phase_ok p \<longleftrightarrow> remainder p < MASTER_CLOCK_HZ"

lemma master_pos [simp]: "0 < MASTER_CLOCK_HZ"
  by (simp add: MASTER_CLOCK_HZ_def)

text \<open>The narrow arm and the wide arm compute the same saturated quotient and remainder.\<close>

lemma phase_advance_exact:
  "phase_advance p t hz =
    (sat64 ((remainder p + t * hz) div MASTER_CLOCK_HZ), \<lparr>remainder = (remainder p + t * hz) mod MASTER_CLOCK_HZ\<rparr>)"
proof (cases "t * hz \<le> u64_max \<and> t * hz + remainder p \<le> u64_max")
  case True
  then have "(remainder p + t * hz) div MASTER_CLOCK_HZ \<le> u64_max"
    by (metis add.commute div_le_dividend le_trans)
  with True show ?thesis
    by (simp add: phase_advance_def checked_mul64_def checked_add64_def add.commute)
next
  case False
  then show ?thesis
    by (auto simp: phase_advance_def checked_mul64_def checked_add64_def Let_def)
qed

lemma phase_ok_advance [simp]: "phase_ok (snd (phase_advance p t hz))"
  by (simp add: phase_ok_def phase_advance_exact)

lemma phase_advance_zero: "phase_ok p \<Longrightarrow> snd (phase_advance p 0 hz) = p"
  by (simp add: phase_advance_exact phase_ok_def)

lemma phase_advance_add:
  "snd (phase_advance p (a + b) hz) = snd (phase_advance (snd (phase_advance p a hz)) b hz)"
  by (simp add: phase_advance_exact add_mult_distrib mod_simps add.assoc)

lemma phase_events_exact:
  assumes "phase_ok p" and "hz \<le> MASTER_CLOCK_HZ" and "t \<le> u64_max"
  shows "fst (phase_advance p t hz) = (remainder p + t * hz) div MASTER_CLOCK_HZ"
proof -
  have "remainder p + t * hz < (t + 1) * MASTER_CLOCK_HZ"
    using assms(1) mult_le_mono2 [OF assms(2), of t] unfolding phase_ok_def by (simp only: distrib_right)
  then have "(remainder p + t * hz) div MASTER_CLOCK_HZ < t + 1"
    by (simp add: less_mult_imp_div_less)
  with assms(3) show ?thesis by (simp add: phase_advance_exact)
qed

lemma phase_events_add:
  assumes "phase_ok p" and "hz \<le> MASTER_CLOCK_HZ" and "a + b \<le> u64_max"
  shows "fst (phase_advance p (a + b) hz) =
    fst (phase_advance p a hz) + fst (phase_advance (snd (phase_advance p a hz)) b hz)"
proof -
  let ?x = "remainder p + a * hz"
  have "(?x + b * hz) div MASTER_CLOCK_HZ = ?x div MASTER_CLOCK_HZ + (?x mod MASTER_CLOCK_HZ + b * hz) div MASTER_CLOCK_HZ"
    using div_mult_self3 [of MASTER_CLOCK_HZ "?x div MASTER_CLOCK_HZ" "?x mod MASTER_CLOCK_HZ + b * hz"]
    by (simp add: add.assoc [symmetric])
  moreover have "fst (phase_advance (snd (phase_advance p a hz)) b hz) = (?x mod MASTER_CLOCK_HZ + b * hz) div MASTER_CLOCK_HZ"
    using phase_events_exact [OF phase_ok_advance assms(2), of b p a hz] assms(3)
    by (simp add: phase_advance_exact [of p a])
  ultimately show ?thesis
    using assms phase_events_exact [of p hz a] phase_events_exact [of p hz "a + b"]
    by (simp add: add_mult_distrib add.assoc)
qed

interpretation rate_clock: tick_device phase_ok "\<lambda>n p. snd (phase_advance p n hz)" for hz
  by unfold_locales (simp_all add: phase_advance_zero phase_advance_add)

lemma phase_ticks_until_le_iff:
  assumes p: "phase_ok p" and hz: "0 < hz" and n: "n \<le> u64_max" and t: "t < u64_max"
  shows "\<exists>d. phase_ticks_until p n hz = Some d \<and> (d \<le> t \<longleftrightarrow> n \<le> fst (phase_advance p t hz))"
proof (cases "n = 0")
  case True
  then show ?thesis by (simp add: phase_ticks_until_def)
next
  case False
  let ?need = "n * MASTER_CLOCK_HZ - remainder p"
  have r: "remainder p \<le> n * MASTER_CLOCK_HZ"
  proof -
    have "remainder p \<le> 1 * MASTER_CLOCK_HZ" using p by (simp add: phase_ok_def)
    also have "\<dots> \<le> n * MASTER_CLOCK_HZ" using False by (intro mult_le_mono1) simp
    finally show ?thesis .
  qed
  have events: "n \<le> fst (phase_advance p t hz) \<longleftrightarrow> n * MASTER_CLOCK_HZ \<le> remainder p + t * hz"
    using n by (simp add: phase_advance_exact le_sat64_iff le_div_iff_mult_le_nat)
  have need: "div_ceil ?need hz \<le> t \<longleftrightarrow> n * MASTER_CLOCK_HZ \<le> remainder p + t * hz"
    using hz r by (simp add: div_ceil_le_iff) linarith
  show ?thesis
    using False hz events need t
    by (cases "n * MASTER_CLOCK_HZ \<le> u64_max")
      (simp_all add: phase_ticks_until_def checked_mul64_def sat64_le_iff)
qed

section \<open>Laws of the timeline\<close>

definition rates_ok :: "device_rates \<Rightarrow> bool" where
  "rates_ok r \<longleftrightarrow> dsp_hz r \<le> MASTER_CLOCK_HZ \<and> wss_hz r \<le> MASTER_CLOCK_HZ \<and> vga_dot_hz r \<le> MASTER_CLOCK_HZ"

definition timeline_ok :: "timeline \<Rightarrow> bool" where
  "timeline_ok t \<longleftrightarrow>
     tsc_phase_ticks t < ticks_per_cpu_clock t \<and> ticks_per_cpu_clock t \<le> MASTER_CLOCK_HZ
     \<and> tsc_clocks t \<le> u64_max \<and> io_stall_ticks t \<le> now_ticks t \<and> now_ticks t \<le> u64_max
     \<and> phase_ok (tl_microseconds t) \<and> phase_ok (tl_pit t) \<and> phase_ok (tl_dsp t) \<and> phase_ok (tl_wss t)
     \<and> phase_ok (tl_cd t) \<and> phase_ok (tl_rtc t) \<and> phase_ok (tl_margo t) \<and> phase_ok (tl_margo_frame t)
     \<and> phase_ok (tl_distira t) \<and> phase_ok (tl_vga t)"

lemma tsc_step_exact:
  assumes "p < q" and "q \<le> MASTER_CLOCK_HZ"
  shows "tsc_step q p t = ((p + t) div q, (p + t) mod q)"
proof -
  have t: "p + t = t div q * q + (t mod q + p)" by simp
  have q: "0 < q" using assms by simp
  have div: "(p + t) div q = t div q + (t mod q + p) div q"
    using q by (subst t) (simp only: div_mult_self3)
  have mod: "(p + t) mod q = (t mod q + p) mod q"
    by (subst t) (simp only: mod_mult_self3)
  have x: "t mod q + p < q + q" using assms q by (intro add_strict_mono) simp_all
  show ?thesis
  proof (cases "q \<le> t mod q + p")
    case True
    then have "t mod q + p - q < q" using x by linarith
    with True have "(t mod q + p) div q = 1" "(t mod q + p) mod q = t mod q + p - q"
      using q by (simp_all add: le_div_geq le_mod_geq)
    with True show ?thesis
      using assms unfolding div mod tsc_step_def Let_def by simp
  next
    case False
    then show ?thesis
      using assms unfolding div mod tsc_step_def Let_def by simp
  qed
qed

lemma timeline_advance_state:
  "snd (timeline_advance t n r) =
    (let m = min n (u64_max - now_ticks t) in
     t\<lparr>now_ticks := now_ticks t + m,
       tsc_phase_ticks := snd (tsc_step (ticks_per_cpu_clock t) (tsc_phase_ticks t) m),
       tsc_clocks := wrapping_add64 (tsc_clocks t) (fst (tsc_step (ticks_per_cpu_clock t) (tsc_phase_ticks t) m)),
       tl_microseconds := snd (phase_advance (tl_microseconds t) m MICROSECOND_HZ),
       tl_pit := snd (phase_advance (tl_pit t) m PIT_INPUT_HZ),
       tl_dsp := snd (phase_advance (tl_dsp t) m (dsp_hz r)),
       tl_wss := snd (phase_advance (tl_wss t) m (wss_hz r)),
       tl_cd := snd (phase_advance (tl_cd t) m (if cd_playing r then 75 else 0)),
       tl_rtc := snd (phase_advance (tl_rtc t) m 1),
       tl_margo := snd (phase_advance (tl_margo t) m NANOSECOND_HZ),
       tl_margo_frame := snd (phase_advance (tl_margo_frame t) m MARGO_FRAME_HZ),
       tl_distira := snd (phase_advance (tl_distira t) m DISTIRA_LINE_HZ),
       tl_vga := snd (phase_advance (tl_vga t) m (vga_dot_hz r))\<rparr>)"
  by (simp add: timeline_advance_def Let_def case_prod_beta)

text \<open>The whole device events of an advance, in the order of the fields of \<open>DeviceAdvance\<close>.\<close>

definition advance_events :: "device_advance \<Rightarrow> nat list" where
  "advance_events a =
    [da_microseconds a, da_pit_clocks a, da_dsp_frames a, da_wss_frames a, da_cd_frames a, da_rtc_seconds a,
     da_margo_nanoseconds a, da_margo_frames a, da_distira_lines a, da_vga_dots a]"

lemma timeline_advance_events:
  "advance_events (fst (timeline_advance t n r)) =
    (let m = min n (u64_max - now_ticks t) in
     [fst (phase_advance (tl_microseconds t) m MICROSECOND_HZ), fst (phase_advance (tl_pit t) m PIT_INPUT_HZ),
      fst (phase_advance (tl_dsp t) m (dsp_hz r)), fst (phase_advance (tl_wss t) m (wss_hz r)),
      fst (phase_advance (tl_cd t) m (if cd_playing r then 75 else 0)), fst (phase_advance (tl_rtc t) m 1),
      fst (phase_advance (tl_margo t) m NANOSECOND_HZ), fst (phase_advance (tl_margo_frame t) m MARGO_FRAME_HZ),
      fst (phase_advance (tl_distira t) m DISTIRA_LINE_HZ), fst (phase_advance (tl_vga t) m (vga_dot_hz r))])"
  by (simp add: timeline_advance_def Let_def case_prod_beta advance_events_def)

lemma wrapping_add64_le [simp]: "wrapping_add64 a b \<le> u64_max"
proof -
  have "wrapping_add64 a b < u64_max + 1" unfolding wrapping_add64_def by (rule mod_less_divisor) simp
  then show ?thesis by simp
qed

lemma timeline_ok_advance: "timeline_ok t \<Longrightarrow> timeline_ok (snd (timeline_advance t n r))"
  by (auto simp: timeline_ok_def timeline_advance_state Let_def tsc_step_exact)

lemma timeline_advance_zero: "timeline_ok t \<Longrightarrow> snd (timeline_advance t 0 r) = t"
  by (simp add: timeline_ok_def timeline_advance_state Let_def tsc_step_exact phase_advance_zero
      wrapping_add64_def)

lemma tsc_clocks_add:
  assumes "p < q" and "q \<le> MASTER_CLOCK_HZ"
  shows "snd (tsc_step q p (a + b)) = snd (tsc_step q (snd (tsc_step q p a)) b)"
    and "wrapping_add64 c (fst (tsc_step q p (a + b))) =
      wrapping_add64 (wrapping_add64 c (fst (tsc_step q p a))) (fst (tsc_step q (snd (tsc_step q p a)) b))"
proof -
  have q: "0 < q" using assms by simp
  have split: "(p + (a + b)) div q = (p + a) div q + ((p + a) mod q + b) div q"
    using q div_mult_self3 [of q "(p + a) div q" "(p + a) mod q + b"] by (simp add: add.assoc [symmetric])
  show "snd (tsc_step q p (a + b)) = snd (tsc_step q (snd (tsc_step q p a)) b)"
    using assms q by (simp add: tsc_step_exact mod_simps add.assoc)
  show "wrapping_add64 c (fst (tsc_step q p (a + b))) =
      wrapping_add64 (wrapping_add64 c (fst (tsc_step q p a))) (fst (tsc_step q (snd (tsc_step q p a)) b))"
    using assms q by (simp add: tsc_step_exact split wrapping_add64_def mod_simps add.assoc)
qed

lemma timeline_batch_ticks:
  "min (a + b) (u64_max - now_ticks t) =
    min a (u64_max - now_ticks t) + min b (u64_max - now_ticks (snd (timeline_advance t a r)))"
  by (simp add: timeline_advance_state Let_def)

lemma timeline_advance_add:
  assumes "timeline_ok t"
  shows "snd (timeline_advance t (a + b) r) = snd (timeline_advance (snd (timeline_advance t a r)) b r)"
proof -
  let ?a = "min a (u64_max - now_ticks t)"
  let ?b = "min b (u64_max - (now_ticks t + ?a))"
  have tsc: "tsc_phase_ticks t < ticks_per_cpu_clock t" "ticks_per_cpu_clock t \<le> MASTER_CLOCK_HZ"
    using assms by (simp_all add: timeline_ok_def)
  have ab: "min (a + b) (u64_max - now_ticks t) = ?a + ?b" by simp
  show ?thesis
    by (simp add: timeline_advance_state Let_def ab phase_advance_add tsc_clocks_add [OF tsc] add.assoc
        del: min_add_distrib_left min_add_distrib_right)
qed

interpretation timeline_clock: tick_device timeline_ok "\<lambda>n t. snd (timeline_advance t n r)" for r
  by unfold_locales (simp_all add: timeline_ok_advance timeline_advance_zero timeline_advance_add)

lemma phase_events_split:
  assumes "phase_ok p" and "hz \<le> MASTER_CLOCK_HZ" and "a + b \<le> u64_max"
  shows "fst (phase_advance p a hz) + fst (phase_advance (snd (phase_advance p a hz)) b hz) =
    fst (phase_advance p (a + b) hz)"
  by (simp add: phase_events_add assms)

lemma fixed_rates_below_master:
  "MICROSECOND_HZ \<le> MASTER_CLOCK_HZ" "PIT_INPUT_HZ \<le> MASTER_CLOCK_HZ" "Suc 0 \<le> MASTER_CLOCK_HZ"
  "NANOSECOND_HZ \<le> MASTER_CLOCK_HZ" "MARGO_FRAME_HZ \<le> MASTER_CLOCK_HZ" "DISTIRA_LINE_HZ \<le> MASTER_CLOCK_HZ"
  "(if b then 75 else 0) \<le> MASTER_CLOCK_HZ"
  by (simp_all add: MICROSECOND_HZ_def PIT_INPUT_HZ_def NANOSECOND_HZ_def MARGO_FRAME_HZ_def
      DISTIRA_LINE_HZ_def MASTER_CLOCK_HZ_def)

lemma timeline_events_add:
  assumes t: "timeline_ok t" and r: "rates_ok r"
  shows "map2 (+) (advance_events (fst (timeline_advance t a r)))
           (advance_events (fst (timeline_advance (snd (timeline_advance t a r)) b r))) =
         advance_events (fst (timeline_advance t (a + b) r))"
proof -
  let ?a = "min a (u64_max - now_ticks t)"
  let ?b = "min b (u64_max - (now_ticks t + ?a))"
  have ab: "min (a + b) (u64_max - now_ticks t) = ?a + ?b" by simp
  have le: "?a + ?b \<le> u64_max" by simp
  show ?thesis
    using t r
    by (simp add: timeline_advance_events timeline_advance_state Let_def ab timeline_ok_def rates_ok_def
        phase_events_split [OF _ _ le] fixed_rates_below_master
        del: min_add_distrib_left min_add_distrib_right if_split)
qed

text \<open>Advances in a row: the device events of all of them, and the last state.\<close>

fun advance_batches :: "timeline \<Rightarrow> device_rates \<Rightarrow> nat list \<Rightarrow> nat list \<times> timeline" where
  "advance_batches t r [] = (replicate 10 0, t)"
| "advance_batches t r (n # ns) =
    (let (a, t') = timeline_advance t n r; (es, t'') = advance_batches t' r ns
     in (map2 (+) (advance_events a) es, t''))"

lemma advance_events_zero: "timeline_ok t \<Longrightarrow> advance_events (fst (timeline_advance t 0 r)) = replicate 10 0"
  by (simp add: timeline_advance_events phase_advance_exact timeline_ok_def phase_ok_def numeral_eq_Suc)

text \<open>The states a machine reaches: power-on in a mode, mode switches, advances and I/O stalls.\<close>

inductive timeline_reachable :: "gsw_mode \<Rightarrow> timeline \<Rightarrow> bool" where
  reach_new: "timeline_reachable m (timeline_new m)"
| reach_set_mode: "timeline_reachable m t \<Longrightarrow> timeline_reachable m' (timeline_set_mode t m')"
| reach_advance: "timeline_reachable m t \<Longrightarrow> timeline_reachable m (snd (timeline_advance t n r))"
| reach_stall: "timeline_reachable m t \<Longrightarrow> timeline_reachable m (snd (advance_io_stall_ticks t n r))"

lemma exact_cpu_quantum_bounds [simp]: "0 < exact_cpu_quantum m" "exact_cpu_quantum m \<le> MASTER_CLOCK_HZ"
  unfolding exact_cpu_quantum_def gsw_quantum
  by (cases m; simp add: MASTER_CLOCK_HZ_def)+

lemma advance_quantum [simp]:
  "ticks_per_cpu_clock (snd (timeline_advance t n r)) = ticks_per_cpu_clock t"
  "ticks_per_cpu_clock (snd (advance_io_stall_ticks t n r)) = ticks_per_cpu_clock t"
  by (simp_all add: advance_io_stall_ticks_def case_prod_beta timeline_advance_state Let_def)

lemma stall_ok:
  assumes "timeline_ok t"
  shows "timeline_ok (snd (advance_io_stall_ticks t n r))"
proof -
  have "io_stall_ticks t + min n (u64_max - now_ticks t) \<le> now_ticks t + min n (u64_max - now_ticks t)"
    using assms by (simp add: timeline_ok_def)
  then show ?thesis
    using timeline_ok_advance [OF assms, of n r]
    by (simp add: advance_io_stall_ticks_def timeline_ok_def case_prod_beta timeline_advance_def Let_def
        saturating_add64_def sat64_def)
qed

lemma reachable_ok: "timeline_reachable m t \<Longrightarrow> timeline_ok t \<and> ticks_per_cpu_clock t = exact_cpu_quantum m"
proof (induction rule: timeline_reachable.induct)
  case (reach_new m)
  then show ?case by (simp add: timeline_ok_def timeline_new_def phase_ok_def phase_default_def)
next
  case (reach_set_mode m t m')
  then show ?case by (simp add: timeline_ok_def timeline_set_mode_def)
next
  case (reach_advance m t n r)
  then show ?case by (simp add: timeline_ok_advance)
next
  case (reach_stall m t n r)
  then show ?case by (simp add: stall_ok)
qed

lemma phase_of_ok: "timeline_ok t \<Longrightarrow> phase_ok (phase_of t clk)"
  by (cases clk) (simp_all add: timeline_ok_def)

text \<open>The event count of a device clock in an advance, and the rate the advance drives it with.\<close>

fun events_of :: "device_clock \<Rightarrow> device_advance \<Rightarrow> nat" where
  "events_of Pit a = da_pit_clocks a"
| "events_of Dsp a = da_dsp_frames a"
| "events_of Wss a = da_wss_frames a"
| "events_of MargoFrame a = da_margo_frames a"
| "events_of MargoNs a = da_margo_nanoseconds a"
| "events_of Rtc a = da_rtc_seconds a"
| "events_of Vga a = da_vga_dots a"

fun rate_of :: "device_rates \<Rightarrow> device_clock \<Rightarrow> nat" where
  "rate_of r Pit = PIT_INPUT_HZ"
| "rate_of r Dsp = dsp_hz r"
| "rate_of r Wss = wss_hz r"
| "rate_of r MargoFrame = MARGO_FRAME_HZ"
| "rate_of r MargoNs = NANOSECOND_HZ"
| "rate_of r Rtc = 1"
| "rate_of r Vga = vga_dot_hz r"

lemma events_of_advance:
  "events_of clk (fst (timeline_advance t n r)) =
    fst (phase_advance (phase_of t clk) (min n (u64_max - now_ticks t)) (rate_of r clk))"
  by (cases clk) (simp_all add: timeline_advance_def Let_def case_prod_beta)

section \<open>Properties\<close>

text \<open>C1: Splitting an advance does not matter. From any reachable timeline, advancing in any batches
  leaves the timeline that one advance by their sum leaves, and the device events of the batches
  (microseconds, PIT clocks, audio frames, CD frames, seconds, Margo nanoseconds and frames, Distira
  lines, VGA dots) add up to those of the one advance; the clamp at the end of the 64-bit clock
  included.\<close>

theorem timeline_batches:
  assumes "timeline_reachable m t" and r: "rates_ok r"
  shows "advance_batches t r ns =
    (advance_events (fst (timeline_advance t (sum_list ns) r)), snd (timeline_advance t (sum_list ns) r))"
proof -
  have "timeline_ok t" using assms reachable_ok by blast
  then show ?thesis
  proof (induction ns arbitrary: t)
    case Nil
    then show ?case by (simp add: advance_events_zero timeline_advance_zero)
  next
    case (Cons n ns)
    show ?case
      using Cons.IH [OF timeline_ok_advance [OF Cons.prems, of n r]] Cons.prems
      by (simp add: case_prod_beta Let_def timeline_advance_add timeline_events_add [OF Cons.prems r])
  qed
qed

theorem timeline_batches_witness:
  "fst (advance_batches (timeline_new Gsw586)
      \<lparr>dsp_hz = 44100, wss_hz = 8000, cd_playing = True, vga_dot_hz = 25175000\<rparr> [7, 5478000000, 12]) =
    [1000000, 1193182, 44100, 8000, 75, 1, 1000000003, 60, 31500, 25175000]"
  using timeline_batches [OF reach_new [of Gsw586],
      of "\<lparr>dsp_hz = 44100, wss_hz = 8000, cd_playing = True, vga_dot_hz = 25175000\<rparr>" "[7, 5478000000, 12]"]
  by (simp add: rates_ok_def MASTER_CLOCK_HZ_def timeline_advance_events phase_advance_exact timeline_new_def
      phase_default_def u64_max_def sat64_def MICROSECOND_HZ_def PIT_INPUT_HZ_def NANOSECOND_HZ_def
      MARGO_FRAME_HZ_def DISTIRA_LINE_HZ_def)

text \<open>C7: Deadlines are exact. For a device clock that runs, \<open>cpu_clocks_until\<close> answers, and its answer
  is the least number of CPU clocks (at least one) whose advance delivers the \<open>n\<close>th event: an advance
  of \<open>c\<close> CPU clocks delivers \<open>n\<close> events exactly when \<open>c\<close> has reached the deadline. A stopped clock
  has no deadline.\<close>

theorem cpu_deadline_exact:
  assumes "timeline_reachable m t" and n: "0 < n" "n \<le> u64_max"
    and c: "0 < c" "c * exact_cpu_quantum m < u64_max - now_ticks t"
  shows "case cpu_clocks_until t clk n (rate_of r clk) of
      None \<Rightarrow> rate_of r clk = 0
    | Some d \<Rightarrow> 0 < d \<and>
        (d \<le> c \<longleftrightarrow> n \<le> events_of clk (fst (timeline_advance t (master_ticks_for_cpu_clocks t c) r)))"
proof (cases "rate_of r clk = 0")
  case True
  then show ?thesis
    using n by (simp add: cpu_clocks_until_def master_ticks_until_def phase_ticks_until_def)
next
  case False
  have ok: "timeline_ok t" and q: "ticks_per_cpu_clock t = exact_cpu_quantum m"
    using assms(1) reachable_ok by blast+
  let ?k = "c * exact_cpu_quantum m"
  have k: "?k < u64_max" using c(2) by linarith
  obtain d where d: "phase_ticks_until (phase_of t clk) n (rate_of r clk) = Some d"
      "d \<le> ?k \<longleftrightarrow> n \<le> fst (phase_advance (phase_of t clk) ?k (rate_of r clk))"
    using phase_ticks_until_le_iff [OF phase_of_ok [OF ok] _ n(2), of "rate_of r clk" ?k clk] False k by auto
  have "master_ticks_for_cpu_clocks t c = ?k"
    using c(2) by (simp add: master_ticks_for_cpu_clocks_def q saturating_mul64_def sat64_def)
  with d c q show ?thesis
    by (simp add: cpu_clocks_until_def master_ticks_until_def events_of_advance cpu_clocks_for_master_ticks_ceil_def
        div_ceil_le_iff Suc_le_eq)
qed

theorem cpu_deadline_exact_witness:
  "cpu_clocks_until (timeline_new Gsw486) Pit 3 PIT_INPUT_HZ = Some 166
   \<and> (166 \<le> (165::nat) \<longleftrightarrow> 3 \<le> da_pit_clocks (fst (timeline_advance (timeline_new Gsw486)
        (master_ticks_for_cpu_clocks (timeline_new Gsw486) 165)
        \<lparr>dsp_hz = 0, wss_hz = 0, cd_playing = False, vga_dot_hz = 0\<rparr>)))"
proof -
  have q: "exact_cpu_quantum Gsw486 = 83" unfolding exact_cpu_quantum_def gsw_quantum by simp
  have "cpu_clocks_until (timeline_new Gsw486) Pit 3 PIT_INPUT_HZ = Some 166"
    by (simp add: cpu_clocks_until_def master_ticks_until_def phase_ticks_until_def timeline_new_def q
        checked_mul64_def MASTER_CLOCK_HZ_def PIT_INPUT_HZ_def phase_default_def div_ceil_def
        cpu_clocks_for_master_ticks_ceil_def u64_max_def)
  then show ?thesis
    using cpu_deadline_exact [OF reach_new [of Gsw486], where n = 3 and c = 165 and clk = Pit
        and r = "\<lparr>dsp_hz = 0, wss_hz = 0, cd_playing = False, vga_dot_hz = 0\<rparr>"]
    by (simp add: q u64_max_def timeline_new_def)
qed

lemma check_phases_ok: "check_phases ps = Inr () \<longleftrightarrow> (\<forall>p \<in> set ps. snd p < MASTER_CLOCK_HZ)"
  by (induction ps rule: check_phases.induct) auto

lemma reachable_projection:
  assumes "timeline_reachable m t"
  shows "timeline_projection t m =
    Inr ([now_ticks t, io_stall_ticks t, tsc_phase_ticks t] @ map snd (phase_list t))"
proof -
  have ok: "timeline_ok t" and q: "ticks_per_cpu_clock t = exact_cpu_quantum m"
    using assms reachable_ok by blast+
  have "check_phases (phase_list t) = Inr ()"
    using ok by (simp add: check_phases_ok phase_list_def timeline_ok_def phase_ok_def)
  then show ?thesis
    using ok q by (simp add: timeline_projection_def timeline_ok_def Let_def bindE_def)
qed

text \<open>The projection leaves out the time-stamp count only.\<close>

lemma rate_phase_eqI: "remainder p = remainder q \<Longrightarrow> p = (q :: rate_phase)"
  by simp

lemma projection_determines:
  assumes "timeline_reachable m t" and "timeline_reachable m u"
    and "timeline_projection t m = timeline_projection u m"
  shows "u = t\<lparr>tsc_clocks := tsc_clocks u\<rparr>"
  using assms reachable_ok [OF assms(1)] reachable_ok [OF assms(2)]
  by (simp add: reachable_projection phase_list_def)

lemma projection_ignores_tsc: "timeline_projection (t\<lparr>tsc_clocks := c\<rparr>) m = timeline_projection t m"
proof -
  have "phase_list (t\<lparr>tsc_clocks := c\<rparr>) = phase_list t" by (simp add: phase_list_def)
  then show ?thesis unfolding timeline_projection_def Let_def by simp
qed

lemma advance_ignores_tsc:
  "fst (timeline_advance (t\<lparr>tsc_clocks := c\<rparr>) n r) = fst (timeline_advance t n r)"
  "timeline_projection (snd (timeline_advance (t\<lparr>tsc_clocks := c\<rparr>) n r)) m =
    timeline_projection (snd (timeline_advance t n r)) m"
proof -
  show "fst (timeline_advance (t\<lparr>tsc_clocks := c\<rparr>) n r) = fst (timeline_advance t n r)"
    by (simp add: timeline_advance_def Let_def case_prod_beta)
  have "snd (timeline_advance (t\<lparr>tsc_clocks := c\<rparr>) n r) = (snd (timeline_advance t n r))\<lparr>tsc_clocks :=
      wrapping_add64 c (fst (tsc_step (ticks_per_cpu_clock t) (tsc_phase_ticks t) (min n (u64_max - now_ticks t))))\<rparr>"
    by (simp add: timeline_advance_state Let_def)
  then show "timeline_projection (snd (timeline_advance (t\<lparr>tsc_clocks := c\<rparr>) n r)) m =
      timeline_projection (snd (timeline_advance t n r)) m"
    by (simp add: projection_ignores_tsc)
qed

primrec read_words :: "nat \<Rightarrow> u8 list \<Rightarrow> nat list" where
  "read_words 0 bs = []"
| "read_words (Suc n) bs = from_le (take 8 bs) # read_words n (drop 8 bs)"

lemma read_words_payload:
  "\<forall>w \<in> set ws. w < 256 ^ 8 \<Longrightarrow>
    read_words (length ws) (fields_bytes (timeline_payload ws)) = ws
    \<and> length (fields_bytes (timeline_payload ws)) = 8 * length ws"
  by (induction ws) (simp_all add: fields_bytes_def timeline_payload_def from_le_le_bytes)

text \<open>C28: The canonical timeline section of a reachable timeline can always be taken: the projection
  passes every check, has thirteen words, and its payload is 104 bytes from which the words can be
  read back. The projection is also complete: two reachable timelines with the same projection give
  the same device events on every advance, and keep the same projection after it.\<close>

theorem timeline_canonical:
  assumes t: "timeline_reachable m t" and u: "timeline_reachable m u"
    and same: "timeline_projection t m = timeline_projection u m"
  shows "(\<exists>ws. timeline_projection t m = Inr ws \<and> length ws = 13
           \<and> length (fields_bytes (timeline_payload ws)) = 104
           \<and> read_words 13 (fields_bytes (timeline_payload ws)) = ws)
       \<and> fst (timeline_advance t n r) = fst (timeline_advance u n r)
       \<and> timeline_projection (snd (timeline_advance t n r)) m = timeline_projection (snd (timeline_advance u n r)) m"
proof -
  have "timeline_ok t" using t reachable_ok by blast
  then have le: "now_ticks t \<le> u64_max" "io_stall_ticks t \<le> u64_max" "tsc_phase_ticks t \<le> u64_max"
      "\<forall>r \<in> set (map snd (phase_list t)). r \<le> u64_max"
    by (auto simp: timeline_ok_def phase_list_def phase_ok_def MASTER_CLOCK_HZ_def u64_max_def)
  let ?ws = "[now_ticks t, io_stall_ticks t, tsc_phase_ticks t] @ map snd (phase_list t)"
  have words: "\<forall>w \<in> set ?ws. w < 256 ^ 8" using le by (auto simp: u64_max_def)
  have len: "length ?ws = 13" by (simp add: phase_list_def)
  note read_words_payload [OF words, unfolded len]
  then have "\<exists>ws. timeline_projection t m = Inr ws \<and> length ws = 13
           \<and> length (fields_bytes (timeline_payload ws)) = 104
           \<and> read_words 13 (fields_bytes (timeline_payload ws)) = ws"
    using len reachable_projection [OF t] by (intro exI [of _ ?ws] conjI) simp_all
  moreover obtain c where "u = t\<lparr>tsc_clocks := c\<rparr>" using projection_determines [OF t u same] by blast
  ultimately show ?thesis by (simp add: advance_ignores_tsc)
qed

theorem timeline_canonical_witness:
  "fst (timeline_advance (timeline_new Gsw386) 249 \<lparr>dsp_hz = 0, wss_hz = 0, cd_playing = False, vga_dot_hz = 0\<rparr>) =
   fst (timeline_advance (timeline_set_mode (timeline_new Gsw586) Gsw386) 249
      \<lparr>dsp_hz = 0, wss_hz = 0, cd_playing = False, vga_dot_hz = 0\<rparr>)
   \<and> (\<exists>ws. timeline_projection (timeline_new Gsw386) Gsw386 = Inr ws \<and> length ws = 13)"
  using timeline_canonical [OF reach_new reach_set_mode [OF reach_new [of Gsw586]], of Gsw386 249
      "\<lparr>dsp_hz = 0, wss_hz = 0, cd_playing = False, vga_dot_hz = 0\<rparr>"]
  by (auto simp: timeline_set_mode_def timeline_new_def)

lemma scanout_dots:
  assumes p: "phase_ok (tl_margo_frame t)" and fd: "0 < fd" "MASTER_CLOCK_HZ * fd \<le> u64_max"
    and k: "k \<le> u64_max" "(k + 1) * fd \<le> u64_max"
  shows "ms_dots (preview_margo_scanout_at_ticks t k fd) =
    (remainder (tl_margo_frame t) + k * MARGO_FRAME_HZ) * fd div MASTER_CLOCK_HZ"
proof -
  let ?x = "remainder (tl_margo_frame t) + k * MARGO_FRAME_HZ"
  let ?f = "?x div MASTER_CLOCK_HZ" and ?b = "?x mod MASTER_CLOCK_HZ"
  have b: "?b * fd < MASTER_CLOCK_HZ * fd" using fd by simp
  have beam: "?b * fd div MASTER_CLOCK_HZ < fd" using b by (simp add: less_mult_imp_div_less mult.commute)
  have "?x * fd = ?f * fd * MASTER_CLOCK_HZ + ?b * fd"
    by (metis add_mult_distrib div_mult_mod_eq mult.assoc mult.commute)
  then have dots: "?x * fd div MASTER_CLOCK_HZ = ?f * fd + ?b * fd div MASTER_CLOCK_HZ" by simp
  have frames: "?f \<le> k"
  proof -
    have "?x < (k + 1) * MASTER_CLOCK_HZ"
      using p mult_le_mono2 [OF fixed_rates_below_master(5), of k] unfolding phase_ok_def
      by (simp only: distrib_right)
    then show ?thesis by (simp add: less_mult_imp_div_less flip: less_Suc_eq_le)
  qed
  then have f: "?f * fd \<le> k * fd" by (rule mult_le_mono1)
  have "k * fd + fd \<le> u64_max" using k(2) by simp
  with f beam have "?f * fd + ?b * fd div MASTER_CLOCK_HZ \<le> u64_max" by linarith
  moreover have "?b * fd \<le> u64_max" using b fd(2) by linarith
  moreover have "?f \<le> u64_max" using frames k(1) by linarith
  ultimately show ?thesis
    using fd(1) dots
    by (simp add: preview_margo_scanout_at_ticks_def case_prod_beta phase_advance_exact
        saturating_mul64_def saturating_add64_def Let_def)
qed

text \<open>C29: The display deadline agrees with the displayed beam. In a frame of \<open>fd\<close> dots, the ticks until
  the next \<open>n\<close> dots given by \<open>margo_master_ticks_until_dots\<close> are exact: after \<open>k\<close> ticks the
  scanout preview is at least \<open>n\<close> dots past the present beam position exactly when \<open>k\<close> has reached
  that deadline.\<close>

theorem margo_deadline_exact:
  assumes "timeline_reachable m t" and fd: "0 < fd" "MASTER_CLOCK_HZ * fd \<le> u64_max"
    and n: "n \<le> u64_max" and k: "(k + 1) * fd \<le> u64_max"
  shows "\<exists>d. margo_master_ticks_until_dots t n fd = Some d \<and>
    (d \<le> k \<longleftrightarrow>
      ms_dots (preview_margo_scanout_at_ticks t 0 fd) + n \<le> ms_dots (preview_margo_scanout_at_ticks t k fd))"
proof -
  have p: "phase_ok (tl_margo_frame t)" using assms(1) reachable_ok timeline_ok_def by blast
  let ?r = "remainder (tl_margo_frame t) * fd"
  let ?q = "\<lparr>remainder = ?r mod MASTER_CLOCK_HZ\<rparr>"
  have "(k + 1) * 1 \<le> (k + 1) * fd" using fd(1) by (intro mult_le_mono2) simp
  from le_trans [OF this k] have ku: "k < u64_max" by simp
  have hz: "fd * MARGO_FRAME_HZ \<le> u64_max"
    using le_trans [OF mult_le_mono2 [OF fixed_rates_below_master(5), of fd] fd(2) [unfolded mult.commute [of MASTER_CLOCK_HZ]]] .
  have "(?r + k * (fd * MARGO_FRAME_HZ)) div MASTER_CLOCK_HZ =
      ?r div MASTER_CLOCK_HZ + (?r mod MASTER_CLOCK_HZ + k * (fd * MARGO_FRAME_HZ)) div MASTER_CLOCK_HZ"
    using div_mult_self3 [of MASTER_CLOCK_HZ "?r div MASTER_CLOCK_HZ" "?r mod MASTER_CLOCK_HZ + k * (fd * MARGO_FRAME_HZ)"]
    by (simp add: add.assoc [symmetric])
  moreover have "(remainder (tl_margo_frame t) + k * MARGO_FRAME_HZ) * fd = ?r + k * (fd * MARGO_FRAME_HZ)"
    by (simp add: add_mult_distrib)
  moreover have "fd \<le> u64_max" using k by simp
  ultimately have diff: "ms_dots (preview_margo_scanout_at_ticks t k fd) =
      ms_dots (preview_margo_scanout_at_ticks t 0 fd)
      + (?r mod MASTER_CLOCK_HZ + k * (fd * MARGO_FRAME_HZ)) div MASTER_CLOCK_HZ"
    using scanout_dots [OF p fd, of k] scanout_dots [OF p fd, of 0] k ku by simp
  have "phase_ok ?q" by (simp add: phase_ok_def)
  then obtain d where "phase_ticks_until ?q n (fd * MARGO_FRAME_HZ) = Some d"
      "d \<le> k \<longleftrightarrow> n \<le> fst (phase_advance ?q k (fd * MARGO_FRAME_HZ))"
    using phase_ticks_until_le_iff [OF _ _ n ku, of ?q "fd * MARGO_FRAME_HZ"] fd(1)
    by (auto simp: MARGO_FRAME_HZ_def)
  then show ?thesis
    using fd(1) hz diff n
    by (simp add: margo_master_ticks_until_dots_def checked_mul64_def with_remainder_def phase_advance_exact
        le_sat64_iff)
qed

theorem margo_deadline_exact_witness:
  "margo_master_ticks_until_dots (timeline_new Gsw586) 420000 420000 = Some 91300000
   \<and> ms_dots (preview_margo_scanout_at_ticks (timeline_new Gsw586) 0 420000) + 420000 \<le>
       ms_dots (preview_margo_scanout_at_ticks (timeline_new Gsw586) 91300000 420000)"
proof -
  have "margo_master_ticks_until_dots (timeline_new Gsw586) 420000 420000 = Some 91300000"
    by (simp add: margo_master_ticks_until_dots_def checked_mul64_def with_remainder_def phase_ticks_until_def
        timeline_new_def phase_default_def MASTER_CLOCK_HZ_def MARGO_FRAME_HZ_def u64_max_def div_ceil_def)
  then show ?thesis
    using margo_deadline_exact [OF reach_new [of Gsw586], of 420000 420000 91300000]
    by (simp add: MASTER_CLOCK_HZ_def u64_max_def)
qed

end
