(* ===== verification/Pic.thy ===== *)
theory Pic
  imports Prelude Canonical
begin

text \<open>
  The 8259A interrupt controller and the master/slave pair
  (\<open>crates/izarravm-machine/src/pic.rs\<close>). Registers are bytes, an interrupt level is a byte below
  eight. The lemmas give the priority resolver a declarative meaning, the nesting discipline of
  the in-service register, the delivery of a request through the cascade, and the completeness of
  the canonical section.
\<close>

unbundle bit_operations_syntax

section \<open>One controller\<close>

datatype init_stage = Ready | ExpectIcw2 | ExpectIcw3 | ExpectIcw4

record pic =
  irr :: u8
  asserted :: u8
  isr :: u8
  imr :: u8
  icw2 :: u8
  icw3 :: u8
  init :: init_stage
  expect_icw4 :: bool
  single :: bool
  level_triggered :: bool
  auto_eoi :: bool
  buffered :: bool
  is_master :: bool
  read_isr :: bool
  poll_pending :: bool
  special_mask :: bool
  sfnm :: bool
  lowest :: u8
  auto_rotate :: bool

definition pic_default :: pic where
  "pic_default =
    \<lparr>irr = 0, asserted = 0, isr = 0, imr = 0, icw2 = 0, icw3 = 0, init = Ready, expect_icw4 = False,
     single = False, level_triggered = False, auto_eoi = False, buffered = False, is_master = False,
     read_isr = False, poll_pending = False, special_mask = False, sfnm = False, lowest = 0,
     auto_rotate = False\<rparr>"

definition priority_order :: "pic \<Rightarrow> u8 list" where
  "priority_order p = map (\<lambda>slot. (lowest p + 1 + slot) mod 8) [0, 1, 2, 3, 4, 5, 6, 7]"

definition pic_request :: "pic \<Rightarrow> u8 \<Rightarrow> pic" where
  "pic_request p irq = p\<lparr>irr := irr p OR bit_mask irq\<rparr>"

definition set_input_level :: "pic \<Rightarrow> u8 \<Rightarrow> bool \<Rightarrow> pic" where
  "set_input_level p irq on =
    (let b = bit_mask irq; was_asserted = test (asserted p) b in
     if on
     then (let p = p\<lparr>asserted := asserted p OR b\<rparr> in
           if level_triggered p \<or> \<not> was_asserted then p\<lparr>irr := irr p OR b\<rparr> else p)
     else (let p = p\<lparr>asserted := asserted p AND NOT b\<rparr> in
           if level_triggered p then p\<lparr>irr := irr p AND NOT b\<rparr> else p))"

definition clear_in_service :: "pic \<Rightarrow> u8 \<Rightarrow> pic" where
  "clear_in_service p irq =
    (let b = bit_mask irq; p = p\<lparr>isr := isr p AND NOT b\<rparr> in
     if level_triggered p \<and> test (asserted p) b then p\<lparr>irr := irr p OR b\<rparr> else p)"

definition highest_in_service :: "pic \<Rightarrow> u8 option" where
  "highest_in_service p = find (\<lambda>irq. has_bit (isr p) irq) (priority_order p)"

definition end_of_interrupt :: "pic \<Rightarrow> u8 \<Rightarrow> pic" where
  "end_of_interrupt p ocw2 =
    (let level = ocw2 AND 0x07; cmd = drop_bit 5 ocw2 in
     if cmd = 0 \<or> cmd = 4 then p\<lparr>auto_rotate := test ocw2 0x80\<rparr>
     else if cmd = 1
       then (case highest_in_service p of None \<Rightarrow> p | Some l \<Rightarrow> clear_in_service p l)
     else if cmd = 3 then clear_in_service p level
     else if cmd = 5
       then (case highest_in_service p of None \<Rightarrow> p | Some l \<Rightarrow> (clear_in_service p l)\<lparr>lowest := l\<rparr>)
     else if cmd = 6 then p\<lparr>lowest := level\<rparr>
     else if cmd = 7 then (clear_in_service p level)\<lparr>lowest := level\<rparr>
     else p)"

text \<open>The loop of \<open>highest_pending\<close> over the priority order.\<close>

fun pending_loop :: "pic \<Rightarrow> u8 option \<Rightarrow> u8 \<Rightarrow> u8 list \<Rightarrow> u8 option" where
  "pending_loop p cascade_exempt requests [] = None"
| "pending_loop p cascade_exempt requests (irq # rest) =
    (if has_bit (isr p) irq \<and> cascade_exempt \<noteq> Some irq
     then (if special_mask p then pending_loop p cascade_exempt requests rest else None)
     else if has_bit requests irq then Some irq
     else pending_loop p cascade_exempt requests rest)"

definition highest_pending :: "pic \<Rightarrow> u8 option \<Rightarrow> u8 option" where
  "highest_pending p cascade_exempt =
    pending_loop p cascade_exempt (irr p AND NOT (imr p)) (priority_order p)"

definition vector :: "pic \<Rightarrow> u8 \<Rightarrow> u8" where
  "vector p irq = (icw2 p AND 0xf8) OR irq"

definition set_in_service :: "pic \<Rightarrow> u8 \<Rightarrow> pic" where
  "set_in_service p irq =
    (let b = bit_mask irq; p = p\<lparr>isr := isr p OR b, irr := irr p AND NOT b\<rparr> in
     if auto_eoi p
     then (let p = clear_in_service p irq in if auto_rotate p then p\<lparr>lowest := irq\<rparr> else p)
     else p)"

definition poll :: "pic \<Rightarrow> u8 option \<Rightarrow> u8 \<times> pic" where
  "poll p cascade_exempt =
    (case highest_pending p cascade_exempt of
       Some level \<Rightarrow> (0x80 OR level, set_in_service p level)
     | None \<Rightarrow> (0, p))"

definition pic_read_port :: "pic \<Rightarrow> u16 \<Rightarrow> u8 option \<Rightarrow> u8 \<times> pic" where
  "pic_read_port p port cascade_exempt =
    (if poll_pending p then poll (p\<lparr>poll_pending := False\<rparr>) cascade_exempt
     else if port AND 1 = 0 then (if read_isr p then isr p else irr p, p)
     else (imr p, p))"

text \<open>The command port: ICW1, OCW3 and OCW2.\<close>

definition write_icw1 :: "pic \<Rightarrow> u8 \<Rightarrow> pic" where
  "write_icw1 p v =
    (let level = test v 0x08 in
     p\<lparr>isr := 0, imr := 0, read_isr := False, lowest := 7, auto_rotate := False,
       expect_icw4 := test v 0x01, single := test v 0x02, level_triggered := level,
       irr := (if level then asserted p else 0), init := ExpectIcw2\<rparr>)"

definition write_ocw3 :: "pic \<Rightarrow> u8 \<Rightarrow> pic" where
  "write_ocw3 p v =
    p\<lparr>read_isr := (if test v 0x02 then test v 0x01 else read_isr p),
      poll_pending := (if test v 0x04 then True else poll_pending p),
      special_mask := (if test v 0x40 then test v 0x20 else special_mask p)\<rparr>"

text \<open>The data port: the rest of the initialization sequence, or the mask register.\<close>

definition write_data_port :: "pic \<Rightarrow> u8 \<Rightarrow> pic" where
  "write_data_port p v =
    (case init p of
       ExpectIcw2 \<Rightarrow>
         p\<lparr>icw2 := v,
           init := (if \<not> single p then ExpectIcw3 else if expect_icw4 p then ExpectIcw4 else Ready)\<rparr>
     | ExpectIcw3 \<Rightarrow> p\<lparr>icw3 := v, init := (if expect_icw4 p then ExpectIcw4 else Ready)\<rparr>
     | ExpectIcw4 \<Rightarrow>
         p\<lparr>auto_eoi := test v 0x02, buffered := test v 0x08, is_master := test v 0x04,
           sfnm := test v 0x10, init := Ready\<rparr>
     | Ready \<Rightarrow> p\<lparr>imr := v\<rparr>)"

definition pic_write_port :: "pic \<Rightarrow> u16 \<Rightarrow> u8 \<Rightarrow> pic" where
  "pic_write_port p port v =
    (if port AND 1 = 0
     then (if test v 0x10 then write_icw1 p v
           else if test v 0x08 then write_ocw3 p v
           else end_of_interrupt p v)
     else write_data_port p v)"

section \<open>The cascaded pair\<close>

record pic_pair =
  master :: pic
  slave :: pic

definition pair_default :: pic_pair where
  "pair_default = \<lparr>master = pic_default, slave = pic_default\<rparr>"

definition cascade_pin :: "pic_pair \<Rightarrow> u8" where
  "cascade_pin q = icw3 (slave q) AND 0x07"

definition sync_cascade :: "pic_pair \<Rightarrow> pic_pair" where
  "sync_cascade q =
    q\<lparr>master := set_input_level (master q) (cascade_pin q) (highest_pending (slave q) None \<noteq> None)\<rparr>"

definition master_cascade_exempt :: "pic_pair \<Rightarrow> u8 option" where
  "master_cascade_exempt q =
    (if sfnm (master q) \<and> has_bit (icw3 (master q)) (cascade_pin q) then Some (cascade_pin q) else None)"

definition master_pending :: "pic_pair \<Rightarrow> u8 option" where
  "master_pending q = highest_pending (master q) (master_cascade_exempt q)"

definition interrupt_pending :: "pic_pair \<Rightarrow> bool" where
  "interrupt_pending q \<longleftrightarrow> master_pending q \<noteq> None"

definition pair_write_port :: "pic_pair \<Rightarrow> u16 \<Rightarrow> u8 \<Rightarrow> bool \<times> pic_pair" where
  "pair_write_port q port v =
    (if port = 0x20 \<or> port = 0x21 then (True, q\<lparr>master := pic_write_port (master q) port v\<rparr>)
     else if port = 0xa0 \<or> port = 0xa1
     then (let old_pin = cascade_pin q;
               q = q\<lparr>slave := pic_write_port (slave q) port v\<rparr>;
               q = (if old_pin \<noteq> cascade_pin q then q\<lparr>master := set_input_level (master q) old_pin False\<rparr> else q)
           in (True, sync_cascade q))
     else (False, q))"

definition pair_read_port :: "pic_pair \<Rightarrow> u16 \<Rightarrow> u8 option \<times> pic_pair" where
  "pair_read_port q port =
    (if port = 0x20 \<or> port = 0x21
     then (let (v, m) = pic_read_port (master q) port (master_cascade_exempt q) in (Some v, q\<lparr>master := m\<rparr>))
     else if port = 0xa0 \<or> port = 0xa1
     then (let (v, s) = pic_read_port (slave q) port None in (Some v, sync_cascade (q\<lparr>slave := s\<rparr>)))
     else (None, q))"

definition irq_unmasked :: "pic_pair \<Rightarrow> u8 \<Rightarrow> bool" where
  "irq_unmasked q irq =
    (if irq < 8 then \<not> has_bit (imr (master q)) irq else \<not> has_bit (imr (slave q)) (irq - 8))"

definition deliverable :: "pic_pair \<Rightarrow> u8 \<Rightarrow> bool" where
  "deliverable q irq =
    (if irq < 8 then irq_unmasked q irq
     else irq_unmasked q irq \<and> \<not> has_bit (imr (master q)) (cascade_pin q))"

text \<open>Lines from 16 up fail a debug assertion; a release build ignores them.\<close>

definition pair_request :: "pic_pair \<Rightarrow> u8 \<Rightarrow> pic_pair" where
  "pair_request q irq =
    (if irq < 8 then q\<lparr>master := pic_request (master q) irq\<rparr>
     else if irq < 16
     then q\<lparr>slave := pic_request (slave q) (irq - 8), master := pic_request (master q) (cascade_pin q)\<rparr>
     else q)"

definition set_irq_level :: "pic_pair \<Rightarrow> u8 \<Rightarrow> bool \<Rightarrow> pic_pair" where
  "set_irq_level q irq on =
    (if irq < 8 then q\<lparr>master := set_input_level (master q) irq on\<rparr>
     else if irq < 16 then sync_cascade (q\<lparr>slave := set_input_level (slave q) (irq - 8) on\<rparr>)
     else q)"

definition acknowledge_with_irq :: "pic_pair \<Rightarrow> (u8 \<times> u8) option \<times> pic_pair" where
  "acknowledge_with_irq q =
    (case master_pending q of
       None \<Rightarrow> (None, q)
     | Some master_irq \<Rightarrow>
         (let q = q\<lparr>master := set_in_service (master q) master_irq\<rparr> in
          if \<not> has_bit (icw3 (master q)) master_irq \<or> master_irq \<noteq> cascade_pin q
          then (Some (vector (master q) master_irq, master_irq), q)
          else (case highest_pending (slave q) None of
                  Some slave_irq \<Rightarrow>
                    (let q = sync_cascade (q\<lparr>slave := set_in_service (slave q) slave_irq\<rparr>)
                     in (Some (vector (slave q) slave_irq, master_irq), q))
                | None \<Rightarrow>
                    (let q = sync_cascade q in (Some (vector (slave q) 7, master_irq), q)))))"

definition acknowledge :: "pic_pair \<Rightarrow> u8 option \<times> pic_pair" where
  "acknowledge q = (let (r, q') = acknowledge_with_irq q in (map_option fst r, q'))"

section \<open>The canonical section\<close>

fun init_stage_tag :: "init_stage \<Rightarrow> u8" where
  "init_stage_tag Ready = 0"
| "init_stage_tag ExpectIcw2 = 1"
| "init_stage_tag ExpectIcw3 = 2"
| "init_stage_tag ExpectIcw4 = 3"

definition write_canonical_pic :: "pic \<Rightarrow> u8 \<Rightarrow> bool \<Rightarrow> field list" where
  "write_canonical_pic p cascade as_master =
    [FU8 (irr p), FU8 (asserted p), FU8 (isr p), FU8 (imr p), FU8 (icw2 p AND 0xf8), FU8 cascade,
     FU8 (init_stage_tag (init p)),
     FBool ((init p = ExpectIcw2 \<or> init p = ExpectIcw3) \<and> expect_icw4 p),
     FBool (init p = ExpectIcw2 \<and> single p),
     FBool (level_triggered p), FBool (auto_eoi p), FBool (read_isr p), FBool (poll_pending p),
     FBool (special_mask p), FBool (as_master \<and> sfnm p), FU8 (lowest p),
     FBool (auto_eoi p \<and> auto_rotate p)]"

definition pic_payload :: "pic_pair \<Rightarrow> field list" where
  "pic_payload q =
    write_canonical_pic (master q) (icw3 (master q)) True
    @ write_canonical_pic (slave q) (cascade_pin q) False"

section \<open>Priority\<close>

definition pic_ok :: "pic \<Rightarrow> bool" where
  "pic_ok p \<longleftrightarrow> lowest p < 8"

definition outranks :: "pic \<Rightarrow> u8 \<Rightarrow> u8 \<Rightarrow> bool" where
  "outranks p j i \<longleftrightarrow> (j + (7 - lowest p)) mod 8 < (i + (7 - lowest p)) mod 8"

lemma less8_cases: "(i::u8) < 8 \<Longrightarrow> i = 0 \<or> i = 1 \<or> i = 2 \<or> i = 3 \<or> i = 4 \<or> i = 5 \<or> i = 6 \<or> i = 7"
  using eight_levels [of i] by simp

lemma priority_order_sorted:
  assumes "pic_ok p"
  shows "sorted_wrt (outranks p) (priority_order p)"
  using less8_cases [OF assms [unfolded pic_ok_def]]
  by (elim disjE) (simp_all add: priority_order_def outranks_def)

lemma priority_order_levels:
  assumes "pic_ok p"
  shows "distinct (priority_order p)" and "i \<in> set (priority_order p) \<longleftrightarrow> i < 8"
proof -
  have "distinct (priority_order p) \<and> set (priority_order p) = {0, 1, 2, 3, 4, 5, 6, 7}"
    using less8_cases [OF assms [unfolded pic_ok_def]]
    by (elim disjE) (simp_all add: priority_order_def, auto)
  moreover have "i < 8" if "i \<in> {0, 1, 2, 3, 4, 5, 6, 7}" using that by auto
  ultimately show "distinct (priority_order p)" and "i \<in> set (priority_order p) \<longleftrightarrow> i < 8"
    using eight_levels [of i] by auto
qed

lemma outranks_asym: "outranks p j i \<Longrightarrow> \<not> outranks p i j"
  by (simp add: outranks_def)

text \<open>A level that is in service and not exempt holds back what follows it.\<close>

definition blocked :: "pic \<Rightarrow> u8 option \<Rightarrow> u8 \<Rightarrow> bool" where
  "blocked p ex i \<longleftrightarrow> has_bit (isr p) i \<and> ex \<noteq> Some i"

definition requested :: "pic \<Rightarrow> u8 \<Rightarrow> bool" where
  "requested p i \<longleftrightarrow> has_bit (irr p) i \<and> \<not> has_bit (imr p) i"

lemma pending_loop_sorted:
  assumes "sorted_wrt (outranks p) xs"
  shows "pending_loop p ex rq xs = Some i \<longleftrightarrow>
    i \<in> set xs \<and> \<not> blocked p ex i \<and> has_bit rq i
    \<and> (\<forall>j \<in> set xs. outranks p j i \<longrightarrow> (if blocked p ex j then special_mask p else \<not> has_bit rq j))"
  using assms
proof (induction xs)
  case (Cons x xs)
  then show ?case
    by (cases "x = i") (auto simp: blocked_def dest: outranks_asym)
qed simp

lemma highest_pending_iff:
  assumes "pic_ok p"
  shows "highest_pending p ex = Some i \<longleftrightarrow>
    i < 8 \<and> requested p i \<and> \<not> blocked p ex i
    \<and> (\<forall>j. j < 8 \<and> outranks p j i \<longrightarrow> (if blocked p ex j then special_mask p else \<not> requested p j))"
  unfolding highest_pending_def pending_loop_sorted [OF priority_order_sorted [OF assms]]
  using priority_order_levels(2) [OF assms]
  by (auto simp: requested_def has_bit_not)

lemma highest_pending_None_iff:
  assumes "pic_ok p"
  shows "highest_pending p ex = None \<longleftrightarrow>
    (\<forall>i. i < 8 \<and> requested p i \<and> \<not> blocked p ex i \<longrightarrow>
       (\<exists>j. j < 8 \<and> outranks p j i \<and> blocked p ex j \<and> \<not> special_mask p))"
proof -
  have loop: "pending_loop p ex rq xs = None \<longleftrightarrow>
      (\<forall>i \<in> set xs. has_bit rq i \<and> \<not> blocked p ex i \<longrightarrow>
         (\<exists>j \<in> set xs. outranks p j i \<and> blocked p ex j \<and> \<not> special_mask p))"
    if "sorted_wrt (outranks p) xs" for xs rq
    using that
  proof (induction xs)
    case (Cons x xs)
    then show ?case by (auto simp: blocked_def dest: outranks_asym)
  qed simp
  show ?thesis
    unfolding highest_pending_def loop [OF priority_order_sorted [OF assms]] Ball_def Bex_def
      priority_order_levels(2) [OF assms]
    by (auto simp: requested_def has_bit_not)
qed

lemma highest_in_service_iff:
  "highest_in_service p = (case filter (has_bit (isr p)) (priority_order p) of [] \<Rightarrow> None | i # _ \<Rightarrow> Some i)"
proof -
  have "find P xs = (case filter P xs of [] \<Rightarrow> None | i # _ \<Rightarrow> Some i)" for P and xs :: "u8 list"
    by (induction xs) auto
  then show ?thesis unfolding highest_in_service_def by blast
qed

section \<open>The invariant\<close>

lemma pic_ok_default [simp]: "pic_ok pic_default"
  by (simp add: pic_ok_def pic_default_def)

lemma pic_ok_request [simp]: "pic_ok (pic_request p i) = pic_ok p"
  by (simp add: pic_ok_def pic_request_def)

lemma pic_ok_set_input_level [simp]: "pic_ok (set_input_level p i b) = pic_ok p"
  by (simp add: pic_ok_def set_input_level_def Let_def)

lemma pic_ok_clear_in_service [simp]: "pic_ok (clear_in_service p i) = pic_ok p"
  by (simp add: pic_ok_def clear_in_service_def Let_def)

lemma highest_in_service_less: "pic_ok p \<Longrightarrow> highest_in_service p = Some i \<Longrightarrow> i < 8"
  using priority_order_levels(2) [of p i] by (auto simp: highest_in_service_def find_Some_iff)

lemma pic_ok_set_lowest [simp]: "pic_ok (p\<lparr>lowest := l\<rparr>) \<longleftrightarrow> l < 8"
  by (simp add: pic_ok_def)

lemma pic_ok_set_in_service: "pic_ok p \<Longrightarrow> i < 8 \<Longrightarrow> pic_ok (set_in_service p i)"
  by (simp add: set_in_service_def Let_def) (simp add: pic_ok_def)

lemma pic_ok_end_of_interrupt: "pic_ok p \<Longrightarrow> pic_ok (end_of_interrupt p v)"
  by (auto simp: end_of_interrupt_def Let_def and_mask7_less8 pic_ok_def [of "_\<lparr>auto_rotate := _\<rparr>"]
      split: option.splits dest: highest_in_service_less) (simp_all add: pic_ok_def)

lemma pic_ok_write_port: "pic_ok p \<Longrightarrow> pic_ok (pic_write_port p port v)"
  by (simp add: pic_write_port_def pic_ok_end_of_interrupt)
    (auto simp: pic_ok_def write_icw1_def write_ocw3_def write_data_port_def Let_def split: init_stage.split)

lemma highest_pending_less: "pic_ok p \<Longrightarrow> highest_pending p ex = Some i \<Longrightarrow> i < 8"
  by (simp add: highest_pending_iff)

lemma pic_ok_set_poll [simp]: "pic_ok (p\<lparr>poll_pending := b\<rparr>) = pic_ok p"
  by (simp add: pic_ok_def)

lemma pic_ok_read_port: "pic_ok p \<Longrightarrow> pic_ok (snd (pic_read_port p port ex))"
  using highest_pending_less [of "p\<lparr>poll_pending := False\<rparr>" ex]
  by (auto simp: pic_read_port_def poll_def pic_ok_set_in_service split: option.split)

definition pair_ok :: "pic_pair \<Rightarrow> bool" where
  "pair_ok q \<longleftrightarrow> pic_ok (master q) \<and> pic_ok (slave q)"

lemma pair_ok_sync [simp]: "pair_ok (sync_cascade q) = pair_ok q"
  by (simp add: pair_ok_def sync_cascade_def)

text \<open>The operations of the pair as one alphabet, and what each answers.\<close>

datatype pic_op = PWrite u16 u8 | PRead u16 | PRequest u8 | PLevel u8 bool | PAck

datatype pic_answer = AWrite bool | ARead "u8 option" | ANone | AAck "(u8 \<times> u8) option"

fun pic_step :: "pic_pair \<Rightarrow> pic_op \<Rightarrow> pic_answer \<times> pic_pair" where
  "pic_step q (PWrite port v) = (let (r, q') = pair_write_port q port v in (AWrite r, q'))"
| "pic_step q (PRead port) = (let (r, q') = pair_read_port q port in (ARead r, q'))"
| "pic_step q (PRequest irq) = (ANone, pair_request q irq)"
| "pic_step q (PLevel irq on) = (ANone, set_irq_level q irq on)"
| "pic_step q PAck = (let (r, q') = acknowledge_with_irq q in (AAck r, q'))"

fun pic_run :: "pic_pair \<Rightarrow> pic_op list \<Rightarrow> pic_answer list \<times> pic_pair" where
  "pic_run q [] = ([], q)"
| "pic_run q (op # ops) =
    (let (a, q') = pic_step q op; (as, q'') = pic_run q' ops in (a # as, q''))"

lemma pair_ok_step: "pair_ok q \<Longrightarrow> pair_ok (snd (pic_step q op))"
proof (cases op)
  case (PWrite port v)
  then show "pair_ok q \<Longrightarrow> ?thesis"
    by (auto simp: pair_write_port_def Let_def pair_ok_def sync_cascade_def pic_ok_write_port)
next
  case (PRead port)
  then show "pair_ok q \<Longrightarrow> ?thesis"
    using pic_ok_read_port [of "master q" port "master_cascade_exempt q"] pic_ok_read_port [of "slave q" port None]
    by (auto simp: pair_read_port_def case_prod_beta pair_ok_def sync_cascade_def)
next
  case (PRequest irq)
  then show "pair_ok q \<Longrightarrow> ?thesis" by (simp add: pair_request_def pair_ok_def)
next
  case (PLevel irq on)
  then show "pair_ok q \<Longrightarrow> ?thesis" by (simp add: set_irq_level_def) (simp add: pair_ok_def)
next
  case PAck
  then show "pair_ok q \<Longrightarrow> ?thesis"
    by (auto simp: acknowledge_with_irq_def case_prod_beta Let_def pair_ok_def sync_cascade_def master_pending_def
        pic_ok_set_in_service highest_pending_less split: option.split)
qed

lemma pair_ok_run: "pair_ok q \<Longrightarrow> pair_ok (snd (pic_run q ops))"
  by (induction ops arbitrary: q) (simp_all add: case_prod_beta pair_ok_step)

section \<open>Nesting\<close>

text \<open>The levels in service, the most urgent one on top.\<close>

definition service_stack :: "pic \<Rightarrow> u8 list" where
  "service_stack p = filter (has_bit (isr p)) (priority_order p)"

lemma service_stack_levels: "pic_ok p \<Longrightarrow> set (service_stack p) = {i. i < 8 \<and> has_bit (isr p) i}"
  using priority_order_levels(2) [of p] by (auto simp: service_stack_def)

lemma service_stack_push:
  assumes ok: "pic_ok p" and pending: "highest_pending p None = Some i"
    and modes: "\<not> special_mask p" "\<not> auto_eoi p"
  shows "service_stack (set_in_service p i) = i # service_stack p"
proof -
  let ?p = "set_in_service p i"
  have i: "i < 8" "\<not> has_bit (isr p) i" "\<forall>j. j < 8 \<and> outranks p j i \<longrightarrow> \<not> has_bit (isr p) j"
    using pending modes by (auto simp: highest_pending_iff [OF ok] blocked_def split: if_splits)
  have order: "priority_order ?p = priority_order p" and isr: "isr ?p = isr p OR bit_mask i"
    using modes by (simp_all add: set_in_service_def Let_def priority_order_def)
  obtain pre post where split: "priority_order p = pre @ i # post"
    using priority_order_levels(2) [OF ok, of i] i(1) split_list by metis
  have pre: "j < 8 \<and> outranks p j i" if "j \<in> set pre" for j
    using that priority_order_sorted [OF ok] priority_order_levels(2) [OF ok, of j] split
    by (auto simp: sorted_wrt_append)
  have "i \<notin> set pre" "i \<notin> set post" using priority_order_levels(1) [OF ok] split by auto
  moreover have "filter (has_bit (isr p)) pre = []" using pre i(3) by (auto simp: filter_empty_conv)
  moreover have "filter (has_bit (isr ?p)) pre = []"
    using pre i(3) \<open>i \<notin> set pre\<close> by (auto simp: filter_empty_conv isr has_bit_mask)
  moreover have "filter (has_bit (isr ?p)) post = filter (has_bit (isr p)) post"
  proof (rule filter_cong)
    fix j assume "j \<in> set post"
    then have "j < 8" "j \<noteq> i"
      using priority_order_levels(2) [OF ok, of j] split \<open>i \<notin> set post\<close> by auto
    then show "has_bit (isr ?p) j = has_bit (isr p) j" by (simp add: isr has_bit_mask)
  qed simp
  ultimately show ?thesis
    using i by (simp add: service_stack_def order split isr has_bit_mask)
qed

lemma filter_without_first:
  "distinct xs \<Longrightarrow> filter P xs = h # t \<Longrightarrow> filter (\<lambda>x. P x \<and> x \<noteq> h) xs = t"
proof (induction xs)
  case (Cons x xs)
  show ?case
  proof (cases "P x")
    case True
    with Cons.prems have "x = h" "filter P xs = t" "h \<notin> set xs" by auto
    then show ?thesis using filter_cong [of xs xs "\<lambda>x. P x \<and> x \<noteq> h" P] by auto
  qed (use Cons in auto)
qed simp

lemma service_stack_pop:
  assumes ok: "pic_ok p"
  shows "service_stack (end_of_interrupt p 0x20) = tl (service_stack p)"
proof (cases "service_stack p")
  case Nil
  then show ?thesis
    by (simp add: end_of_interrupt_def Let_def highest_in_service_iff flip: service_stack_def)
next
  case (Cons h t)
  let ?p = "clear_in_service p h"
  have h: "h < 8" using Cons service_stack_levels [OF ok] by auto
  have order: "priority_order ?p = priority_order p" and isr: "isr ?p = isr p AND NOT (bit_mask h)"
    by (simp_all add: clear_in_service_def Let_def priority_order_def)
  have "filter (has_bit (isr ?p)) (priority_order p) =
      filter (\<lambda>x. has_bit (isr p) x \<and> x \<noteq> h) (priority_order p)"
    using priority_order_levels(2) [OF ok] by (intro filter_cong) (auto simp: isr has_bit_and_not_mask simp del: has_bit_and)
  also have "\<dots> = t"
    by (rule filter_without_first) (use priority_order_levels(1) [OF ok] Cons in \<open>simp_all add: service_stack_def\<close>)
  finally show ?thesis
    using Cons by (simp add: end_of_interrupt_def Let_def highest_in_service_iff service_stack_def order)
qed

lemma outranks_total:
  assumes "pic_ok p" and "i < 8" and "j < 8" and "i \<noteq> j"
  shows "outranks p i j \<or> outranks p j i"
proof -
  have "sorted_wrt R xs \<Longrightarrow> i \<in> set xs \<Longrightarrow> j \<in> set xs \<Longrightarrow> R i j \<or> R j i" for R and xs :: "u8 list"
    using assms(4) by (induction xs) auto
  then show ?thesis
    using priority_order_sorted [OF assms(1)] priority_order_levels(2) [OF assms(1)] assms by blast
qed

lemma service_stack_top:
  assumes "pic_ok p" and "highest_pending p None = Some i" and "\<not> special_mask p" and "j \<in> set (service_stack p)"
  shows "outranks p i j"
proof -
  have i: "i < 8" "\<not> has_bit (isr p) i" "\<not> outranks p j i" and j: "j < 8" "has_bit (isr p) j"
    using assms by (auto simp: highest_pending_iff blocked_def service_stack_levels split: if_splits)
  then have "i \<noteq> j" by auto
  then show ?thesis using i j outranks_total [OF assms(1)] by blast
qed

section \<open>Delivery through the cascade\<close>

definition pic_quiet :: "pic \<Rightarrow> bool" where
  "pic_quiet p \<longleftrightarrow> irr p = 0 \<and> isr p = 0 \<and> asserted p = 0"

definition pair_quiet :: "pic_pair \<Rightarrow> bool" where
  "pair_quiet q \<longleftrightarrow> pic_quiet (master q) \<and> pic_quiet (slave q)"

lemma set_input_level_fields [simp]:
  "isr (set_input_level p i b) = isr p" "imr (set_input_level p i b) = imr p"
  "icw2 (set_input_level p i b) = icw2 p" "icw3 (set_input_level p i b) = icw3 p"
  "sfnm (set_input_level p i b) = sfnm p"
  by (simp_all add: set_input_level_def Let_def)

lemma pic_request_fields [simp]:
  "isr (pic_request p i) = isr p" "imr (pic_request p i) = imr p" "icw2 (pic_request p i) = icw2 p"
  "icw3 (pic_request p i) = icw3 p" "sfnm (pic_request p i) = sfnm p"
  by (simp_all add: pic_request_def)

lemma set_in_service_fields [simp]:
  "icw2 (set_in_service p i) = icw2 p" "icw3 (set_in_service p i) = icw3 p"
  by (simp_all add: set_in_service_def clear_in_service_def Let_def)

lemma quiet_raise:
  assumes "pic_quiet p"
  shows "irr (pic_request p i) = bit_mask i" "irr (set_input_level p i True) = bit_mask i"
    "isr p = 0" "irr (set_input_level p i False) = 0" "irr p = 0"
  using assms by (simp_all add: pic_quiet_def pic_request_def set_input_level_def Let_def test_def)

lemma lone_request:
  assumes "pic_ok p" and "isr p = 0" and "irr p = bit_mask i" and "i < 8"
  shows "highest_pending p ex = (if has_bit (imr p) i then None else Some i)"
proof (cases "has_bit (imr p) i")
  case True
  then show ?thesis
    using assms by (auto simp: highest_pending_None_iff requested_def has_bit_mask)
next
  case False
  then show ?thesis
    using assms outranks_asym [of p i i] by (auto simp: highest_pending_iff requested_def blocked_def has_bit_mask)
qed

lemma no_request: "pic_ok p \<Longrightarrow> irr p = 0 \<Longrightarrow> highest_pending p ex = None"
  by (simp add: highest_pending_None_iff requested_def)

lemma slave_line: "irq < 16 \<Longrightarrow> \<not> irq < 8 \<Longrightarrow> (irq - 8 :: u8) < 8"
  by (simp add: word_less_nat_alt unat_sub_if')

lemma cascade_pin_less: "cascade_pin q < 8"
  by (simp add: cascade_pin_def and_mask7_less8)

definition line_vector :: "pic_pair \<Rightarrow> u8 \<Rightarrow> u8" where
  "line_vector q irq = (if irq < 8 then vector (master q) irq else vector (slave q) (irq - 8))"

lemma deliver_master:
  assumes "pair_ok q" and "isr (master q) = 0" and "irr (master q) = bit_mask irq" and "irq < 8"
    and "irq \<noteq> cascade_pin q"
  shows "fst (acknowledge q) = (if has_bit (imr (master q)) irq then None else Some (vector (master q) irq))"
  using assms lone_request [of "master q" irq "master_cascade_exempt q"]
  by (simp add: acknowledge_def acknowledge_with_irq_def master_pending_def pair_ok_def Let_def cascade_pin_def
      vector_def)

lemma deliver_slave:
  assumes ok: "pair_ok q" and wired: "has_bit (icw3 (master q)) (cascade_pin q)"
    and m: "isr (master q) = 0" "irr (master q) = bit_mask (cascade_pin q)"
    and s: "isr (slave q) = 0" "irr (slave q) = bit_mask i" "i < 8"
  shows "fst (acknowledge q) =
    (if has_bit (imr (master q)) (cascade_pin q) then None
     else Some (vector (slave q) (if has_bit (imr (slave q)) i then 7 else i)))"
  using assms lone_request [of "master q" "cascade_pin q" "master_cascade_exempt q"] cascade_pin_less [of q]
    lone_request [of "slave q" i None]
  by (auto simp: acknowledge_def acknowledge_with_irq_def master_pending_def pair_ok_def Let_def cascade_pin_def
      vector_def sync_cascade_def split: option.split)

text \<open>An acknowledged pulse is used up.\<close>

lemma serviced_pulse:
  assumes "irr p = bit_mask i" and "asserted p = 0"
  shows "irr (set_in_service p i) = 0" "asserted (set_in_service p i) = 0"
  using assms by (simp_all add: set_in_service_def clear_in_service_def Let_def test_def)

lemma nothing_pending: "pair_ok q \<Longrightarrow> irr (master q) = 0 \<Longrightarrow> fst (acknowledge q) = None"
  using no_request [of "master q" "master_cascade_exempt q"]
  by (simp add: acknowledge_def acknowledge_with_irq_def master_pending_def pair_ok_def)

lemma pair_ok_acknowledge: "pair_ok q \<Longrightarrow> pair_ok (snd (acknowledge q))"
  using pair_ok_step [of q PAck] by (simp add: acknowledge_def split_beta)

lemma master_pulse_once:
  assumes ok: "pair_ok q" and m: "isr (master q) = 0" "irr (master q) = bit_mask irq" "asserted (master q) = 0"
    and irq: "irq < 8" "irq \<noteq> cascade_pin q" "\<not> has_bit (imr (master q)) irq"
  shows "fst (acknowledge (snd (acknowledge q))) = None"
proof (rule nothing_pending [OF pair_ok_acknowledge [OF ok]])
  have "highest_pending (master q) (master_cascade_exempt q) = Some irq"
    using lone_request [of "master q" irq "master_cascade_exempt q"] ok m irq by (simp add: pair_ok_def)
  then show "irr (master (snd (acknowledge q))) = 0"
    using irq serviced_pulse [of "master q" irq] m
    by (simp add: acknowledge_def acknowledge_with_irq_def master_pending_def Let_def cascade_pin_def)
qed

lemma slave_pulse_once:
  assumes ok: "pair_ok q" and wired: "has_bit (icw3 (master q)) (cascade_pin q)"
    and m: "isr (master q) = 0" "irr (master q) = bit_mask (cascade_pin q)" "asserted (master q) = 0"
      "\<not> has_bit (imr (master q)) (cascade_pin q)"
    and s: "isr (slave q) = 0" "irr (slave q) = bit_mask i" "asserted (slave q) = 0" "i < 8" "\<not> has_bit (imr (slave q)) i"
  shows "fst (acknowledge (snd (acknowledge q))) = None"
proof (rule nothing_pending [OF pair_ok_acknowledge [OF ok]])
  let ?pin = "cascade_pin q"
  let ?m = "set_in_service (master q) ?pin" and ?s = "set_in_service (slave q) i"
  have p: "highest_pending (master q) (master_cascade_exempt q) = Some ?pin" "highest_pending (slave q) None = Some i"
    using lone_request [of "master q" ?pin "master_cascade_exempt q"] lone_request [of "slave q" i None] ok m s
      cascade_pin_less [of q] by (simp_all add: pair_ok_def)
  have pin: "cascade_pin (q\<lparr>master := ?m, slave := ?s\<rparr>) = ?pin" "cascade_pin (q\<lparr>master := ?m\<rparr>) = ?pin"
    by (simp_all add: cascade_pin_def)
  have "pic_ok ?s" using ok s by (simp add: pair_ok_def pic_ok_set_in_service)
  then have n: "highest_pending ?s None = None" using serviced_pulse [of "slave q" i] s no_request by simp
  have "snd (acknowledge q) = sync_cascade (q\<lparr>master := ?m, slave := ?s\<rparr>)"
    using p pin wired by (simp add: acknowledge_def acknowledge_with_irq_def master_pending_def Let_def)
  then show "irr (master (snd (acknowledge q))) = 0"
    using serviced_pulse [of "master q" ?pin] m pin n by (simp add: sync_cascade_def set_input_level_def Let_def)
qed

lemma deliver_held_slave:
  assumes ok: "pair_ok q" and quiet: "pair_quiet q" and wired: "has_bit (icw3 (master q)) (cascade_pin q)"
    and i: "i < 8"
  shows "fst (acknowledge (sync_cascade (q\<lparr>slave := set_input_level (slave q) i True\<rparr>))) =
    (if has_bit (imr (slave q)) i \<or> has_bit (imr (master q)) (cascade_pin q) then None
     else Some (vector (slave q) i))"
proof -
  let ?s = "set_input_level (slave q) i True"
  let ?q = "sync_cascade (q\<lparr>slave := ?s\<rparr>)"
  have pq: "pic_quiet (slave q)" "pic_quiet (master q)" using quiet by (simp_all add: pair_quiet_def)
  have q: "slave ?q = ?s" "master ?q = set_input_level (master q) (cascade_pin q) (\<not> has_bit (imr (slave q)) i)"
    using lone_request [of ?s i None] ok i quiet_raise [OF pq(1)]
    by (simp_all add: sync_cascade_def pair_ok_def cascade_pin_def)
  have pin: "cascade_pin ?q = cascade_pin q" by (simp add: q cascade_pin_def)
  have ok': "pair_ok ?q" using ok by (simp only: pair_ok_sync) (simp add: pair_ok_def)
  show ?thesis
  proof (cases "has_bit (imr (slave q)) i")
    case True
    then have "irr (master ?q) = 0" by (simp add: q quiet_raise [OF pq(2)])
    then show ?thesis
      using True ok' no_request [of "master ?q" "master_cascade_exempt ?q"]
      by (simp add: acknowledge_def acknowledge_with_irq_def master_pending_def pair_ok_def)
  next
    case False
    show ?thesis
      using False deliver_slave [OF ok', of i] wired i quiet_raise [OF pq(1)] quiet_raise [OF pq(2)]
      by (simp add: q pin vector_def)
  qed
qed

section \<open>The state that matters\<close>

text \<open>
  The canonical section drops the bits that it holds to be without effect. The normal form below keeps
  what it keeps, and keeps the rotate-in-automatic-EOI flag also while an initialization sequence
  is under way: then the flag may still become effective.
\<close>

definition pic_norm :: "bool \<Rightarrow> pic \<Rightarrow> pic" where
  "pic_norm as_master p =
    p\<lparr>icw2 := icw2 p AND 0xf8, icw3 := (if as_master then icw3 p else icw3 p AND 0x07),
      expect_icw4 := ((init p = ExpectIcw2 \<or> init p = ExpectIcw3) \<and> expect_icw4 p),
      single := (init p = ExpectIcw2 \<and> single p), buffered := False, is_master := False,
      sfnm := (as_master \<and> sfnm p), auto_rotate := ((auto_eoi p \<or> init p \<noteq> Ready) \<and> auto_rotate p)\<rparr>"

definition pair_norm :: "pic_pair \<Rightarrow> pic_pair" where
  "pair_norm q = \<lparr>master = pic_norm True (master q), slave = pic_norm False (slave q)\<rparr>"

lemma pic_norm_fields [simp]:
  "irr (pic_norm b p) = irr p" "asserted (pic_norm b p) = asserted p" "isr (pic_norm b p) = isr p"
  "imr (pic_norm b p) = imr p" "icw2 (pic_norm b p) = icw2 p AND 0xf8"
  "icw3 (pic_norm b p) = (if b then icw3 p else icw3 p AND 0x07)" "init (pic_norm b p) = init p"
  "level_triggered (pic_norm b p) = level_triggered p" "auto_eoi (pic_norm b p) = auto_eoi p"
  "read_isr (pic_norm b p) = read_isr p" "poll_pending (pic_norm b p) = poll_pending p"
  "special_mask (pic_norm b p) = special_mask p" "sfnm (pic_norm b p) = (b \<and> sfnm p)"
  "lowest (pic_norm b p) = lowest p"
  by (simp_all add: pic_norm_def)

lemma pic_norm_idem [simp]: "pic_norm b (pic_norm b p) = pic_norm b p"
  by (cases p) (auto simp: pic_norm_def and.assoc)

lemma pending_loop_cong:
  "isr p = isr p' \<Longrightarrow> special_mask p = special_mask p' \<Longrightarrow> pending_loop p ex rq xs = pending_loop p' ex rq xs"
  by (induction xs) auto

lemma highest_pending_cong:
  assumes "irr p = irr r" "imr p = imr r" "isr p = isr r" "special_mask p = special_mask r" "lowest p = lowest r"
  shows "highest_pending p ex = highest_pending r ex"
proof -
  have "priority_order p = priority_order r" using assms by (simp add: priority_order_def)
  then show ?thesis
    unfolding highest_pending_def assms(1,2) by (simp only:) (rule pending_loop_cong [OF assms(3,4)])
qed

lemma highest_pending_norm [simp]: "highest_pending (pic_norm b p) ex = highest_pending p ex"
  by (rule highest_pending_cong) simp_all

lemma highest_in_service_norm [simp]: "highest_in_service (pic_norm b p) = highest_in_service p"
  by (simp add: highest_in_service_def priority_order_def)

lemma vector_norm [simp]: "vector (pic_norm b p) i = vector p i"
  by (simp add: vector_def and.assoc)

lemma request_norm [simp]: "pic_request (pic_norm b p) i = pic_norm b (pic_request p i)"
  by (cases p) (simp add: pic_norm_def pic_request_def)

lemma set_input_level_norm [simp]: "set_input_level (pic_norm b p) i on = pic_norm b (set_input_level p i on)"
  by (cases p) (simp add: pic_norm_def set_input_level_def Let_def)

lemma clear_in_service_norm [simp]: "clear_in_service (pic_norm b p) i = pic_norm b (clear_in_service p i)"
  by (cases p) (simp add: pic_norm_def clear_in_service_def Let_def)

lemma set_lowest_norm: "(pic_norm b p)\<lparr>lowest := l\<rparr> = pic_norm b (p\<lparr>lowest := l\<rparr>)"
  by (cases p) (simp add: pic_norm_def)

lemma set_in_service_norm [simp]: "set_in_service (pic_norm b p) i = pic_norm b (set_in_service p i)"
  by (cases p) (auto simp: pic_norm_def set_in_service_def clear_in_service_def Let_def)

lemma set_poll_norm: "(pic_norm b p)\<lparr>poll_pending := c\<rparr> = pic_norm b (p\<lparr>poll_pending := c\<rparr>)"
  by (cases p) (simp add: pic_norm_def)

lemma read_port_norm:
  "pic_read_port (pic_norm b p) port ex = (let (v, p') = pic_read_port p port ex in (v, pic_norm b p'))"
  by (simp add: pic_read_port_def poll_def set_poll_norm split: option.split)

lemma end_of_interrupt_norm: "pic_norm b (end_of_interrupt (pic_norm b p) v) = pic_norm b (end_of_interrupt p v)"
proof -
  have "pic_norm b ((pic_norm b p)\<lparr>auto_rotate := r\<rparr>) = pic_norm b (p\<lparr>auto_rotate := r\<rparr>)" for r
    by (cases p) (auto simp: pic_norm_def and.assoc)
  then show ?thesis
    by (simp add: end_of_interrupt_def Let_def set_lowest_norm split: option.split)
qed

lemma write_port_norm: "pic_norm b (pic_write_port (pic_norm b p) port v) = pic_norm b (pic_write_port p port v)"
proof -
  have "pic_norm b (write_icw1 (pic_norm b p) v) = pic_norm b (write_icw1 p v)"
    by (cases p) (auto simp: pic_norm_def write_icw1_def Let_def and.assoc)
  moreover have "pic_norm b (write_ocw3 (pic_norm b p) v) = pic_norm b (write_ocw3 p v)"
    by (cases p) (auto simp: pic_norm_def write_ocw3_def and.assoc)
  moreover have "pic_norm b (write_data_port (pic_norm b p) v) = pic_norm b (write_data_port p v)"
    by (cases p; cases "init p") (auto simp: pic_norm_def write_data_port_def and.assoc)
  ultimately show ?thesis by (simp add: pic_write_port_def end_of_interrupt_norm)
qed

lemma cascade_pin_norm [simp]: "cascade_pin (pair_norm q) = cascade_pin q"
  by (simp add: cascade_pin_def pair_norm_def and.assoc)

lemma exempt_norm [simp]: "master_cascade_exempt (pair_norm q) = master_cascade_exempt q"
  unfolding master_cascade_exempt_def cascade_pin_norm by (simp add: pair_norm_def)

lemma pair_norm_sel [simp]:
  "master (pair_norm q) = pic_norm True (master q)" "slave (pair_norm q) = pic_norm False (slave q)"
  by (simp_all add: pair_norm_def)

lemma pair_norm_idem [simp]: "pair_norm (pair_norm q) = pair_norm q"
  by (simp add: pair_norm_def)

lemma pair_norm_update:
  "(pair_norm q)\<lparr>master := pic_norm True m\<rparr> = pair_norm (q\<lparr>master := m\<rparr>)"
  "(pair_norm q)\<lparr>slave := pic_norm False s\<rparr> = pair_norm (q\<lparr>slave := s\<rparr>)"
  by (simp_all add: pair_norm_def)

lemma sync_norm: "sync_cascade (pair_norm q) = pair_norm (sync_cascade q)"
  by (simp add: sync_cascade_def pair_norm_update)

lemma sync_cong: "pair_norm x = pair_norm y \<Longrightarrow> pair_norm (sync_cascade x) = pair_norm (sync_cascade y)"
  by (simp add: sync_norm [symmetric])

lemma drop_pin_cong:
  assumes "pair_norm x = pair_norm y"
  shows "pair_norm (x\<lparr>master := set_input_level (master x) i on\<rparr>) =
    pair_norm (y\<lparr>master := set_input_level (master y) i on\<rparr>)"
proof -
  have "pic_norm True (set_input_level (master z) i on) = set_input_level (master (pair_norm z)) i on" for z
    by simp
  then show ?thesis using assms unfolding pair_norm_def by (simp del: set_input_level_norm)
qed

lemma pin_cong: "pair_norm x = pair_norm y \<Longrightarrow> cascade_pin x = cascade_pin y"
  by (metis cascade_pin_norm)

text \<open>Every operation answers alike on a state and on its normal form, and leaves states with the same
  normal form.\<close>

lemma pair_write_norm:
  "fst (pair_write_port (pair_norm q) port v) = fst (pair_write_port q port v)
   \<and> pair_norm (snd (pair_write_port (pair_norm q) port v)) = pair_norm (snd (pair_write_port q port v))"
proof (cases "port = 0xa0 \<or> port = 0xa1")
  case True
  then have ports: "\<not> (port = 0x20 \<or> port = 0x21)" by auto
  let ?f = "\<lambda>x. if cascade_pin q \<noteq> cascade_pin x
    then x\<lparr>master := set_input_level (master x) (cascade_pin q) False\<rparr> else x"
  let ?a = "(pair_norm q)\<lparr>slave := pic_write_port (pic_norm False (slave q)) port v\<rparr>"
  let ?b = "q\<lparr>slave := pic_write_port (slave q) port v\<rparr>"
  have s: "pair_norm ?a = pair_norm ?b" by (simp add: pair_norm_def write_port_norm)
  have n: "pair_norm (?f ?a) = pair_norm (?f ?b)"
  proof (cases "cascade_pin q = cascade_pin ?b")
    case True
    then show ?thesis unfolding pin_cong [OF s] using s by (simp only: simp_thms if_False)
  next
    case False
    then show ?thesis unfolding pin_cong [OF s] using drop_pin_cong [OF s] by (simp only: simp_thms if_True)
  qed
  have w: "pair_write_port (pair_norm q) port v = (True, sync_cascade (?f ?a))"
    "pair_write_port q port v = (True, sync_cascade (?f ?b))"
    unfolding pair_write_port_def Let_def cascade_pin_norm pair_norm_sel using True ports by (simp_all only: if_True if_False)
  show ?thesis unfolding w fst_conv snd_conv by (intro conjI refl) (rule sync_cong [OF n])
next
  case False
  then show ?thesis by (auto simp: pair_write_port_def) (simp_all add: pair_norm_def write_port_norm)
qed

lemma pair_read_norm:
  "pair_read_port (pair_norm q) port = (let (r, q') = pair_read_port q port in (r, pair_norm q'))"
  by (simp add: pair_read_port_def read_port_norm case_prod_beta pair_norm_update sync_norm)

lemma pair_request_norm: "pair_request (pair_norm q) irq = pair_norm (pair_request q irq)"
  by (simp add: pair_request_def pair_norm_update)

lemma set_irq_level_norm: "set_irq_level (pair_norm q) irq on = pair_norm (set_irq_level q irq on)"
  by (simp add: set_irq_level_def pair_norm_update sync_norm)

lemma acknowledge_norm:
  "acknowledge_with_irq (pair_norm q) = (let (r, q') = acknowledge_with_irq q in (r, pair_norm q'))"
proof (cases "master_pending q")
  case None
  then show ?thesis by (simp add: acknowledge_with_irq_def master_pending_def)
next
  case (Some irq)
  let ?q = "q\<lparr>master := set_in_service (master q) irq\<rparr>"
  have pending: "master_pending (pair_norm q) = Some irq" using Some by (simp add: master_pending_def)
  have n: "(pair_norm q)\<lparr>master := set_in_service (master (pair_norm q)) irq\<rparr> = pair_norm ?q"
    by (simp add: pair_norm_update)
  have s: "(pair_norm x)\<lparr>slave := set_in_service (slave (pair_norm x)) i\<rparr> =
      pair_norm (x\<lparr>slave := set_in_service (slave x) i\<rparr>)" for x i
    by (simp add: pair_norm_update)
  show ?thesis
    unfolding acknowledge_with_irq_def pending Some option.case Let_def n s sync_norm cascade_pin_norm
    by (simp add: Let_def sync_norm split: option.split)
qed

lemma pic_step_norm:
  "fst (pic_step (pair_norm q) op) = fst (pic_step q op)
   \<and> pair_norm (snd (pic_step (pair_norm q) op)) = pair_norm (snd (pic_step q op))"
  using pair_write_norm
  by (cases op) (simp_all add: case_prod_beta pair_read_norm pair_request_norm set_irq_level_norm acknowledge_norm)

lemma pic_run_norm:
  "pair_norm x = pair_norm y \<Longrightarrow>
    fst (pic_run x ops) = fst (pic_run y ops) \<and> pair_norm (snd (pic_run x ops)) = pair_norm (snd (pic_run y ops))"
proof (induction ops arbitrary: x y)
  case (Cons op ops)
  have "fst (pic_step x op) = fst (pic_step y op)"
    and "pair_norm (snd (pic_step x op)) = pair_norm (snd (pic_step y op))"
    using pic_step_norm [of x op] pic_step_norm [of y op] Cons.prems by auto
  then show ?case
    using Cons.IH [of "snd (pic_step x op)" "snd (pic_step y op)"] by (simp add: case_prod_beta)
qed simp

lemma init_stage_tag_inject: "init_stage_tag a = init_stage_tag b \<longleftrightarrow> a = b"
  by (cases a; cases b) simp_all

lemma of_bool8_inject [simp]: "of_bool8 a = of_bool8 b \<longleftrightarrow> a = b"
  by (cases a; cases b) (simp_all add: of_bool8_def)

lemma canonical_pic_norm:
  assumes "fields_bytes (write_canonical_pic p c b) = fields_bytes (write_canonical_pic r d b)"
    and "init p = Ready"
  shows "c = d \<and> pic_norm b (p\<lparr>icw3 := x\<rparr>) = pic_norm b (r\<lparr>icw3 := x\<rparr>) \<and> init r = Ready"
  using assms
  by (cases p; cases r) (auto simp: write_canonical_pic_def fields_bytes_def pic_norm_def init_stage_tag_inject)

lemma fields_bytes_append [simp]: "fields_bytes (a @ b) = fields_bytes a @ fields_bytes b"
  by (simp add: fields_bytes_def)

lemma canonical_pic_length: "length (fields_bytes (write_canonical_pic p c b)) = 17"
  by (simp add: fields_bytes_def write_canonical_pic_def)

lemma payload_norm:
  assumes same: "fields_bytes (pic_payload x) = fields_bytes (pic_payload y)"
    and ready: "init (master x) = Ready" "init (slave x) = Ready"
  shows "pair_norm x = pair_norm y"
proof -
  have m: "fields_bytes (write_canonical_pic (master x) (icw3 (master x)) True) =
      fields_bytes (write_canonical_pic (master y) (icw3 (master y)) True)"
    and s: "fields_bytes (write_canonical_pic (slave x) (cascade_pin x) False) =
      fields_bytes (write_canonical_pic (slave y) (cascade_pin y) False)"
    using same by (auto simp: pic_payload_def append_eq_append_conv canonical_pic_length)
  have "icw3 (master x) = icw3 (master y)" "cascade_pin x = cascade_pin y"
    using canonical_pic_norm [OF m ready(1)] canonical_pic_norm [OF s ready(2)] by blast+
  moreover have "pic_norm True ((master x)\<lparr>icw3 := icw3 (master x)\<rparr>) = pic_norm True ((master y)\<lparr>icw3 := icw3 (master x)\<rparr>)"
    and "pic_norm False ((slave x)\<lparr>icw3 := icw3 (slave x)\<rparr>) = pic_norm False ((slave y)\<lparr>icw3 := icw3 (slave x)\<rparr>)"
    using canonical_pic_norm [OF m ready(1)] canonical_pic_norm [OF s ready(2)] by blast+
  moreover have "pic_norm False ((slave y)\<lparr>icw3 := icw3 (slave x)\<rparr>) = pic_norm False (slave y)"
    if "icw3 (slave x) AND 7 = icw3 (slave y) AND 7"
    using that by (cases "slave y") (simp add: pic_norm_def)
  moreover have "(master x)\<lparr>icw3 := c\<rparr> = master x" if "icw3 (master x) = c" for c
    using that by (cases "master x") simp
  ultimately show ?thesis
    by (simp add: pair_norm_def cascade_pin_def)
qed

section \<open>Properties\<close>

text \<open>C8: The resolver finds the interrupt the 8259A would. It answers level \<open>i\<close> exactly when \<open>i\<close> is
  requested, unmasked and not itself held back by its in-service bit, and every level that outranks
  it in the rotated order either has no unmasked request or, in special mask mode only, is in
  service. Outside special mask mode an in-service level holds back everything below it.\<close>

theorem priority_resolution:
  assumes "pic_ok p"
  shows "highest_pending p ex = Some i \<longleftrightarrow>
    i < 8 \<and> requested p i \<and> \<not> blocked p ex i
    \<and> (\<forall>j. j < 8 \<and> outranks p j i \<longrightarrow> (if blocked p ex j then special_mask p else \<not> requested p j))"
  by (rule highest_pending_iff [OF assms])

theorem priority_resolution_witness:
  "highest_pending (pic_default\<lparr>irr := 0x14, isr := 0x80, lowest := 3\<rparr>) None = Some 4"
proof -
  let ?p = "pic_default\<lparr>irr := 0x14, isr := 0x80, lowest := 3\<rparr>"
  have ok: "pic_ok ?p" by (simp add: pic_ok_def)
  have "\<not> outranks ?p j 4" if "j < 8" for j
    using less8_cases [OF that] by (auto simp: outranks_def)
  moreover have "requested ?p 4" "\<not> blocked ?p None 4" "(4::u8) < 8"
    by (simp_all add: requested_def blocked_def pic_default_def has_bit_def bit_mask_def)
  ultimately show ?thesis unfolding priority_resolution [OF ok] by blast
qed

text \<open>C10: Interrupt nesting is a stack. The in-service register, read in priority order, is a stack
  of levels: acknowledging the pending level pushes it, the non-specific end-of-interrupt command
  pops the top, and whatever is pending outranks every level on the stack.  This is the fully
  nested mode: special mask mode is off throughout, and automatic EOI is off for the push.\<close>

theorem service_stack_refinement:
  assumes "pic_ok p" and "\<not> special_mask p"
  shows "service_stack (end_of_interrupt p 0x20) = tl (service_stack p)
    \<and> (highest_pending p None = Some i \<and> \<not> auto_eoi p \<longrightarrow>
         service_stack (set_in_service p i) = i # service_stack p)
    \<and> (highest_pending p None = Some i \<and> j \<in> set (service_stack p) \<longrightarrow> outranks p i j)"
  using service_stack_pop service_stack_push service_stack_top assms by blast

theorem service_stack_refinement_witness:
  "service_stack (set_in_service (pic_default\<lparr>irr := 0x02, isr := 0x20, lowest := 7\<rparr>) 1) = [1, 5]"
  using service_stack_refinement [of "pic_default\<lparr>irr := 0x02, isr := 0x20, lowest := 7\<rparr>" 1]
  by (simp add: pic_ok_def pic_default_def highest_pending_def priority_order_def has_bit_def bit_mask_def
      service_stack_def)

text \<open>C11: Requests reach the processor through the cascade. With nothing else requested or in service
  and the slave wired to its master pin, raising line \<open>irq\<close> makes the next acknowledge return the
  vector of exactly this line when \<open>deliverable\<close> says the line is unmasked, and nothing when it says
  it is masked; a pulse on a deliverable line is acknowledged with the same vector, and only once.\<close>

theorem line_delivery:
  assumes ok: "pair_ok q" and quiet: "pair_quiet q" and wired: "has_bit (icw3 (master q)) (cascade_pin q)"
    and irq: "irq < 16" "irq \<noteq> cascade_pin q"
  shows "fst (acknowledge (set_irq_level q irq True)) =
      (if deliverable q irq then Some (line_vector q irq) else None)
    \<and> (deliverable q irq \<longrightarrow> fst (acknowledge (pair_request q irq)) = Some (line_vector q irq)
         \<and> fst (acknowledge (snd (acknowledge (pair_request q irq)))) = None)"
proof (cases "irq < 8")
  case True
  let ?q = "\<lambda>m. q\<lparr>master := m\<rparr>"
  have pq: "pic_quiet (master q)" using quiet by (simp add: pair_quiet_def)
  have "fst (acknowledge (?q (set_input_level (master q) irq True))) =
      (if has_bit (imr (master q)) irq then None else Some (vector (master q) irq))"
    and "fst (acknowledge (?q (pic_request (master q) irq))) =
      (if has_bit (imr (master q)) irq then None else Some (vector (master q) irq))"
    using deliver_master [of "?q _" irq] ok True irq quiet_raise [OF pq]
    by (simp_all add: pair_ok_def cascade_pin_def vector_def)
  moreover have "\<not> has_bit (imr (master q)) irq \<Longrightarrow> fst (acknowledge (snd (acknowledge (?q (pic_request (master q) irq))))) = None"
    using master_pulse_once [of "?q (pic_request (master q) irq)" irq] ok True irq quiet_raise [OF pq] pq
    by (simp add: pair_ok_def cascade_pin_def pic_quiet_def) (simp add: pic_request_def)
  ultimately show ?thesis
    using True by (simp add: set_irq_level_def pair_request_def deliverable_def irq_unmasked_def line_vector_def)
next
  case False
  let ?q = "pair_request q irq"
  have i: "irq - 8 < 8" using False irq(1) by (rule slave_line [rotated])
  have pq: "pic_quiet (slave q)" "pic_quiet (master q)" using quiet by (simp_all add: pair_quiet_def)
  have q: "slave ?q = pic_request (slave q) (irq - 8)" "master ?q = pic_request (master q) (cascade_pin q)"
    using False irq by (simp_all add: pair_request_def)
  have pin: "cascade_pin ?q = cascade_pin q" by (simp add: q cascade_pin_def pic_request_def)
  have "pair_ok ?q" using ok by (simp add: pair_ok_def q)
  then have "fst (acknowledge ?q) =
      (if has_bit (imr (master q)) (cascade_pin q) then None
       else Some (vector (slave q) (if has_bit (imr (slave q)) (irq - 8) then 7 else irq - 8)))"
    using deliver_slave [of ?q "irq - 8"] i wired quiet_raise [OF pq(1)] quiet_raise [OF pq(2)]
    by (simp add: q pin vector_def split del: if_split cong: if_cong)
  moreover have "deliverable q irq \<Longrightarrow> fst (acknowledge (snd (acknowledge ?q))) = None"
    using slave_pulse_once [of ?q "irq - 8"] \<open>pair_ok ?q\<close> i wired pq False
    by (simp add: q pin pic_quiet_def pic_request_def deliverable_def irq_unmasked_def)
  ultimately show ?thesis
    using False irq deliver_held_slave [OF ok quiet wired i]
    by (simp add: set_irq_level_def deliverable_def irq_unmasked_def line_vector_def)
qed

definition at_pair :: pic_pair where
  "at_pair = \<lparr>master = pic_default\<lparr>icw2 := 0x08, icw3 := 0x04, lowest := 7\<rparr>,
              slave = pic_default\<lparr>icw2 := 0x70, icw3 := 0x02, lowest := 7\<rparr>\<rparr>"

lemma at_pair_facts: "pair_ok at_pair" "pair_quiet at_pair" "has_bit (icw3 (master at_pair)) (cascade_pin at_pair)"
  "cascade_pin at_pair = 2"
  by (simp_all add: at_pair_def pair_ok_def pic_ok_def pair_quiet_def pic_quiet_def pic_default_def
      cascade_pin_def has_bit_def bit_mask_def)

theorem line_delivery_witness:
  "fst (acknowledge (set_irq_level at_pair 12 True)) = Some 0x74"
  using line_delivery [OF at_pair_facts(1-3), of 12]
  by (simp add: at_pair_facts(4))
    (simp add: at_pair_def pic_default_def deliverable_def irq_unmasked_def line_vector_def vector_def)

text \<open>C36: A pulse on a masked slave line still interrupts the processor. From a quiet pair, with the
  cascade pin unmasked, \<open>request\<close> on a slave line that the slave masks is acknowledged with the
  spurious level-seven vector of the slave, although \<open>deliverable\<close> denies that an edge on this line
  can reach the processor; the held-line path of the same device pin stays silent.\<close>

theorem masked_pulse_spurious:
  assumes ok: "pair_ok q" and quiet: "pair_quiet q" and wired: "has_bit (icw3 (master q)) (cascade_pin q)"
    and irq: "8 \<le> irq" "irq < 16" and masked: "\<not> irq_unmasked q irq"
    and pin: "\<not> has_bit (imr (master q)) (cascade_pin q)"
  shows "\<not> deliverable q irq
    \<and> fst (acknowledge (pair_request q irq)) = Some (vector (slave q) 7)
    \<and> fst (acknowledge (set_irq_level q irq True)) = None"
proof -
  let ?q = "pair_request q irq"
  have nl: "\<not> irq < 8" using irq(1) by (simp add: not_less)
  have i: "irq - 8 < 8" using irq(2) nl by (rule slave_line)
  have pq: "pic_quiet (slave q)" "pic_quiet (master q)" using quiet by (simp_all add: pair_quiet_def)
  have q: "slave ?q = pic_request (slave q) (irq - 8)" "master ?q = pic_request (master q) (cascade_pin q)"
    using nl irq by (simp_all add: pair_request_def)
  have cp: "cascade_pin ?q = cascade_pin q" by (simp add: q cascade_pin_def)
  have m: "has_bit (imr (slave q)) (irq - 8)" using masked nl by (simp add: irq_unmasked_def)
  have "pair_ok ?q" using ok by (simp add: pair_ok_def q)
  then have "fst (acknowledge ?q) = Some (vector (slave q) 7)"
    using deliver_slave [of ?q "irq - 8"] i wired pin m quiet_raise [OF pq(1)] quiet_raise [OF pq(2)]
    by (simp add: q cp vector_def)
  then show ?thesis
    using nl irq m masked deliver_held_slave [OF ok quiet wired i]
    by (simp add: set_irq_level_def deliverable_def)
qed

theorem masked_pulse_spurious_witness:
  "fst (acknowledge (pair_request (at_pair\<lparr>slave := (slave at_pair)\<lparr>imr := 0x01\<rparr>\<rparr>) 8)) = Some 0x77"
  using masked_pulse_spurious [of "at_pair\<lparr>slave := (slave at_pair)\<lparr>imr := 0x01\<rparr>\<rparr>" 8]
  by (simp add: at_pair_def pair_ok_def pic_ok_def pair_quiet_def pic_quiet_def pic_default_def
      cascade_pin_def has_bit_def bit_mask_def irq_unmasked_def vector_def)

text \<open>C12: The canonical PIC section is complete outside initialization. Two pairs with the same payload
  bytes, neither chip of the first in an initialization sequence, answer every sequence of port
  accesses, requests, level changes and acknowledges alike, and their payload is 34 bytes.\<close>

theorem canonical_pic_complete:
  assumes "fields_bytes (pic_payload x) = fields_bytes (pic_payload y)"
    and "init (master x) = Ready" and "init (slave x) = Ready"
  shows "fst (pic_run x ops) = fst (pic_run y ops) \<and> length (fields_bytes (pic_payload x)) = 34"
  using pic_run_norm [OF payload_norm [OF assms]] canonical_pic_length
  by (simp add: pic_payload_def)

theorem canonical_pic_complete_witness:
  "fst (pic_run at_pair [PRequest 12, PAck, PRead 0xa0]) =
   fst (pic_run (at_pair\<lparr>slave := (slave at_pair)\<lparr>icw3 := 0xf2, auto_rotate := True, sfnm := True\<rparr>\<rparr>)
      [PRequest 12, PAck, PRead 0xa0])"
  using canonical_pic_complete [of at_pair
      "at_pair\<lparr>slave := (slave at_pair)\<lparr>icw3 := 0xf2, auto_rotate := True, sfnm := True\<rparr>\<rparr>"
      "[PRequest 12, PAck, PRead 0xa0]"]
  by (simp add: at_pair_def pic_default_def pic_payload_def write_canonical_pic_def cascade_pin_def)

lemma pending_of_two:
  assumes "pic_ok p" and "isr p = 0" and "imr p = 0" and "irr p = bit_mask i OR bit_mask j"
    and "i < 8" and "j < 8" and "i = j \<or> outranks p i j"
  shows "highest_pending p None = Some i"
  using assms outranks_asym [of p i j] outranks_asym [of p i i]
  by (auto simp: highest_pending_iff requested_def blocked_def has_bit_mask)

text \<open>The first three words of the initialization sequence, after which the master waits for ICW4.\<close>

definition init_started :: "pic_pair \<Rightarrow> u8 \<Rightarrow> u8 \<Rightarrow> pic_pair" where
  "init_started q v c = snd (pic_run q [PWrite 0x20 0x11, PWrite 0x21 v, PWrite 0x21 c])"

lemma init_started_master:
  "init_started q v c = q\<lparr>master := (master q)\<lparr>isr := 0, imr := 0, read_isr := False, lowest := 7, auto_rotate := False,
     expect_icw4 := True, single := False, level_triggered := False, irr := 0, icw2 := v, icw3 := c, init := ExpectIcw4\<rparr>\<rparr>"
  by (simp add: init_started_def pair_write_port_def pic_write_port_def write_icw1_def write_data_port_def test_def Let_def)

lemma rotated_outranks:
  assumes "i < 8" and "j < 8" and "i \<noteq> j" and "lowest p = i"
  shows "outranks p j i"
  using less8_cases [OF assms(1)] less8_cases [OF assms(2)] assms(3,4) by (elim disjE) (simp_all add: outranks_def)

lemma reset_outranks:
  assumes "i < j" and "j < 8" and "lowest p = 7"
  shows "outranks p i j"
proof -
  have "i < 8" using assms(1,2) by (rule less_trans)
  from less8_cases [OF this] less8_cases [OF assms(2)] assms(1,3) show ?thesis by (elim disjE) (simp_all add: outranks_def)
qed

lemma ack_level:
  assumes "highest_pending (master q) None = Some k" and "\<not> sfnm (master q)" and "k \<noteq> cascade_pin q"
  shows "acknowledge_with_irq q = (Some (vector (set_in_service (master q) k) k, k), q\<lparr>master := set_in_service (master q) k\<rparr>)"
  using assms by (simp add: acknowledge_with_irq_def master_pending_def master_cascade_exempt_def cascade_pin_def Let_def)

lemma auto_eoi_service:
  assumes "isr p = 0" and "auto_eoi p" and "\<not> level_triggered p"
  shows "set_in_service p i = p\<lparr>irr := irr p AND NOT (bit_mask i), lowest := (if auto_rotate p then i else lowest p)\<rparr>"
  using assms by (simp add: set_in_service_def clear_in_service_def Let_def)

lemma rotation_shows:
  assumes p: "isr (master q) = 0" "imr (master q) = 0" "irr (master q) = 0" "lowest (master q) = 7"
      "\<not> level_triggered (master q)" "init (master q) = ExpectIcw4" "icw2 (master q) = v"
    and ij: "i < j" "j < 8" and pin: "cascade_pin q \<notin> {i, j}" and k: "k = (if auto_rotate (master q) then j else i)"
  shows "last (fst (pic_run q [PWrite 0x21 0x02, PRequest i, PAck, PRequest i, PRequest j, PAck]))
    = AAck (Some (v AND 0xf8 OR k, k))"
proof -
  have i: "i < 8" using ij by (rule less_trans)
  have away: "i \<noteq> cascade_pin q" "k \<noteq> cascade_pin q" using pin k by auto
  define m1 where "m1 = (master q)\<lparr>auto_eoi := True, buffered := False, is_master := False, sfnm := False, init := Ready\<rparr>"
  have w: "pair_write_port q 0x21 0x02 = (True, q\<lparr>master := m1\<rparr>)"
    by (simp add: pair_write_port_def pic_write_port_def write_data_port_def p test_def m1_def)
  define m2 where "m2 = m1\<lparr>irr := bit_mask i\<rparr>"
  define m3 where "m3 = m1\<lparr>lowest := (if auto_rotate (master q) then i else 7)\<rparr>"
  define m4 where "m4 = m3\<lparr>irr := bit_mask i OR bit_mask j\<rparr>"
  have f: "isr m1 = 0" "imr m1 = 0" "irr m1 = 0" "lowest m1 = 7" "\<not> level_triggered m1" "auto_eoi m1" "\<not> sfnm m1"
      "auto_rotate m1 = auto_rotate (master q)" "icw2 m1 = v"
    using p by (simp_all add: m1_def)
  have pins: "cascade_pin (q\<lparr>master := m\<rparr>) = cascade_pin q" for m by (simp add: cascade_pin_def)
  have "highest_pending m2 None = Some i"
    using i f by (intro pending_of_two [where j = i]) (simp_all add: m2_def pic_ok_def)
  moreover have "set_in_service m2 i = m3"
    using f by (subst auto_eoi_service) (simp_all add: m2_def m3_def)
  ultimately have a1: "acknowledge_with_irq (q\<lparr>master := m2\<rparr>) = (Some (vector m3 i, i), q\<lparr>master := m3\<rparr>)"
    using away(1) f ack_level [of "q\<lparr>master := m2\<rparr>" i] by (simp add: pins m2_def)
  have "highest_pending m4 None = Some k"
  proof (cases "auto_rotate (master q)")
    case True
    then show ?thesis
      using i ij f k rotated_outranks [OF i ij(2), of m4]
      by (intro pending_of_two [where j = i]) (simp_all add: m4_def m3_def pic_ok_def or.commute)
  next
    case False
    then show ?thesis
      using i ij f k reset_outranks [OF ij, of m4]
      by (intro pending_of_two [where j = j]) (simp_all add: m4_def m3_def pic_ok_def)
  qed
  then have a2: "fst (acknowledge_with_irq (q\<lparr>master := m4\<rparr>)) = Some (v AND 0xf8 OR k, k)"
    using away(2) f ack_level [of "q\<lparr>master := m4\<rparr>" k]
    by (auto simp: pins m4_def m3_def vector_def set_in_service_def clear_in_service_def Let_def)
  have r: "pair_request (q\<lparr>master := m1\<rparr>) i = q\<lparr>master := m2\<rparr>"
    "pair_request (pair_request (q\<lparr>master := m3\<rparr>) i) j = q\<lparr>master := m4\<rparr>"
    using i ij(2) f by (simp_all add: pair_request_def pic_request_def m2_def m4_def) (simp_all add: m3_def)
  show ?thesis using a2 by (simp add: w r a1 case_prod_beta)
qed

text \<open>In the middle of an initialization sequence the canonical section loses state.  Take any pair
  whose master is not in automatic-EOI mode, write ICW1, ICW2 and ICW3 to the master, and, in one of
  two copies, the command that sets rotation in automatic-EOI mode.  The two have the same payload
  bytes, yet after the same ICW4 with automatic EOI, line \<open>i\<close> requested and acknowledged, and lines
  \<open>i < j\<close> requested together, one acknowledges line \<open>i\<close> and the other line \<open>j\<close>, for all lines off the
  cascade pin.\<close>

lemma canonical_pic_init_gap:
  assumes "\<not> auto_eoi (master q)" and "i < j" and "j < 8" and "cascade_pin q \<notin> {i, j}"
    and "x = init_started q v c" and "y = snd (pic_run x [PWrite 0x20 0x80])"
    and "ops = [PWrite 0x21 0x02, PRequest i, PAck, PRequest i, PRequest j, PAck]"
  shows "fields_bytes (pic_payload x) = fields_bytes (pic_payload y)
    \<and> last (fst (pic_run x ops)) = AAck (Some (v AND 0xf8 OR i, i))
    \<and> last (fst (pic_run y ops)) = AAck (Some (v AND 0xf8 OR j, j))"
proof (intro conjI)
  have y: "y = x\<lparr>master := (master x)\<lparr>auto_rotate := True\<rparr>\<rparr>"
    by (simp add: assms(6) pair_write_port_def pic_write_port_def end_of_interrupt_def test_def Let_def)
  show "fields_bytes (pic_payload x) = fields_bytes (pic_payload y)"
    using assms(1) by (simp add: y assms(5) init_started_master pic_payload_def write_canonical_pic_def cascade_pin_def)
  show "last (fst (pic_run x ops)) = AAck (Some (v AND 0xf8 OR i, i))"
    unfolding assms(7) using assms(2-4)
    by (intro rotation_shows) (simp_all add: assms(5) init_started_master cascade_pin_def)
  show "last (fst (pic_run y ops)) = AAck (Some (v AND 0xf8 OR j, j))"
    unfolding assms(7) using assms(2-4)
    by (intro rotation_shows) (simp_all add: y assms(5) init_started_master cascade_pin_def)
qed

lemma canonical_pic_init_gap_witness:
  "let x = init_started pair_default 0x08 0x04; y = snd (pic_run x [PWrite 0x20 0x80]);
       ops = [PWrite 0x21 0x02, PRequest 3, PAck, PRequest 3, PRequest 5, PAck]
   in fields_bytes (pic_payload x) = fields_bytes (pic_payload y)
    \<and> last (fst (pic_run x ops)) = AAck (Some (0x0b, 3)) \<and> last (fst (pic_run y ops)) = AAck (Some (0x0d, 5))"
  using canonical_pic_init_gap [of pair_default 3 5, OF _ _ _ _ refl refl refl, of "0x08" "0x04"]
  by (simp add: Let_def pair_default_def pic_default_def cascade_pin_def)
text \<open>A software poll and a hardware acknowledge resolve alike. A poll read of the master returns
  the level the acknowledge would select, with the interrupt-present bit, or zero when the
  acknowledge finds nothing; and it leaves the master as the acknowledge's first cycle does.\<close>

lemma poll_agrees_with_acknowledge:
  assumes "poll_pending (master q)"
  shows "fst (pair_read_port q 0x20) =
      Some (case fst (acknowledge_with_irq q) of None \<Rightarrow> 0 | Some (_, irq) \<Rightarrow> 0x80 OR irq)
    \<and> isr (master (snd (pair_read_port q 0x20))) = isr (master (snd (acknowledge_with_irq q)))"
proof -
  have "highest_pending ((master q)\<lparr>poll_pending := False\<rparr>) ex = highest_pending (master q) ex" for ex
    by (rule highest_pending_cong) simp_all
  moreover have "isr (set_in_service (p\<lparr>poll_pending := c\<rparr>) i) = isr (set_in_service p i)" for p c i
    by (simp add: set_in_service_def clear_in_service_def Let_def)
  ultimately show ?thesis
    using assms
    by (auto simp: pair_read_port_def pic_read_port_def poll_def acknowledge_with_irq_def master_pending_def Let_def
        case_prod_beta sync_cascade_def split: option.split)
qed

lemma poll_agrees_with_acknowledge_witness:
  "fst (pair_read_port (at_pair\<lparr>master := (master at_pair)\<lparr>irr := 0x28, poll_pending := True\<rparr>\<rparr>) 0x20) = Some 0x83"
  using poll_agrees_with_acknowledge [of "at_pair\<lparr>master := (master at_pair)\<lparr>irr := 0x28, poll_pending := True\<rparr>\<rparr>"]
  by (simp add: at_pair_def pic_default_def acknowledge_with_irq_def master_pending_def master_cascade_exempt_def
      highest_pending_def priority_order_def has_bit_def bit_mask_def cascade_pin_def Let_def)

end
