(* ===== verification/Memory.thy ===== *)
theory Memory
  imports Prelude
begin

text \<open>
  Guest memory (\<open>Memory\<close> of \<open>crates/izarravm-bus/src/lib.rs\<close>): a non-empty byte array with checked
  accesses. A wide write that runs off the end has stored the bytes before it; the model keeps them.
\<close>

type_synonym memory = "u8 list"

datatype bus_error = EmptyMemory | MemoryOutOfBounds nat nat nat

definition memory_new :: "nat \<Rightarrow> bus_error + memory" where
  "memory_new n = (if n = 0 then Inl EmptyMemory else Inr (replicate n 0))"

definition memory_from_mib :: "nat \<Rightarrow> bus_error + memory" where
  "memory_from_mib memory_mib = memory_new (memory_mib * 1024 * 1024)"

definition out_of_bounds :: "memory \<Rightarrow> nat \<Rightarrow> nat \<Rightarrow> bus_error" where
  "out_of_bounds m address width = MemoryOutOfBounds address (saturating_add64 address width) (length m)"

definition mem_read_u8 :: "memory \<Rightarrow> nat \<Rightarrow> bus_error + u8" where
  "mem_read_u8 m address = (if address < length m then Inr (m ! address) else Inl (out_of_bounds m address 1))"

definition mem_read_u16 :: "memory \<Rightarrow> nat \<Rightarrow> bus_error + u16" where
  "mem_read_u16 m address =
    bindE (mem_read_u8 m address) (\<lambda>b0.
    bindE (mem_read_u8 m (address + 1)) (\<lambda>b1. Inr (of_nat (from_le [b0, b1]))))"

definition mem_read_u32 :: "memory \<Rightarrow> nat \<Rightarrow> bus_error + u32" where
  "mem_read_u32 m address =
    bindE (mem_read_u8 m address) (\<lambda>b0.
    bindE (mem_read_u8 m (address + 1)) (\<lambda>b1.
    bindE (mem_read_u8 m (address + 2)) (\<lambda>b2.
    bindE (mem_read_u8 m (address + 3)) (\<lambda>b3. Inr (of_nat (from_le [b0, b1, b2, b3]))))))"

definition mem_write_u8 :: "memory \<Rightarrow> nat \<Rightarrow> u8 \<Rightarrow> (bus_error + unit) \<times> memory" where
  "mem_write_u8 m address v =
    (if address < length m then (Inr (), m[address := v])
     else (Inl (MemoryOutOfBounds address (saturating_add64 address 1) (length m)), m))"

text \<open>The loop of the wide writes over the little-endian bytes.\<close>

fun mem_write_bytes :: "memory \<Rightarrow> nat \<Rightarrow> u8 list \<Rightarrow> (bus_error + unit) \<times> memory" where
  "mem_write_bytes m address [] = (Inr (), m)"
| "mem_write_bytes m address (b # bs) =
    (case mem_write_u8 m address b of
       (Inl e, m') \<Rightarrow> (Inl e, m')
     | (Inr _, m') \<Rightarrow> mem_write_bytes m' (address + 1) bs)"

definition mem_write_u16 :: "memory \<Rightarrow> nat \<Rightarrow> u16 \<Rightarrow> (bus_error + unit) \<times> memory" where
  "mem_write_u16 m address v = mem_write_bytes m address (le_bytes 2 (unat v))"

definition mem_write_u32 :: "memory \<Rightarrow> nat \<Rightarrow> u32 \<Rightarrow> (bus_error + unit) \<times> memory" where
  "mem_write_u32 m address v = mem_write_bytes m address (le_bytes 4 (unat v))"

section \<open>Reading back\<close>

lemma length_mem_write_u8 [simp]: "length (snd (mem_write_u8 m a v)) = length m"
  by (simp add: mem_write_u8_def)

lemma mem_write_bytes_run:
  "mem_write_bytes m a bs =
    (if a + length bs \<le> length m \<or> bs = [] then Inr () else Inl (MemoryOutOfBounds (max a (length m))
       (saturating_add64 (max a (length m)) 1) (length m)),
     if a < length m then take a m @ take (length m - a) bs @ drop (a + length bs) m else m)"
proof (induction bs arbitrary: m a)
  case Nil
  then show ?case by simp
next
  case (Cons b bs)
  show ?case
  proof (cases "a < length m")
    case False
    then show ?thesis by (simp add: mem_write_u8_def max_def)
  next
    case True
    show ?thesis
    proof (cases "a + 1 < length m")
      case True
      then have "take (a + 1) (m[a := b]) = take a m @ [b]" and "drop (a + 1 + length bs) (m[a := b]) = drop (a + Suc (length bs)) m"
        by (simp_all add: take_Suc_conv_app_nth)
      moreover have "length m - a = Suc (length m - (a + 1))" using True by simp
      ultimately show ?thesis
        using True Cons.IH [of "m[a := b]" "a + 1"] by (auto simp: mem_write_u8_def)
    next
      case False
      with \<open>a < length m\<close> have m: "length m = a + 1" by simp
      then have "m[a := b] = take a m @ [b]" by (simp add: upd_conv_take_nth_drop)
      then show ?thesis
        using m Cons.IH [of "m[a := b]" "a + 1"] by (simp add: mem_write_u8_def max_def)
    qed
  qed
qed

lemma mem_read_after_write:
  assumes "a + length bs \<le> length m" and "i < length m"
  shows "snd (mem_write_bytes m a bs) ! i = (if a \<le> i \<and> i < a + length bs then bs ! (i - a) else m ! i)"
  using assms by (cases "bs = []") (auto simp: mem_write_bytes_run nth_append)

lemma mem_write_bytes_fits:
  assumes "a + length bs \<le> length m"
  shows "fst (mem_write_bytes m a bs) = Inr ()" and "length (snd (mem_write_bytes m a bs)) = length m"
  using assms by (auto simp: mem_write_bytes_run)

lemma four_bytes: "length (xs :: u8 list) = 4 \<Longrightarrow> \<exists>a b c d. xs = [a, b, c, d]"
  by (auto simp: numeral_eq_Suc length_Suc_conv)

lemma from_le_quarters:
  fixes v :: u32
  assumes "from_le [b0, b1, b2, b3] = unat v"
  shows "(of_nat (from_le [b0, b1]) :: u16) = ucast v" and "(of_nat (from_le [b2, b3]) :: u16) = ucast (drop_bit 16 v)"
proof -
  have lo: "from_le [b0, b1] < 65536" and hi: "from_le [b2, b3] < 65536"
    using from_le_less [of "[b0, b1]"] from_le_less [of "[b2, b3]"] by simp_all
  have v: "unat v = from_le [b0, b1] + from_le [b2, b3] * 65536" using assms by simp
  have "unat v mod 65536 = from_le [b0, b1]" "unat v div 65536 = from_le [b2, b3]"
    using lo by (simp_all add: v del: from_le.simps)
  then show "(of_nat (from_le [b0, b1]) :: u16) = ucast v" and "(of_nat (from_le [b2, b3]) :: u16) = ucast (drop_bit 16 v)"
    using lo hi
    by (simp_all add: word_unat_eq_iff unat_of_nat unsigned_ucast_eq unat_div take_bit_eq_mod drop_bit_eq_div
        del: from_le.simps)
qed

section \<open>Properties\<close>

text \<open>Wide accesses are little-endian and checked. Where the four bytes fit, a 32-bit write reads
  back as written, reads as its two 16-bit halves, and changes no other byte; where they do not
  fit, the write reports the first address past the end, and memory keeps its length.\<close>

lemma memory_wide_access:
  "if a + 4 \<le> length m
   then \<exists>m'. mem_write_u32 m a v = (Inr (), m') \<and> length m' = length m
      \<and> mem_read_u32 m' a = Inr v
      \<and> mem_read_u16 m' a = Inr (ucast v) \<and> mem_read_u16 m' (a + 2) = Inr (ucast (drop_bit 16 v))
      \<and> (\<forall>i. i < a \<or> a + 4 \<le> i \<longrightarrow> mem_read_u8 m' i = mem_read_u8 m i)
   else \<exists>m'. mem_write_u32 m a v =
        (Inl (MemoryOutOfBounds (max a (length m)) (saturating_add64 (max a (length m)) 1) (length m)), m')
      \<and> length m' = length m"
proof (cases "a + 4 \<le> length m")
  case True
  let ?m = "snd (mem_write_u32 m a v)"
  have len: "length (le_bytes 4 (unat v)) = 4" by simp
  have w: "mem_write_u32 m a v = (Inr (), ?m)" "length ?m = length m"
    using mem_write_bytes_fits [of a "le_bytes 4 (unat v)" m] True
    by (simp_all add: mem_write_u32_def prod_eq_iff)
  have byte: "mem_read_u8 ?m (a + i) = Inr (le_bytes 4 (unat v) ! i)" if "i < 4" for i
    using that True mem_read_after_write [of a "le_bytes 4 (unat v)" m "a + i"] w(2)
    by (simp add: mem_read_u8_def mem_write_u32_def)
  have bytes: "mem_read_u8 ?m a = Inr (le_bytes 4 (unat v) ! 0)" "mem_read_u8 ?m (a + 1) = Inr (le_bytes 4 (unat v) ! 1)"
    "mem_read_u8 ?m (a + 2) = Inr (le_bytes 4 (unat v) ! 2)" "mem_read_u8 ?m (a + 3) = Inr (le_bytes 4 (unat v) ! 3)"
    using byte [of 0] byte [of 1] byte [of 2] byte [of 3] by simp_all
  obtain b0 b1 b2 b3 where bs: "le_bytes 4 (unat v) = [b0, b1, b2, b3]"
    using four_bytes [OF len] by blast
  have v: "from_le [b0, b1, b2, b3] = unat v"
    using from_le_le_bytes [of "unat v" 4] unsigned_less [of v] by (simp add: bs)
  have halves: "of_nat (from_le [b0, b1]) = (ucast v :: u16)" "of_nat (from_le [b2, b3]) = (ucast (drop_bit 16 v) :: u16)"
    using from_le_quarters [OF v] by simp_all
  have off: "a + 3 = a + 2 + 1" by simp
  have "mem_read_u32 ?m a = Inr v" "mem_read_u16 ?m a = Inr (ucast v)"
    "mem_read_u16 ?m (a + 2) = Inr (ucast (drop_bit 16 v))"
    unfolding mem_read_u32_def mem_read_u16_def bytes bytes(4) [unfolded off] bindE_simps
    by (simp_all add: bs v halves del: from_le.simps)
  moreover have "mem_read_u8 ?m i = mem_read_u8 m i" if "i < a \<or> a + 4 \<le> i" for i
    using that True mem_read_after_write [of a "le_bytes 4 (unat v)" m i] w(2)
    by (auto simp: mem_read_u8_def mem_write_u32_def out_of_bounds_def)
  ultimately show ?thesis using w True by (simp only: if_True) (intro exI [of _ ?m] conjI; simp)
next
  case False
  have "le_bytes 4 (unat v) \<noteq> []" using length_le_bytes [of 4 "unat v"] by force
  with False show ?thesis by (auto simp: mem_write_u32_def mem_write_bytes_run)
qed

lemma memory_wide_access_witness:
  "\<exists>m'. mem_write_u32 (replicate 8 0) 2 0x11223344 = (Inr (), m') \<and> mem_read_u16 m' 2 = Inr 0x3344
     \<and> mem_read_u8 m' 1 = Inr 0"
  using memory_wide_access [of 2 "replicate 8 0" "0x11223344"]
  by (auto simp: mem_read_u8_def)

end
