(* ===== verification/Dma.thy ===== *)
theory Dma
  imports Clock Canonical Memory
begin

text \<open>
  The 8237A DMA controller pair (\<open>crates/izarravm-machine/src/dma.rs\<close>). A chip has four channels,
  held in a list of length four. A global channel number from eight up would index past a chip's
  array and panic; the operations that take one return \<open>None\<close> there. The lemmas give the
  transfer of a programmed block, the memory-to-memory copy, the port programming round trip and
  the bounds of the interpolated count.
\<close>

unbundle bit_operations_syntax

section \<open>One channel\<close>

definition BYTE_CYCLE_TICKS :: nat where
  "BYTE_CYCLE_TICKS = div_ceil (600 * MASTER_CLOCK_HZ) 1000000000"

record transfer_window =
  start_tick :: nat
  deadline_tick :: nat
  start_count :: u16

record dma_channel =
  base_addr :: u16
  cur_addr :: u16
  base_count :: u16
  cur_count :: u16
  page :: u8
  addr_decrement :: bool
  auto_init :: bool
  transfer_kind :: u8
  transfer_mode :: u8
  masked :: bool
  reached_tc :: bool
  dreq :: bool
  active :: bool
  transfer_cycles :: nat
  window :: "transfer_window option"

definition channel_default :: dma_channel where
  "channel_default =
    \<lparr>base_addr = 0, cur_addr = 0, base_count = 0, cur_count = 0, page = 0, addr_decrement = False,
     auto_init = False, transfer_kind = 0, transfer_mode = 0, masked = True, reached_tc = False,
     dreq = False, active = False, transfer_cycles = 0, window = None\<rparr>"

definition channel_arm_window :: "dma_channel \<Rightarrow> nat \<Rightarrow> nat \<Rightarrow> dma_channel" where
  "channel_arm_window c now deadline =
    c\<lparr>window := Some \<lparr>start_tick = now, deadline_tick = max deadline now, start_count = cur_count c\<rparr>\<rparr>"

definition count_after :: "dma_channel \<Rightarrow> nat \<Rightarrow> u16" where
  "count_after c now =
    (case window c of
       None \<Rightarrow> cur_count c
     | Some w \<Rightarrow>
         if now \<le> start_tick w then start_count w
         else if now \<ge> deadline_tick w then cur_count c
         else
           let elapsed = now - start_tick w;
               span = max (deadline_tick w - start_tick w) 1;
               total_bytes = unat (start_count w) + 1;
               proportional_done = elapsed * total_bytes div span;
               bus_bound_done = elapsed div max BYTE_CYCLE_TICKS 1;
               bytes_done = min (min proportional_done bus_bound_done) (total_bytes - 1)
           in of_nat (unat (start_count w) - bytes_done))"

definition set_mode :: "dma_channel \<Rightarrow> u8 \<Rightarrow> dma_channel" where
  "set_mode c v =
    c\<lparr>transfer_kind := drop_bit 2 v AND 0x3, auto_init := test v 0x10, addr_decrement := test v 0x20,
      transfer_mode := drop_bit 6 v AND 0x3\<rparr>"

definition byte_address :: "dma_channel \<Rightarrow> u32" where
  "byte_address c = push_bit 16 (ucast (page c)) OR ucast (cur_addr c)"

definition word_address :: "dma_channel \<Rightarrow> u32" where
  "word_address c = push_bit 16 (ucast (page c) AND 0xFE) OR push_bit 1 (ucast (cur_addr c))"

definition step_transfer :: "dma_channel \<Rightarrow> dma_channel" where
  "step_transfer c =
    (let c = c\<lparr>transfer_cycles := saturating_add64 (transfer_cycles c) 1\<rparr>;
         c = c\<lparr>cur_addr := (if addr_decrement c then cur_addr c - 1 else cur_addr c + 1)\<rparr>;
         next_count = cur_count c - 1;
         c = c\<lparr>reached_tc := (cur_count c = 0)\<rparr>;
         c = c\<lparr>cur_count := next_count\<rparr>
     in if reached_tc c
        then (if auto_init c then c\<lparr>cur_addr := base_addr c, cur_count := base_count c\<rparr> else c\<lparr>masked := True\<rparr>)
        else c)"

definition channel_read_byte :: "dma_channel \<Rightarrow> memory \<Rightarrow> u8 option \<times> dma_channel" where
  "channel_read_byte c m =
    (if masked c \<or> transfer_kind c \<noteq> 2 then (None, c)
     else case mem_read_u8 m (unat (byte_address c)) of
            Inl _ \<Rightarrow> (None, c)
          | Inr b \<Rightarrow> (Some b, step_transfer c))"

definition channel_read_word :: "dma_channel \<Rightarrow> memory \<Rightarrow> u16 option \<times> dma_channel" where
  "channel_read_word c m =
    (if masked c \<or> transfer_kind c \<noteq> 2 then (None, c)
     else case mem_read_u8 m (unat (word_address c)) of
            Inl _ \<Rightarrow> (None, c)
          | Inr lo \<Rightarrow>
              (case mem_read_u8 m (unat (word_address c) + 1) of
                 Inl _ \<Rightarrow> (None, c)
               | Inr hi \<Rightarrow> (Some (join16 lo hi), step_transfer c)))"

definition channel_write_byte :: "dma_channel \<Rightarrow> memory \<Rightarrow> u8 \<Rightarrow> u32 option \<times> dma_channel \<times> memory" where
  "channel_write_byte c m b =
    (if masked c \<or> transfer_kind c \<noteq> 1 then (None, c, m)
     else case mem_write_u8 m (unat (byte_address c)) b of
            (Inl _, m') \<Rightarrow> (None, c, m')
          | (Inr _, m') \<Rightarrow> (Some (byte_address c), step_transfer c, m'))"

definition channel_write_word :: "dma_channel \<Rightarrow> memory \<Rightarrow> u16 \<Rightarrow> unit option \<times> dma_channel \<times> memory" where
  "channel_write_word c m w =
    (if masked c \<or> transfer_kind c \<noteq> 1 then (None, c, m)
     else case mem_write_u8 m (unat (word_address c)) (lo8 w) of
            (Inl _, m1) \<Rightarrow> (None, c, m1)
          | (Inr _, m1) \<Rightarrow>
              (case mem_write_u8 m1 (unat (word_address c) + 1) (hi8 w) of
                 (Inl _, m2) \<Rightarrow> (None, c, m2)
               | (Inr _, m2) \<Rightarrow> (Some (), step_transfer c, m2)))"

definition channel_verify :: "dma_channel \<Rightarrow> unit option \<times> dma_channel" where
  "channel_verify c = (if masked c \<or> transfer_kind c \<noteq> 0 then (None, c) else (Some (), step_transfer c))"

section \<open>One chip\<close>

record dma_chip =
  channels :: "dma_channel list"
  hi_lo :: bool
  command :: u8
  status :: u8
  request_reg :: u8

definition chip_default :: dma_chip where
  "chip_default = \<lparr>channels = replicate 4 channel_default, hi_lo = False, command = 0, status = 0, request_reg = 0\<rparr>"

definition addr_channel :: "nat \<Rightarrow> nat option" where
  "addr_channel local = (if local < 8 \<and> local mod 2 = 0 then Some (local div 2) else None)"

definition count_channel :: "nat \<Rightarrow> nat option" where
  "count_channel local = (if local < 8 \<and> local mod 2 = 1 then Some (local div 2) else None)"

definition upd_channel :: "dma_chip \<Rightarrow> nat \<Rightarrow> (dma_channel \<Rightarrow> dma_channel) \<Rightarrow> dma_chip" where
  "upd_channel c ci f = c\<lparr>channels := (channels c)[ci := f (channels c ! ci)]\<rparr>"

definition chip_bit :: "nat \<Rightarrow> u8" where
  "chip_bit ci = push_bit ci 1"

definition write_addr :: "dma_chip \<Rightarrow> nat \<Rightarrow> u8 \<Rightarrow> dma_chip" where
  "write_addr c ci v =
    (let old = base_addr (channels c ! ci);
         new = (if \<not> hi_lo c then (old AND 0xFF00) OR ucast v else (old AND 0x00FF) OR push_bit 8 (ucast v))
     in (upd_channel c ci (\<lambda>ch. ch\<lparr>base_addr := new, cur_addr := new\<rparr>))\<lparr>hi_lo := \<not> hi_lo c\<rparr>)"

definition write_count :: "dma_chip \<Rightarrow> nat \<Rightarrow> u8 \<Rightarrow> dma_chip" where
  "write_count c ci v =
    (let old = base_count (channels c ! ci);
         new = (if \<not> hi_lo c then (old AND 0xFF00) OR ucast v else (old AND 0x00FF) OR push_bit 8 (ucast v))
     in (upd_channel c ci (\<lambda>ch. ch\<lparr>base_count := new, cur_count := new, reached_tc := False, window := None\<rparr>))
          \<lparr>status := status c AND NOT (chip_bit ci), hi_lo := \<not> hi_lo c\<rparr>)"

definition split_read :: "dma_chip \<Rightarrow> u16 \<Rightarrow> u8 \<times> dma_chip" where
  "split_read c w = ((if \<not> hi_lo c then lo8 w else hi8 w), c\<lparr>hi_lo := \<not> hi_lo c\<rparr>)"

definition read_addr :: "dma_chip \<Rightarrow> nat \<Rightarrow> u8 \<times> dma_chip" where
  "read_addr c ci = split_read c (cur_addr (channels c ! ci))"

definition read_count :: "dma_chip \<Rightarrow> nat \<Rightarrow> u8 \<times> dma_chip" where
  "read_count c ci = split_read c (cur_count (channels c ! ci))"

definition read_count_timed :: "dma_chip \<Rightarrow> nat \<Rightarrow> nat \<Rightarrow> u8 \<times> dma_chip" where
  "read_count_timed c ci now = split_read c (count_after (channels c ! ci) now)"

definition master_clear :: "dma_chip \<Rightarrow> dma_chip" where
  "master_clear c =
    c\<lparr>command := 0, status := 0, request_reg := 0, hi_lo := False,
      channels := map (\<lambda>ch. ch\<lparr>masked := True, dreq := False, active := False\<rparr>) (channels c)\<rparr>"

definition set_masked :: "bool \<Rightarrow> dma_channel \<Rightarrow> dma_channel" where
  "set_masked b ch = (let ch = ch\<lparr>masked := b\<rparr> in if masked ch then ch\<lparr>active := False\<rparr> else ch)"

definition write_local :: "dma_chip \<Rightarrow> nat \<Rightarrow> u8 \<Rightarrow> dma_chip" where
  "write_local c local v =
    (case addr_channel local of
       Some ci \<Rightarrow> write_addr c ci v
     | None \<Rightarrow>
         (case count_channel local of
            Some ci \<Rightarrow> write_count c ci v
          | None \<Rightarrow>
              (let ci = unat (v AND 0x03) in
               if local = 8 then c\<lparr>command := v\<rparr>
               else if local = 9
                 then (if test v 0x04 then c\<lparr>request_reg := request_reg c OR chip_bit ci\<rparr>
                       else c\<lparr>request_reg := request_reg c AND NOT (chip_bit ci)\<rparr>)
               else if local = 10 then upd_channel c ci (set_masked (test v 0x04))
               else if local = 11 then upd_channel c ci (\<lambda>ch. set_mode ch v)
               else if local = 12 then c\<lparr>hi_lo := False\<rparr>
               else if local = 13 then master_clear c
               else if local = 14 then c\<lparr>channels := map (\<lambda>ch. ch\<lparr>masked := False\<rparr>) (channels c)\<rparr>
               else if local = 15
                 then c\<lparr>channels := map2 (\<lambda>ci ch. set_masked (test v (chip_bit ci)) ch) [0..<4] (channels c)\<rparr>
               else c)))"

definition dreq_bits :: "dma_chip \<Rightarrow> u8" where
  "dreq_bits c =
    fold (\<lambda>(ci, ch) requests. if dreq ch then requests OR chip_bit ci else requests)
      (enumerate 0 (channels c)) (request_reg c AND 0x0F)"

definition read_local :: "dma_chip \<Rightarrow> nat \<Rightarrow> u8 option \<times> dma_chip" where
  "read_local c local =
    (case addr_channel local of
       Some ci \<Rightarrow> (let (v, c') = read_addr c ci in (Some v, c'))
     | None \<Rightarrow>
         (case count_channel local of
            Some ci \<Rightarrow> (let (v, c') = read_count c ci in (Some v, c'))
          | None \<Rightarrow>
              if local = 8 then (Some ((status c AND 0x0F) OR push_bit 4 (dreq_bits c)), c\<lparr>status := 0\<rparr>)
              else if local = 13 then (Some 0, c)
              else (None, c)))"

definition mem_to_mem_enabled :: "dma_chip \<Rightarrow> bool" where
  "mem_to_mem_enabled c = test (command c) 0x01"

definition channel0_hold :: "dma_chip \<Rightarrow> bool" where
  "channel0_hold c = test (command c) 0x02"

definition controller_disabled :: "dma_chip \<Rightarrow> bool" where
  "controller_disabled c = test (command c) 0x04"

definition set_hardware_request :: "dma_chip \<Rightarrow> nat \<Rightarrow> bool \<Rightarrow> dma_chip" where
  "set_hardware_request c ci on =
    upd_channel c ci (\<lambda>ch. let ch = ch\<lparr>dreq := on\<rparr> in
      if \<not> on \<and> transfer_mode ch \<noteq> 2 then ch\<lparr>active := False\<rparr> else ch)"

definition request_active :: "dma_chip \<Rightarrow> nat \<Rightarrow> bool" where
  "request_active c ci \<longleftrightarrow> dreq (channels c ! ci) \<or> test (request_reg c) (chip_bit ci)"

definition begin_cycle :: "dma_chip \<Rightarrow> nat \<Rightarrow> bool \<times> dma_chip" where
  "begin_cycle c ci =
    (let ch = channels c ! ci; block_active = (transfer_mode ch = 2 \<and> active ch) in
     if controller_disabled c \<or> masked ch \<or> transfer_mode ch = 3 \<or> (\<not> request_active c ci \<and> \<not> block_active)
     then (False, c)
     else (True, upd_channel c ci (\<lambda>ch. ch\<lparr>reached_tc := False, active := True\<rparr>)))"

definition finish_cycle :: "dma_chip \<Rightarrow> nat \<Rightarrow> bool \<Rightarrow> dma_chip" where
  "finish_cycle c ci completed =
    (let off = upd_channel c ci (\<lambda>ch. ch\<lparr>active := False\<rparr>) in
     if \<not> completed then off
     else if reached_tc (channels c ! ci)
     then off\<lparr>status := status c OR chip_bit ci, request_reg := request_reg c AND NOT (chip_bit ci)\<rparr>
     else if transfer_mode (channels c ! ci) \<noteq> 2 then off
     else c)"

definition mem_to_mem_request_armed :: "dma_chip \<Rightarrow> bool" where
  "mem_to_mem_request_armed c \<longleftrightarrow>
    mem_to_mem_enabled c \<and> \<not> controller_disabled c \<and> \<not> masked (channels c ! 0) \<and> test (request_reg c) 0x01"

text \<open>One device cycle: begin, the channel's transfer, finish.\<close>

definition chip_read_byte :: "dma_chip \<Rightarrow> nat \<Rightarrow> memory \<Rightarrow> u8 option \<times> dma_chip" where
  "chip_read_byte c ci m =
    (case begin_cycle c ci of
       (False, c) \<Rightarrow> (None, c)
     | (True, c) \<Rightarrow>
         (let (r, ch) = channel_read_byte (channels c ! ci) m
          in (r, finish_cycle (upd_channel c ci (\<lambda>_. ch)) ci (r \<noteq> None))))"

definition chip_read_word :: "dma_chip \<Rightarrow> nat \<Rightarrow> memory \<Rightarrow> u16 option \<times> dma_chip" where
  "chip_read_word c ci m =
    (case begin_cycle c ci of
       (False, c) \<Rightarrow> (None, c)
     | (True, c) \<Rightarrow>
         (let (r, ch) = channel_read_word (channels c ! ci) m
          in (r, finish_cycle (upd_channel c ci (\<lambda>_. ch)) ci (r \<noteq> None))))"

definition chip_write_byte :: "dma_chip \<Rightarrow> nat \<Rightarrow> memory \<Rightarrow> u8 \<Rightarrow> u32 option \<times> dma_chip \<times> memory" where
  "chip_write_byte c ci m b =
    (case begin_cycle c ci of
       (False, c) \<Rightarrow> (None, c, m)
     | (True, c) \<Rightarrow>
         (let (r, ch, m') = channel_write_byte (channels c ! ci) m b
          in (r, finish_cycle (upd_channel c ci (\<lambda>_. ch)) ci (r \<noteq> None), m')))"

definition chip_write_word :: "dma_chip \<Rightarrow> nat \<Rightarrow> memory \<Rightarrow> u16 \<Rightarrow> unit option \<times> dma_chip \<times> memory" where
  "chip_write_word c ci m w =
    (case begin_cycle c ci of
       (False, c) \<Rightarrow> (None, c, m)
     | (True, c) \<Rightarrow>
         (let (r, ch, m') = channel_write_word (channels c ! ci) m w
          in (r, finish_cycle (upd_channel c ci (\<lambda>_. ch)) ci (r \<noteq> None), m')))"

definition chip_verify :: "dma_chip \<Rightarrow> nat \<Rightarrow> unit option \<times> dma_chip" where
  "chip_verify c ci =
    (case begin_cycle c ci of
       (False, c) \<Rightarrow> (None, c)
     | (True, c) \<Rightarrow>
         (let (r, ch) = channel_verify (channels c ! ci)
          in (r, finish_cycle (upd_channel c ci (\<lambda>_. ch)) ci (r \<noteq> None))))"

text \<open>The memory-to-memory loop on the source and the destination channel.\<close>

definition hold_source :: "dma_channel \<Rightarrow> dma_channel" where
  "hold_source c = c\<lparr>transfer_cycles := saturating_add64 (transfer_cycles c) 1, cur_count := cur_count c - 1\<rparr>"

function mem_to_mem_loop ::
  "bool \<Rightarrow> dma_channel \<Rightarrow> dma_channel \<Rightarrow> memory \<Rightarrow> nat \<Rightarrow> nat option \<times> dma_channel \<times> dma_channel \<times> memory" where
  "mem_to_mem_loop hold c0 c1 m copied =
    (case mem_read_u8 m (unat (byte_address c0)) of
       Inl _ \<Rightarrow> (None, c0, c1, m)
     | Inr byte \<Rightarrow>
         (case mem_write_u8 m (unat (byte_address c1)) byte of
            (Inl _, m') \<Rightarrow> (None, c0, c1, m')
          | (Inr _, m') \<Rightarrow>
              (let c1' = step_transfer c1; c0' = (if hold then hold_source c0 else step_transfer c0) in
               if reached_tc c1' then (Some (copied + 1), c0', c1', m')
               else mem_to_mem_loop hold c0' c1' m' (copied + 1))))"
  by pat_completeness auto

lemma reached_tc_step: "reached_tc (step_transfer c) \<longleftrightarrow> cur_count c = 0"
  by (simp add: step_transfer_def Let_def)

lemma cur_count_step: "cur_count c \<noteq> 0 \<Longrightarrow> cur_count (step_transfer c) = cur_count c - 1"
  by (simp add: step_transfer_def Let_def)

lemma unat_pred: "(w :: 'a::len word) \<noteq> 0 \<Longrightarrow> unat (w - 1) = unat w - 1"
  by (simp add: unat_minus_one)

termination mem_to_mem_loop
  by (relation "measure (\<lambda>(_, _, c1, _, _). unat (cur_count c1))")
    (auto simp: reached_tc_step cur_count_step unat_pred unat_gt_0)

declare mem_to_mem_loop.simps [simp del]

definition chip_mem_to_mem :: "dma_chip \<Rightarrow> memory \<Rightarrow> nat option \<times> dma_chip \<times> memory" where
  "chip_mem_to_mem c m =
    (if controller_disabled c \<or> \<not> mem_to_mem_enabled c then (None, c, m)
     else if masked (channels c ! 0) then (None, c, m)
     else
       (let c0 = (channels c ! 0)\<lparr>active := True\<rparr>; c1 = (channels c ! 1)\<lparr>active := True\<rparr>;
            (r, c0', c1', m') = mem_to_mem_loop (channel0_hold c) c0 c1 m 0;
            c' = upd_channel (upd_channel c 0 (\<lambda>_. c0'\<lparr>active := False\<rparr>)) 1 (\<lambda>_. c1'\<lparr>active := False\<rparr>)
        in case r of
             None \<Rightarrow> (None, c', m')
           | Some copied \<Rightarrow>
               (Some copied, c'\<lparr>status := status c OR chip_bit 1, request_reg := request_reg c AND NOT 0x03\<rparr>, m')))"

section \<open>The controller pair\<close>

record dma_controller =
  dma_master :: dma_chip
  dma_slave :: dma_chip
  page_scratch :: "u8 list"
  refresh_page :: u8

definition dma_default :: dma_controller where
  "dma_default = \<lparr>dma_master = chip_default, dma_slave = chip_default, page_scratch = replicate 16 0, refresh_page = 0\<rparr>"

definition slave_local :: "u16 \<Rightarrow> nat option" where
  "slave_local port =
    (if port \<in> {0xC0, 0xC2, 0xC4, 0xC6, 0xC8, 0xCA, 0xCC, 0xCE} then Some (unat ((port - 0xC0) div 2))
     else if port = 0xD0 then Some 8 else if port = 0xD2 then Some 9
     else if port = 0xD4 then Some 10 else if port = 0xD6 then Some 11
     else if port = 0xD8 then Some 12 else if port = 0xDA then Some 13
     else if port = 0xDC then Some 14 else if port = 0xDE then Some 15
     else None)"

datatype dma_side = Master | Slave

definition page_target :: "u16 \<Rightarrow> (dma_side \<times> nat) option" where
  "page_target port =
    (if port = 0x83 then Some (Master, 1) else if port = 0x81 then Some (Master, 2)
     else if port = 0x82 then Some (Master, 3) else if port = 0x87 then Some (Master, 0)
     else if port = 0x8B then Some (Slave, 1) else if port = 0x89 then Some (Slave, 2)
     else if port = 0x8A then Some (Slave, 3)
     else None)"

definition is_scratch_page :: "u16 \<Rightarrow> bool" where
  "is_scratch_page port \<longleftrightarrow> port \<in> {0x84, 0x85, 0x86, 0x88, 0x8C, 0x8D, 0x8E}"

definition scratch_index :: "u16 \<Rightarrow> nat" where
  "scratch_index port = unat (port AND 0x0F)"

definition dma_write_port :: "dma_controller \<Rightarrow> u16 \<Rightarrow> u8 \<Rightarrow> bool \<times> dma_controller" where
  "dma_write_port d port v =
    (if port \<le> 0x0F then (True, d\<lparr>dma_master := write_local (dma_master d) (unat port) v\<rparr>)
     else case slave_local port of
       Some local \<Rightarrow> (True, d\<lparr>dma_slave := write_local (dma_slave d) local v\<rparr>)
     | None \<Rightarrow>
         (case page_target port of
            Some (Master, ci) \<Rightarrow> (True, d\<lparr>dma_master := upd_channel (dma_master d) ci (\<lambda>ch. ch\<lparr>page := v\<rparr>)\<rparr>)
          | Some (Slave, ci) \<Rightarrow> (True, d\<lparr>dma_slave := upd_channel (dma_slave d) ci (\<lambda>ch. ch\<lparr>page := v\<rparr>)\<rparr>)
          | None \<Rightarrow>
              if port = 0x8F then (True, d\<lparr>refresh_page := v\<rparr>)
              else if is_scratch_page port
              then (True, d\<lparr>page_scratch := (page_scratch d)[scratch_index port := v]\<rparr>)
              else (False, d)))"

definition dma_read_port :: "dma_controller \<Rightarrow> u16 \<Rightarrow> u8 option \<times> dma_controller" where
  "dma_read_port d port =
    (if port \<le> 0x0F
     then (let (v, c) = read_local (dma_master d) (unat port) in (v, d\<lparr>dma_master := c\<rparr>))
     else case slave_local port of
       Some local \<Rightarrow> (let (v, c) = read_local (dma_slave d) local in (v, d\<lparr>dma_slave := c\<rparr>))
     | None \<Rightarrow>
         (case page_target port of
            Some (Master, ci) \<Rightarrow> (Some (page (channels (dma_master d) ! ci)), d)
          | Some (Slave, ci) \<Rightarrow> (Some (page (channels (dma_slave d) ! ci)), d)
          | None \<Rightarrow>
              if port = 0x8F then (Some (refresh_page d), d)
              else if is_scratch_page port then (Some (page_scratch d ! scratch_index port), d)
              else (None, d)))"

definition dma_read_port_timed :: "dma_controller \<Rightarrow> u16 \<Rightarrow> nat \<Rightarrow> bool \<Rightarrow> u8 option \<times> dma_controller" where
  "dma_read_port_timed d port now profile_dma =
    (if \<not> profile_dma then dma_read_port d port
     else if port \<le> 0x0F
     then (case count_channel (unat port) of
             Some ci \<Rightarrow> (let (v, c) = read_count_timed (dma_master d) ci now in (Some v, d\<lparr>dma_master := c\<rparr>))
           | None \<Rightarrow> dma_read_port d port)
     else case slave_local port of
            None \<Rightarrow> dma_read_port d port
          | Some local \<Rightarrow>
              (case count_channel local of
                 Some ci \<Rightarrow> (let (v, c) = read_count_timed (dma_slave d) ci now in (Some v, d\<lparr>dma_slave := c\<rparr>))
               | None \<Rightarrow> dma_read_port d port))"

text \<open>The outer \<open>None\<close> is the panic of an index past the chip's four channels.\<close>

definition dma_arm_window :: "dma_controller \<Rightarrow> nat \<Rightarrow> nat \<Rightarrow> nat \<Rightarrow> dma_controller option" where
  "dma_arm_window d channel now deadline =
    (if channel < 4
     then Some (d\<lparr>dma_master := upd_channel (dma_master d) channel (\<lambda>ch. channel_arm_window ch now deadline)\<rparr>)
     else if channel < 8
     then Some (d\<lparr>dma_slave := upd_channel (dma_slave d) (channel - 4) (\<lambda>ch. channel_arm_window ch now deadline)\<rparr>)
     else None)"

definition cycle_read_byte :: "dma_chip \<Rightarrow> nat \<Rightarrow> memory \<Rightarrow> u8 option \<times> dma_chip" where
  "cycle_read_byte c ci m =
    (let (v, c) = chip_read_byte (set_hardware_request c ci True) ci m in (v, set_hardware_request c ci False))"

definition dma_read_byte :: "dma_controller \<Rightarrow> nat \<Rightarrow> memory \<Rightarrow> (u8 option \<times> dma_controller) option" where
  "dma_read_byte d channel m =
    (if channel < 4
     then (let (v, c) = cycle_read_byte (dma_master d) channel m in Some (v, d\<lparr>dma_master := c\<rparr>))
     else if channel < 8
     then (let (v, c) = cycle_read_byte (dma_slave d) (channel - 4) m in Some (v, d\<lparr>dma_slave := c\<rparr>))
     else None)"

definition dma_read_word :: "dma_controller \<Rightarrow> nat \<Rightarrow> memory \<Rightarrow> (u16 option \<times> dma_controller) option" where
  "dma_read_word d channel m =
    (if channel < 4 then Some (None, d)
     else if channel < 8
     then (let ci = channel - 4;
               (v, c) = chip_read_word (set_hardware_request (dma_slave d) ci True) ci m
           in Some (v, d\<lparr>dma_slave := set_hardware_request c ci False\<rparr>))
     else None)"

definition cycle_write_byte :: "dma_chip \<Rightarrow> nat \<Rightarrow> memory \<Rightarrow> u8 \<Rightarrow> u32 option \<times> dma_chip \<times> memory" where
  "cycle_write_byte c ci m b =
    (let (r, c, m') = chip_write_byte (set_hardware_request c ci True) ci m b in (r, set_hardware_request c ci False, m'))"

definition dma_write_byte ::
  "dma_controller \<Rightarrow> nat \<Rightarrow> memory \<Rightarrow> u8 \<Rightarrow> (u32 option \<times> dma_controller \<times> memory) option" where
  "dma_write_byte d channel m b =
    (if channel < 4
     then (let (r, c, m') = cycle_write_byte (dma_master d) channel m b in Some (r, d\<lparr>dma_master := c\<rparr>, m'))
     else if channel < 8
     then (let (r, c, m') = cycle_write_byte (dma_slave d) (channel - 4) m b in Some (r, d\<lparr>dma_slave := c\<rparr>, m'))
     else None)"

definition dma_pull_byte :: "dma_controller \<Rightarrow> nat \<Rightarrow> memory \<Rightarrow> (u8 option \<times> dma_controller) option" where
  "dma_pull_byte d channel m = dma_read_byte d channel m"

definition at_terminal_count :: "dma_controller \<Rightarrow> nat \<Rightarrow> bool option" where
  "at_terminal_count d channel =
    (if channel < 4 then Some (reached_tc (channels (dma_master d) ! channel))
     else if channel < 8 then Some (reached_tc (channels (dma_slave d) ! (channel - 4)))
     else None)"

definition dma_mem_to_mem :: "dma_controller \<Rightarrow> memory \<Rightarrow> nat option \<times> dma_controller \<times> memory" where
  "dma_mem_to_mem d m = (let (r, c, m') = chip_mem_to_mem (dma_master d) m in (r, d\<lparr>dma_master := c\<rparr>, m'))"

definition dma_request_armed :: "dma_controller \<Rightarrow> bool" where
  "dma_request_armed d = mem_to_mem_request_armed (dma_master d)"

section \<open>The canonical section\<close>

definition effective_command :: "dma_chip \<Rightarrow> bool \<Rightarrow> u8" where
  "effective_command c as_master =
    (let disabled = command c AND 0x04 in
     if \<not> as_master then disabled
     else let mem_to_mem = command c AND 0x01;
              address_hold = (if mem_to_mem \<noteq> 0 then command c AND 0x02 else 0)
          in disabled OR mem_to_mem OR address_hold)"

definition write_canonical_dma_channel :: "dma_channel \<Rightarrow> field list" where
  "write_canonical_dma_channel c =
    [FU16 (base_addr c), FU16 (cur_addr c), FU16 (base_count c), FU16 (cur_count c), FU8 (page c),
     FBool (addr_decrement c), FBool (auto_init c), FU8 (transfer_kind c), FU8 (transfer_mode c),
     FBool (masked c), FBool (reached_tc c), FBool (dreq c), FBool (active c)]"

definition write_canonical_dma_chip :: "dma_chip \<Rightarrow> bool \<Rightarrow> field list" where
  "write_canonical_dma_chip c as_master =
    [FBool (hi_lo c), FU8 (effective_command c as_master), FU8 (status c AND 0x0f), FU8 (request_reg c AND 0x0f)]
    @ concat (map write_canonical_dma_channel (channels c))"

definition dma_payload :: "dma_controller \<Rightarrow> field list" where
  "dma_payload d =
    write_canonical_dma_chip (dma_master d) True @ write_canonical_dma_chip (dma_slave d) False
    @ map (\<lambda>port. FU8 (page_scratch d ! scratch_index port)) [0x84, 0x85, 0x86, 0x88, 0x8c, 0x8d, 0x8e]
    @ [FU8 (refresh_page d)]"

definition dma_event_totals :: "dma_controller \<Rightarrow> field list" where
  "dma_event_totals d = map (\<lambda>c. FU64 (transfer_cycles c)) (channels (dma_master d) @ channels (dma_slave d))"

section \<open>Addresses\<close>

lemma page_or_offset:
  fixes p :: u8 and a :: u16
  shows "unat (push_bit 16 (ucast p) OR ucast a :: u32) = unat p * 65536 + unat a"
proof -
  have "push_bit 16 (ucast p) AND (ucast a :: u32) = 0"
    by (rule bit_eqI) (auto simp: bit_simps dest!: bit_imp_le_length)
  then have or: "(push_bit 16 (ucast p) OR ucast a :: u32) = ucast p * 65536 + ucast a"
    by (simp add: disjunctive_add_eq_or [symmetric] push_bit_eq_mult)
  have p: "unat p < 256" and a: "unat a < 65536" using unsigned_less [of p] unsigned_less [of a] by simp_all
  then have "unat (ucast p :: u32) = unat p" "unat (ucast a :: u32) = unat a"
    by (simp_all add: unsigned_ucast_eq take_bit_nat_eq_self)
  then show ?thesis using p a unfolding or by (simp add: unat_word_ariths)
qed

lemma byte_address_value: "unat (byte_address c) = unat (page c) * 65536 + unat (cur_addr c)"
  unfolding byte_address_def by (rule page_or_offset)

lemma page_or_words:
  fixes q :: u8 and a :: u16
  assumes "\<not> bit q 0"
  shows "unat (push_bit 16 (ucast q) OR push_bit 1 (ucast a) :: u32) = unat q * 65536 + unat a * 2"
proof -
  have "\<not> (bit (push_bit 16 (ucast q) :: u32) n \<and> bit (push_bit 1 (ucast a) :: u32) n)" for n
  proof
    assume "bit (push_bit 16 (ucast q) :: u32) n \<and> bit (push_bit 1 (ucast a) :: u32) n"
    then have "16 \<le> n" "bit q (n - 16)" "bit a (n - 1)"
      unfolding bit_push_bit_iff by (simp_all add: bit_simps)
    moreover from \<open>bit a (n - 1)\<close> have "n - 1 < 16" by (auto dest: bit_imp_le_length)
    ultimately have "n = 16" by linarith
    with \<open>bit q (n - 16)\<close> show False using assms by simp
  qed
  then have "push_bit 16 (ucast q) AND (push_bit 1 (ucast a) :: u32) = 0"
    by (intro bit_eqI) (simp add: bit_and_iff)
  then have or: "(push_bit 16 (ucast q) OR push_bit 1 (ucast a) :: u32) = ucast q * 65536 + ucast a * 2"
    by (simp add: disjunctive_add_eq_or [symmetric] push_bit_eq_mult)
  have q: "unat q < 256" and a: "unat a < 65536" using unsigned_less [of q] unsigned_less [of a] by simp_all
  then have "unat (ucast q :: u32) = unat q" "unat (ucast a :: u32) = unat a"
    by (simp_all add: unsigned_ucast_eq take_bit_nat_eq_self)
  then show ?thesis using q a unfolding or by (simp add: unat_word_ariths)
qed

lemma bit_even_mask:
  assumes "n < 8"
  shows "bit (0xFE :: u8) n \<longleftrightarrow> n \<noteq> 0" and "bit (0xFE :: u32) n \<longleftrightarrow> n \<noteq> 0"
proof -
  have "n \<in> {0, 1, 2, 3, 4, 5, 6, 7}" using assms by auto
  then have "(bit (0xFE :: u8) n \<longleftrightarrow> n \<noteq> 0) \<and> (bit (0xFE :: u32) n \<longleftrightarrow> n \<noteq> 0)"
    by (elim insertE) (simp_all add: bit_numeral_rec)
  then show "bit (0xFE :: u8) n \<longleftrightarrow> n \<noteq> 0" and "bit (0xFE :: u32) n \<longleftrightarrow> n \<noteq> 0" by blast+
qed

lemma even_page: "unat (p AND 0xFE :: u8) = unat p div 2 * 2" "\<not> bit (p AND 0xFE :: u8) 0"
  "(ucast p AND 0xFE :: u32) = ucast (p AND 0xFE)"
proof -
  note fe = bit_even_mask
  show z: "\<not> bit (p AND 0xFE) 0" by (simp add: bit_and_iff)
  have "p AND 0xFE = push_bit 1 (drop_bit 1 p)"
  proof (rule bit_word_eqI)
    fix n assume "n < LENGTH(8)"
    then have n: "n < 8" by simp
    show "bit (p AND 0xFE) n = bit (push_bit 1 (drop_bit 1 p)) n"
      unfolding bit_and_iff bit_push_bit_iff bit_drop_bit_eq fe(1) [OF n] using n by auto
  qed
  then have "unat (p AND 0xFE) = unat (p div 2 * 2)" by (simp add: push_bit_eq_mult drop_bit_eq_div mult.commute)
  moreover have "unat p < 256" using unsigned_less [of p] by simp
  ultimately show "unat (p AND 0xFE :: u8) = unat p div 2 * 2" by (simp add: unat_word_ariths unat_div)
  show "(ucast p AND 0xFE :: u32) = ucast (p AND 0xFE)"
  proof (rule bit_word_eqI)
    fix n assume "n < LENGTH(32)"
    show "bit (ucast p AND 0xFE :: u32) n = bit (ucast (p AND 0xFE) :: u32) n"
      by (cases "n < 8") (auto simp: bit_and_iff fe bit_simps dest: bit_imp_le_length)
  qed
qed

lemma word_address_value: "unat (word_address c) = unat (page c) div 2 * 131072 + unat (cur_addr c) * 2"
  unfolding word_address_def even_page(3) page_or_words [OF even_page(2)] by (simp add: even_page(1))

text \<open>The \<open>i\<close>th byte address of the block a channel points at: the offset wraps in its page.\<close>

definition block_offset :: "dma_channel \<Rightarrow> nat \<Rightarrow> u16" where
  "block_offset c i = (if addr_decrement c then cur_addr c - of_nat i else cur_addr c + of_nat i)"

definition block_addr :: "dma_channel \<Rightarrow> nat \<Rightarrow> nat" where
  "block_addr c i = unat (page c) * 65536 + unat (block_offset c i)"

lemma block_addr_inj: "i < 65536 \<Longrightarrow> j < 65536 \<Longrightarrow> block_addr c i = block_addr c j \<longleftrightarrow> i = j"
proof
  assume ij: "i < 65536" "j < 65536" and "block_addr c i = block_addr c j"
  then have "(of_nat i :: u16) = of_nat j" 
    by (auto simp: block_addr_def block_offset_def word_unat_eq_iff [symmetric] split: if_splits)
  then show "i = j" using ij by (simp add: word_of_nat_eq_iff take_bit_nat_eq_self)
qed simp

text \<open>A channel after \<open>i\<close> transfers.\<close>

lemma step_transfer_keeps [simp]:
  "page (step_transfer c) = page c" "addr_decrement (step_transfer c) = addr_decrement c"
  "auto_init (step_transfer c) = auto_init c" "base_addr (step_transfer c) = base_addr c"
  "base_count (step_transfer c) = base_count c" "transfer_kind (step_transfer c) = transfer_kind c"
  "transfer_mode (step_transfer c) = transfer_mode c" "dreq (step_transfer c) = dreq c"
  "active (step_transfer c) = active c" "window (step_transfer c) = window c"
  by (simp_all add: step_transfer_def Let_def)

lemma steps_keep:
  "page ((step_transfer ^^ i) c) = page c" "addr_decrement ((step_transfer ^^ i) c) = addr_decrement c"
  "auto_init ((step_transfer ^^ i) c) = auto_init c"
  by (induction i) simp_all

lemma steps_count:
  "i \<le> unat (cur_count c) \<Longrightarrow> unat (cur_count ((step_transfer ^^ i) c)) = unat (cur_count c) - i"
proof (induction i)
  case (Suc i)
  then have "cur_count ((step_transfer ^^ i) c) \<noteq> 0" by auto
  with Suc show ?case by (simp add: cur_count_step unat_pred)
qed simp

lemma step_addr:
  "cur_count c \<noteq> 0 \<or> \<not> auto_init c \<Longrightarrow> cur_addr (step_transfer c) = block_offset c 1"
  by (auto simp: step_transfer_def Let_def block_offset_def)

lemma steps_addr:
  assumes "auto_init c \<longrightarrow> i \<le> unat (cur_count c)"
  shows "cur_addr ((step_transfer ^^ i) c) = block_offset c i"
  using assms
proof (induction i)
  case 0
  then show ?case by (simp add: block_offset_def)
next
  case (Suc i)
  have "cur_count ((step_transfer ^^ i) c) \<noteq> 0 \<or> \<not> auto_init c"
  proof (cases "auto_init c")
    case True
    then have "i < unat (cur_count c)" using Suc.prems by simp
    then show ?thesis using steps_count [of i c] by auto
  qed simp
  moreover have "cur_addr ((step_transfer ^^ i) c) = block_offset c i"
    using Suc.prems by (intro Suc.IH) auto
  ultimately show ?case
    using step_addr [of "(step_transfer ^^ i) c"] by (simp add: steps_keep block_offset_def)
qed

lemma steps_address:
  "auto_init c \<longrightarrow> i \<le> unat (cur_count c) \<Longrightarrow> unat (byte_address ((step_transfer ^^ i) c)) = block_addr c i"
  by (simp add: byte_address_value steps_addr steps_keep block_addr_def)

section \<open>Memory to memory\<close>

definition source_step :: "bool \<Rightarrow> dma_channel \<Rightarrow> dma_channel" where
  "source_step hold c = (if hold then hold_source c else step_transfer c)"

lemma mem_to_mem_loop_run:
  assumes "\<And>i. i \<le> unat (cur_count c1) \<Longrightarrow>
      unat (byte_address ((source_step hold ^^ i) c0)) < length m
      \<and> unat (byte_address ((step_transfer ^^ i) c1)) < length m"
  shows "mem_to_mem_loop hold c0 c1 m copied =
    (Some (copied + unat (cur_count c1) + 1),
     (source_step hold ^^ (unat (cur_count c1) + 1)) c0, (step_transfer ^^ (unat (cur_count c1) + 1)) c1,
     fold (\<lambda>i m. m[unat (byte_address ((step_transfer ^^ i) c1)) :=
                      m ! unat (byte_address ((source_step hold ^^ i) c0))]) [0..<unat (cur_count c1) + 1] m)"
  using assms
proof (induction "unat (cur_count c1)" arbitrary: c0 c1 m copied)
  case 0
  then have "cur_count c1 = 0" by (metis unat_eq_zero)
  then show ?case
    using "0.prems" [of 0]
    by (subst mem_to_mem_loop.simps)
      (simp add: mem_read_u8_def mem_write_u8_def Let_def reached_tc_step source_step_def)
next
  case (Suc k)
  let ?m = "m[unat (byte_address c1) := m ! unat (byte_address c0)]"
  let ?c0 = "source_step hold c0" and ?c1 = "step_transfer c1"
  have nz: "cur_count c1 \<noteq> 0" using Suc.hyps(2) by auto
  then have k: "unat (cur_count ?c1) = k" using Suc.hyps(2) by (simp add: cur_count_step unat_pred)
  have in_range: "unat (byte_address ((source_step hold ^^ i) ?c0)) < length ?m
      \<and> unat (byte_address ((step_transfer ^^ i) ?c1)) < length ?m" if "i \<le> unat (cur_count ?c1)" for i
    using Suc.prems [of "Suc i"] that k Suc.hyps(2) by (simp add: funpow_Suc_right del: funpow.simps)
  have "mem_to_mem_loop hold c0 c1 m copied = mem_to_mem_loop hold ?c0 ?c1 ?m (copied + 1)"
    using Suc.prems [of 0] nz
    by (subst mem_to_mem_loop.simps)
      (simp add: mem_read_u8_def mem_write_u8_def Let_def reached_tc_step source_step_def)
  also have "\<dots> = (Some (copied + 1 + k + 1), (source_step hold ^^ (k + 1)) ?c0, (step_transfer ^^ (k + 1)) ?c1,
     fold (\<lambda>i m. m[unat (byte_address ((step_transfer ^^ i) ?c1)) :=
                      m ! unat (byte_address ((source_step hold ^^ i) ?c0))]) [0..<k + 1] ?m)"
    using Suc.hyps(1) [of ?c1 ?c0 ?m "copied + 1"] in_range unfolding k by (simp add: k)
  also have "[0..<unat (cur_count c1) + 1] = 0 # map Suc [0..<k + 1]"
    using Suc.hyps(2) by (simp add: upt_conv_Cons map_Suc_upt del: upt_Suc)
  then have "fold (\<lambda>i m. m[unat (byte_address ((step_transfer ^^ i) ?c1)) :=
                      m ! unat (byte_address ((source_step hold ^^ i) ?c0))]) [0..<k + 1] ?m =
      fold (\<lambda>i m. m[unat (byte_address ((step_transfer ^^ i) c1)) :=
                      m ! unat (byte_address ((source_step hold ^^ i) c0))]) [0..<unat (cur_count c1) + 1] m"
    by (simp add: fold_map comp_def funpow_Suc_right del: funpow.simps upt_Suc)
  finally show ?case
    using Suc.hyps(2) by (simp add: funpow_Suc_right del: funpow.simps)
qed

text \<open>Copying one byte after the other, where no source is a destination.\<close>

lemma fold_copy:
  fixes m :: memory
  assumes "inj_on dst (set is)" and "\<And>i j. i \<in> set is \<Longrightarrow> j \<in> set is \<Longrightarrow> src i \<noteq> dst j"
    and "\<And>i. i \<in> set is \<Longrightarrow> dst i < length m" and "distinct is"
  shows "length (fold (\<lambda>i m. m[dst i := m ! src i]) is m) = length m
    \<and> (\<forall>i \<in> set is. fold (\<lambda>i m. m[dst i := m ! src i]) is m ! dst i = m ! src i)
    \<and> (\<forall>a. a \<notin> dst ` set is \<longrightarrow> fold (\<lambda>i m. m[dst i := m ! src i]) is m ! a = m ! a)"
  using assms
proof (induction "is" arbitrary: m)
  case (Cons i "is")
  let ?m = "m[dst i := m ! src i]"
  have IH: "length (fold (\<lambda>i m. m[dst i := m ! src i]) is ?m) = length ?m
    \<and> (\<forall>i \<in> set is. fold (\<lambda>i m. m[dst i := m ! src i]) is ?m ! dst i = ?m ! src i)
    \<and> (\<forall>a. a \<notin> dst ` set is \<longrightarrow> fold (\<lambda>i m. m[dst i := m ! src i]) is ?m ! a = ?m ! a)"
    using Cons.prems by (intro Cons.IH) (auto simp: inj_on_def)
  have other: "dst i \<notin> dst ` set is" using Cons.prems(1,4) by (auto simp: inj_on_def)
  have same: "?m ! src j = m ! src j" if "j \<in> set (i # is)" for j
    using Cons.prems(2) [of j i] that by (auto simp: nth_list_update)
  show ?case using IH other same Cons.prems(3) by (auto simp: nth_list_update)
qed simp

lemma source_address:
  assumes "auto_init c \<longrightarrow> i \<le> unat (cur_count c)"
  shows "unat (byte_address ((source_step hold ^^ i) c)) = block_addr c (if hold then 0 else i)"
proof (cases hold)
  case True
  have "page ((hold_source ^^ i) c) = page c \<and> cur_addr ((hold_source ^^ i) c) = cur_addr c"
    by (induction i) (simp_all add: hold_source_def)
  moreover have "source_step hold = hold_source" using True by (intro ext) (simp add: source_step_def)
  ultimately show ?thesis using True by (simp add: byte_address_value block_addr_def block_offset_def)
next
  case False
  have "source_step hold = step_transfer" using False by (intro ext) (simp add: source_step_def)
  then show ?thesis using False steps_address [OF assms] by simp
qed

definition chip_ok :: "dma_chip \<Rightarrow> bool" where
  "chip_ok c \<longleftrightarrow> length (channels c) = 4"

lemma block_addr_active [simp]: "block_addr (c\<lparr>active := b\<rparr>) i = block_addr c i"
  by (simp add: block_addr_def block_offset_def)

section \<open>A block of device reads\<close>

text \<open>\<open>n\<close> device cycles on one channel.\<close>

fun cycle_reads :: "dma_chip \<Rightarrow> nat \<Rightarrow> memory \<Rightarrow> nat \<Rightarrow> u8 option list \<times> dma_chip" where
  "cycle_reads c ci m 0 = ([], c)"
| "cycle_reads c ci m (Suc n) =
    (let (v, c') = cycle_read_byte c ci m; (vs, c'') = cycle_reads c' ci m n in (v # vs, c''))"

text \<open>A channel that is ready to play memory to its device.\<close>

definition read_ready :: "dma_chip \<Rightarrow> nat \<Rightarrow> bool" where
  "read_ready c ci \<longleftrightarrow> chip_ok c \<and> ci < 4 \<and> \<not> controller_disabled c \<and> \<not> masked (channels c ! ci)
     \<and> transfer_kind (channels c ! ci) = 2 \<and> transfer_mode (channels c ! ci) \<noteq> 3"

lemma upd_channel_nth [simp]:
  "chip_ok c \<Longrightarrow> ci < 4 \<Longrightarrow> channels (upd_channel c ci f) ! ci = f (channels c ! ci)"
  "chip_ok (upd_channel c ci f) = chip_ok c"
  "command (upd_channel c ci f) = command c" "request_reg (upd_channel c ci f) = request_reg c"
  "status (upd_channel c ci f) = status c" "hi_lo (upd_channel c ci f) = hi_lo c"
  by (simp_all add: upd_channel_def chip_ok_def)

lemma set_request_nth:
  "chip_ok c \<Longrightarrow> ci < 4 \<Longrightarrow> channels (set_hardware_request c ci on) ! ci =
    (let ch = (channels c ! ci)\<lparr>dreq := on\<rparr> in
      if \<not> on \<and> transfer_mode ch \<noteq> 2 then ch\<lparr>active := False\<rparr> else ch)"
  "chip_ok (set_hardware_request c ci on) = chip_ok c"
  "command (set_hardware_request c ci on) = command c"
  by (simp_all add: set_hardware_request_def)

lemma finish_nth:
  "chip_ok c \<Longrightarrow> ci < 4 \<Longrightarrow> channels (finish_cycle c ci True) ! ci =
    (let ch = channels c ! ci in if reached_tc ch \<or> transfer_mode ch \<noteq> 2 then ch\<lparr>active := False\<rparr> else ch)"
  "chip_ok (finish_cycle c ci b) = chip_ok c" "command (finish_cycle c ci b) = command c"
  by (simp_all add: finish_cycle_def Let_def) (simp add: upd_channel_def chip_ok_def)+

text \<open>The channel a device cycle leaves, up to the request and grant flags.\<close>

lemma step_transfer_flags:
  "step_transfer (c\<lparr>dreq := a, reached_tc := t, active := b\<rparr>) = (step_transfer c)\<lparr>dreq := a, active := b\<rparr>"
  by (cases c) (simp add: step_transfer_def Let_def)

lemma cycle_read_byte_run:
  assumes ready: "read_ready c ci" and addr: "unat (byte_address (channels c ! ci)) < length m"
  shows "\<exists>c'. cycle_read_byte c ci m = (Some (m ! unat (byte_address (channels c ! ci))), c')
    \<and> chip_ok c' \<and> command c' = command c
    \<and> channels c' ! ci = (step_transfer (channels c ! ci))
        \<lparr>dreq := False, active := (transfer_mode (channels c ! ci) = 2 \<and> cur_count (channels c ! ci) \<noteq> 0)\<rparr>"
proof -
  let ?ch = "channels c ! ci"
  let ?ch2 = "?ch\<lparr>dreq := True, reached_tc := False, active := True\<rparr>"
  let ?c1 = "set_hardware_request c ci True"
  let ?c2 = "upd_channel ?c1 ci (\<lambda>ch. ch\<lparr>reached_tc := False, active := True\<rparr>)"
  let ?c3 = "upd_channel ?c2 ci (\<lambda>_. step_transfer ?ch2)"
  let ?c5 = "set_hardware_request (finish_cycle ?c3 ci True) ci False"
  have ok: "chip_ok c" "ci < 4" and enabled: "\<not> controller_disabled c"
    and ch: "\<not> masked ?ch" "transfer_kind ?ch = 2" "transfer_mode ?ch \<noteq> 3"
    using ready by (simp_all add: read_ready_def)
  have ch1: "channels ?c1 ! ci = ?ch\<lparr>dreq := True\<rparr>" using ok by (simp add: set_request_nth)
  have ok1: "chip_ok ?c1" using ok by (simp add: set_request_nth)
  have "begin_cycle ?c1 ci = (True, ?c2)"
    using ch enabled ch1
    by (simp add: begin_cycle_def Let_def request_active_def controller_disabled_def set_request_nth)
  moreover have ch2: "channels ?c2 ! ci = ?ch2" using ok ok1 ch1 by simp
  moreover have "byte_address ?ch2 = byte_address ?ch" by (simp add: byte_address_def)
  ultimately have run: "cycle_read_byte c ci m = (Some (m ! unat (byte_address ?ch)), ?c5)"
    using ch addr
    by (simp add: cycle_read_byte_def chip_read_byte_def channel_read_byte_def mem_read_u8_def Let_def case_prod_beta)
  have ch3: "channels ?c3 ! ci = (step_transfer ?ch)\<lparr>dreq := True, active := True\<rparr>" "chip_ok ?c3"
    using ok ok1 by (simp_all add: step_transfer_flags)
  then have "channels ?c5 ! ci = (step_transfer ?ch)
        \<lparr>dreq := False, active := (transfer_mode ?ch = 2 \<and> cur_count ?ch \<noteq> 0)\<rparr>"
    using ok by (auto simp: set_request_nth finish_nth Let_def reached_tc_step)
  moreover have "chip_ok ?c5" "command ?c5 = command c"
    using ok by (simp_all add: set_request_nth finish_nth)
  ultimately show ?thesis using run by blast
qed

lemma masked_step: "\<not> masked c \<Longrightarrow> masked (step_transfer c) \<longleftrightarrow> cur_count c = 0 \<and> \<not> auto_init c"
  by (simp add: step_transfer_def Let_def)

lemma step_terminal:
  "cur_count c = 0 \<Longrightarrow> auto_init c \<Longrightarrow> cur_addr (step_transfer c) = base_addr c \<and> cur_count (step_transfer c) = base_count c"
  by (simp add: step_transfer_def Let_def)

lemma block_addr_dreq [simp]: "block_addr (c\<lparr>dreq := a\<rparr>) i = block_addr c i"
  by (simp add: block_addr_def block_offset_def)

lemma block_addr_step: "cur_count c \<noteq> 0 \<Longrightarrow> block_addr (step_transfer c) i = block_addr c (Suc i)"
  using step_addr [of c] by (simp add: block_addr_def block_offset_def algebra_simps)

text \<open>What a whole block does, and a proper part of it.\<close>

lemma cycle_reads_run:
  assumes "read_ready c ci" and "n \<le> unat (cur_count (channels c ! ci)) + 1"
    and "\<And>i. i < n \<Longrightarrow> block_addr (channels c ! ci) i < length m"
  shows "fst (cycle_reads c ci m n) = map (\<lambda>i. Some (m ! block_addr (channels c ! ci) i)) [0..<n]
    \<and> chip_ok (snd (cycle_reads c ci m n))
    \<and> (let ch = channels c ! ci; ch' = channels (snd (cycle_reads c ci m n)) ! ci in
       (0 < n \<longrightarrow> reached_tc ch' = (n = unat (cur_count ch) + 1))
       \<and> masked ch' = (n = unat (cur_count ch) + 1 \<and> \<not> auto_init ch)
       \<and> (n = unat (cur_count ch) + 1 \<and> auto_init ch \<longrightarrow> cur_addr ch' = base_addr ch \<and> cur_count ch' = base_count ch)
       \<and> transfer_mode ch' = transfer_mode ch)"
  using assms
proof (induction n arbitrary: c)
  case 0
  then show ?case by (simp add: read_ready_def)
next
  case (Suc n)
  let ?ch = "channels c ! ci"
  have a0: "unat (byte_address ?ch) = block_addr ?ch 0" by (simp add: byte_address_value block_addr_def block_offset_def)
  obtain c' where c': "cycle_read_byte c ci m = (Some (m ! block_addr ?ch 0), c')" "chip_ok c'" "command c' = command c"
    "channels c' ! ci = (step_transfer ?ch)\<lparr>dreq := False, active := (transfer_mode ?ch = 2 \<and> cur_count ?ch \<noteq> 0)\<rparr>"
    using cycle_read_byte_run [OF Suc.prems(1), of m] Suc.prems(3) [of 0] unfolding a0 by auto
  have unm: "\<not> masked ?ch" using Suc.prems(1) by (simp add: read_ready_def)
  show ?case
  proof (cases "cur_count ?ch = 0")
    case True
    then have "n = 0" using Suc.prems(2) by simp
    with True c' unm show ?thesis by (auto simp: reached_tc_step masked_step step_terminal)
  next
    case False
    have ready: "read_ready c' ci"
      using Suc.prems(1) c' False by (simp add: read_ready_def controller_disabled_def masked_step)
    have count: "unat (cur_count (channels c' ! ci)) + 1 = unat (cur_count ?ch)"
      using False by (simp add: c'(4) cur_count_step unat_pred) (metis Suc_pred unat_gt_0)
    have step: "block_addr (channels c' ! ci) i = block_addr ?ch (Suc i)" for i
      using False by (simp add: c'(4) block_addr_step)
    have outs: "map (\<lambda>i. Some (m ! block_addr ?ch i)) [0..<Suc n] =
        Some (m ! block_addr ?ch 0) # map (\<lambda>i. Some (m ! block_addr ?ch (Suc i))) [0..<n]"
      by (simp add: upt_conv_Cons map_Suc_upt [symmetric] del: upt_Suc)
    have pre: "n \<le> unat (cur_count (channels c' ! ci)) + 1" using count Suc.prems(2) by simp
    have pre2: "\<And>i. i < n \<Longrightarrow> block_addr (channels c' ! ci) i < length m" using Suc.prems(3) step by simp
    have keep: "auto_init (channels c' ! ci) = auto_init ?ch" "base_addr (channels c' ! ci) = base_addr ?ch"
      "base_count (channels c' ! ci) = base_count ?ch" "transfer_mode (channels c' ! ci) = transfer_mode ?ch"
      by (simp_all add: c'(4))
    note IH = Suc.IH [OF ready pre pre2, unfolded count step Let_def keep]
    have run: "fst (cycle_reads c ci m (Suc n)) = Some (m ! block_addr ?ch 0) # fst (cycle_reads c' ci m n)"
      "snd (cycle_reads c ci m (Suc n)) = snd (cycle_reads c' ci m n)"
      by (simp_all add: c'(1) case_prod_beta)
    have "reached_tc (channels c' ! ci) = False"
      using False by (simp add: c'(4) reached_tc_step)
    then show ?thesis
      unfolding run outs Let_def using IH False
      by (cases "n = 0") (simp_all add: unat_eq_zero)
  qed
qed

lemma masked_no_read:
  assumes "chip_ok c" and "ci < 4" and "masked (channels c ! ci)"
  shows "fst (cycle_read_byte c ci m) = None"
  using assms
  by (simp add: cycle_read_byte_def chip_read_byte_def begin_cycle_def Let_def set_request_nth case_prod_beta)

section \<open>Programming\<close>

lemma merge_bytes:
  fixes w old :: u16
  shows "(((old AND 0xFF00) OR ucast (lo8 w)) AND 0x00FF) OR push_bit 8 (ucast (hi8 w)) = w"
proof (rule bit_word_eqI)
  fix n assume "n < LENGTH(16)"
  then have "n < 16" by simp
  then have "n \<in> {0, 1, 2, 3, 4, 5, 6, 7, 8, 9, 10, 11, 12, 13, 14, 15}"
    by (simp only: insert_iff empty_iff) presburger
  then show "bit ((((old AND 0xFF00) OR ucast (lo8 w)) AND 0x00FF) OR push_bit 8 (ucast (hi8 w))) n = bit w n"
    by (elim insertE) (simp_all add: bit_simps lo8_def hi8_def bit_numeral_rec)
qed

definition dma_ok :: "dma_controller \<Rightarrow> bool" where
  "dma_ok d \<longleftrightarrow> chip_ok (dma_master d) \<and> chip_ok (dma_slave d) \<and> length (page_scratch d) = 16"

text \<open>The programming sequence of a driver: reset the byte pointer, then low and high byte.\<close>

definition program_pair :: "dma_chip \<Rightarrow> nat \<Rightarrow> u16 \<Rightarrow> dma_chip" where
  "program_pair c local w = write_local (write_local (write_local c 12 0) local (lo8 w)) local (hi8 w)"

definition read_pair :: "dma_chip \<Rightarrow> nat \<Rightarrow> (u8 option \<times> u8 option) \<times> dma_chip" where
  "read_pair c local =
    (let (lo, c1) = read_local (write_local c 12 0) local; (hi, c2) = read_local c1 local in ((lo, hi), c2))"

lemma locals_of_channel:
  "addr_channel (2 * ci) = (if ci < 4 then Some ci else None)"
  "addr_channel (Suc (2 * ci)) = None" "count_channel (Suc (2 * ci)) = (if ci < 4 then Some ci else None)"
  "addr_channel 12 = None" "count_channel 12 = None" "addr_channel 13 = None" "count_channel 13 = None"
  "addr_channel 10 = None" "count_channel 10 = None"
  by (auto simp: addr_channel_def count_channel_def)

lemma program_addr:
  assumes "chip_ok c" and "ci < 4"
  shows "program_pair c (2 * ci) w =
    c\<lparr>hi_lo := False, channels := (channels c)[ci := (channels c ! ci)\<lparr>base_addr := w, cur_addr := w\<rparr>]\<rparr>"
  using assms
  by (simp add: program_pair_def write_local_def locals_of_channel write_addr_def Let_def upd_channel_def chip_ok_def
      merge_bytes)

lemma program_count:
  assumes "chip_ok c" and "ci < 4"
  shows "program_pair c (2 * ci + 1) w =
    c\<lparr>hi_lo := False, status := status c AND NOT (chip_bit ci),
      channels := (channels c)[ci := (channels c ! ci)\<lparr>base_count := w, cur_count := w, reached_tc := False, window := None\<rparr>]\<rparr>"
  using assms
  by (simp add: program_pair_def write_local_def locals_of_channel write_count_def Let_def upd_channel_def chip_ok_def
      merge_bytes and.assoc)

lemma read_back_addr:
  "ci < 4 \<Longrightarrow> read_pair c (2 * ci) =
    ((Some (lo8 (cur_addr (channels c ! ci))), Some (hi8 (cur_addr (channels c ! ci)))), c\<lparr>hi_lo := False\<rparr>)"
  by (simp add: read_pair_def read_local_def write_local_def locals_of_channel read_addr_def split_read_def Let_def)

lemma read_back_count:
  "ci < 4 \<Longrightarrow> read_pair c (2 * ci + 1) =
    ((Some (lo8 (cur_count (channels c ! ci))), Some (hi8 (cur_count (channels c ! ci)))), c\<lparr>hi_lo := False\<rparr>)"
  by (simp add: read_pair_def read_local_def write_local_def locals_of_channel read_count_def split_read_def Let_def)

section \<open>The interpolated count\<close>

definition window_ok :: "dma_channel \<Rightarrow> bool" where
  "window_ok c \<longleftrightarrow> (case window c of None \<Rightarrow> True | Some w \<Rightarrow> start_tick w \<le> deadline_tick w)"

lemma byte_cycle: "BYTE_CYCLE_TICKS = 3287"
  by (simp add: BYTE_CYCLE_TICKS_def MASTER_CLOCK_HZ_def div_ceil_def)

lemma count_after_inside:
  assumes "window c = Some w" and "start_tick w < now" and "now < deadline_tick w"
  shows "unat (count_after c now) = unat (start_count w) -
    min (min ((now - start_tick w) * (unat (start_count w) + 1) div (deadline_tick w - start_tick w))
             ((now - start_tick w) div BYTE_CYCLE_TICKS)) (unat (start_count w))"
proof -
  have "unat (of_nat (unat (start_count w) - k) :: u16) = unat (start_count w) - k" for k
    using unat_less_u16 [of "start_count w"] by (simp add: unat_of_nat)
  moreover have "max (deadline_tick w - start_tick w) 1 = deadline_tick w - start_tick w" using assms by simp
  moreover have "max BYTE_CYCLE_TICKS 1 = BYTE_CYCLE_TICKS" by (simp add: byte_cycle)
  ultimately show ?thesis using assms by (simp add: count_after_def Let_def del: of_nat_diff)
qed

section \<open>Properties\<close>

text \<open>C15: A programmed block plays exactly. On a channel set up for memory-to-device transfers, the
  device's next \<open>count + 1\<close> cycles deliver the bytes at the successive offsets of the block, up or
  down, wrapping inside the page; terminal count is reported on the last cycle and on no earlier
  one; afterwards an auto-init channel stands at its base registers again, and any other channel
  is masked and delivers nothing more.\<close>

theorem dma_block_read:
  assumes ready: "read_ready c ci" and n: "n = unat (cur_count (channels c ! ci)) + 1"
    and range: "\<forall>i<n. block_addr (channels c ! ci) i < length m"
  shows "fst (cycle_reads c ci m n) = map (\<lambda>i. Some (m ! block_addr (channels c ! ci) i)) [0..<n]
    \<and> (\<forall>k. 0 < k \<and> k \<le> n \<longrightarrow> reached_tc (channels (snd (cycle_reads c ci m k)) ! ci) = (k = n))
    \<and> (if auto_init (channels c ! ci)
       then cur_addr (channels (snd (cycle_reads c ci m n)) ! ci) = base_addr (channels c ! ci)
          \<and> cur_count (channels (snd (cycle_reads c ci m n)) ! ci) = base_count (channels c ! ci)
       else fst (cycle_read_byte (snd (cycle_reads c ci m n)) ci m) = None)"
proof -
  have part: "reached_tc (channels (snd (cycle_reads c ci m k)) ! ci) = (k = n)" if "0 < k" "k \<le> n" for k
    using cycle_reads_run [OF ready, of k m] that range n by (simp add: Let_def)
  have whole: "fst (cycle_reads c ci m n) = map (\<lambda>i. Some (m ! block_addr (channels c ! ci) i)) [0..<n]"
    "chip_ok (snd (cycle_reads c ci m n))"
    "masked (channels (snd (cycle_reads c ci m n)) ! ci) = (\<not> auto_init (channels c ! ci))"
    "auto_init (channels c ! ci) \<Longrightarrow> cur_addr (channels (snd (cycle_reads c ci m n)) ! ci) = base_addr (channels c ! ci)
       \<and> cur_count (channels (snd (cycle_reads c ci m n)) ! ci) = base_count (channels c ! ci)"
    using cycle_reads_run [OF ready, of n m] range n by (simp_all add: Let_def)
  have "ci < 4" using ready by (simp add: read_ready_def)
  then show ?thesis
    using part whole masked_no_read [OF whole(2), of ci m] by simp
qed

definition sample_chip :: dma_chip where
  "sample_chip = chip_default\<lparr>channels := [channel_default, channel_default\<lparr>cur_addr := 2, base_addr := 2,
     cur_count := 1, base_count := 1, transfer_kind := 2, transfer_mode := 1, masked := False\<rparr>,
     channel_default, channel_default]\<rparr>"

theorem dma_block_read_witness:
  "fst (cycle_reads sample_chip 1 [10, 11, 12, 13] 2) = [Some 12, Some 13]
   \<and> fst (cycle_read_byte (snd (cycle_reads sample_chip 1 [10, 11, 12, 13] 2)) 1 [10, 11, 12, 13]) = None"
proof -
  have ready: "read_ready sample_chip 1"
    by (simp add: sample_chip_def chip_default_def channel_default_def read_ready_def chip_ok_def
        controller_disabled_def test_def)
  have ch: "unat (cur_count (channels sample_chip ! 1)) = 1" "\<not> auto_init (channels sample_chip ! 1)"
    "block_addr (channels sample_chip ! 1) 0 = 2" "block_addr (channels sample_chip ! 1) 1 = 3"
    by (simp_all add: sample_chip_def channel_default_def block_addr_def block_offset_def)
  have "\<forall>i<2. block_addr (channels sample_chip ! 1) i < length [10, 11, 12, 13 :: u8]"
    using ch by (auto simp: less_2_cases_iff)
  then show ?thesis
    using dma_block_read [OF ready, of 2 "[10, 11, 12, 13]"] ch by (simp add: upt_rec)
qed

text \<open>C19: The memory-to-memory transfer ends and copies the block. Enabled and unmasked, with all
  addresses in memory, no source among the destinations, and an auto-initializing channel zero not
  reloading before channel one ends (its count is not the smaller one), it returns having copied
  \<open>count + 1\<close> bytes: each destination byte is the source byte of its turn, or with address hold the
  one source byte, every other byte of memory is as before, terminal count of channel one is
  latched, and the software requests of both channels are cleared.\<close>

theorem mem_to_mem_copies:
  assumes ok: "chip_ok c" and on: "\<not> controller_disabled c" "mem_to_mem_enabled c" "\<not> masked (channels c ! 0)"
    and n: "n = unat (cur_count (channels c ! 1)) + 1"
    and src: "src = (\<lambda>i. block_addr (channels c ! 0) (if channel0_hold c then 0 else i))"
    and dst: "dst = block_addr (channels c ! 1)"
    and count0: "auto_init (channels c ! 0) \<longrightarrow> cur_count (channels c ! 1) \<le> cur_count (channels c ! 0)"
    and range: "\<forall>i<n. src i < length m \<and> dst i < length m" and apart: "\<forall>i<n. \<forall>j<n. src i \<noteq> dst j"
  shows "\<exists>c' m'. chip_mem_to_mem c m = (Some n, c', m') \<and> length m' = length m
    \<and> (\<forall>i<n. m' ! dst i = m ! src i) \<and> (\<forall>a. a \<notin> dst ` {..<n} \<longrightarrow> m' ! a = m ! a)
    \<and> test (status c') (chip_bit 1) \<and> request_reg c' = request_reg c AND NOT 0x03"
proof -
  let ?c0 = "(channels c ! 0)\<lparr>active := True\<rparr>" and ?c1 = "(channels c ! 1)\<lparr>active := True\<rparr>"
  let ?f = "\<lambda>i m. m[dst i := m ! src i]"
  have s: "unat (byte_address ((source_step (channel0_hold c) ^^ i) ?c0)) = src i" if "i < n" for i
    using source_address [of ?c0 i "channel0_hold c"] count0 that n by (auto simp: src word_le_nat_alt)
  have d: "unat (byte_address ((step_transfer ^^ i) ?c1)) = dst i" if "i < n" for i
    using steps_address [of ?c1 i] that n by (simp add: dst)
  have le: "n \<le> 65536" using unat_less_u16 [of "cur_count (channels c ! 1)"] by (simp add: n)
  have "fold (\<lambda>i m. m[unat (byte_address ((step_transfer ^^ i) ?c1)) :=
      m ! unat (byte_address ((source_step (channel0_hold c) ^^ i) ?c0))]) [0..<n] m = fold ?f [0..<n] m"
    using s d by (intro fold_cong) auto
  then obtain x y where loop: "mem_to_mem_loop (channel0_hold c) ?c0 ?c1 m 0 = (Some n, x, y, fold ?f [0..<n] m)"
    using mem_to_mem_loop_run [of ?c1 "channel0_hold c" ?c0 m 0] s d range by (simp add: n less_Suc_eq_le)
  have copy: "length (fold ?f [0..<n] m) = length m
    \<and> (\<forall>i \<in> set [0..<n]. fold ?f [0..<n] m ! dst i = m ! src i)
    \<and> (\<forall>a. a \<notin> dst ` set [0..<n] \<longrightarrow> fold ?f [0..<n] m ! a = m ! a)"
    using range apart le by (intro fold_copy) (auto simp: inj_on_def dst block_addr_inj)
  let ?c = "(upd_channel (upd_channel c 0 (\<lambda>_. x\<lparr>active := False\<rparr>)) 1 (\<lambda>_. y\<lparr>active := False\<rparr>))
      \<lparr>status := status c OR chip_bit 1, request_reg := request_reg c AND NOT 0x03\<rparr>"
  have "chip_mem_to_mem c m = (Some n, ?c, fold ?f [0..<n] m)"
    using on loop by (simp add: chip_mem_to_mem_def)
  moreover have "test (status c OR chip_bit 1) (chip_bit 1)"
    using and_push_bit_1_nonzero [of "status c OR chip_bit 1" 1] by (simp add: test_def chip_bit_def bit_simps)
  ultimately show ?thesis
    using copy by (intro exI [of _ ?c] exI [of _ "fold ?f [0..<n] m"]) (simp add: lessThan_atLeast0 del: fold.simps)
qed

definition copy_chip :: dma_chip where
  "copy_chip = chip_default\<lparr>command := 1, request_reg := 1,
     channels := [channel_default\<lparr>masked := False\<rparr>, channel_default\<lparr>cur_addr := 2, cur_count := 1\<rparr>,
       channel_default, channel_default]\<rparr>"

theorem mem_to_mem_copies_witness:
  "\<exists>c' m'. chip_mem_to_mem copy_chip [10, 11, 12, 13] = (Some 2, c', m') \<and> m' ! 2 = 10 \<and> m' ! 3 = 11"
proof -
  have c: "chip_ok copy_chip" "\<not> controller_disabled copy_chip" "mem_to_mem_enabled copy_chip"
    "\<not> masked (channels copy_chip ! 0)" "\<not> channel0_hold copy_chip" "\<not> auto_init (channels copy_chip ! 0)"
    "unat (cur_count (channels copy_chip ! 1)) = 1"
    by (simp_all add: copy_chip_def chip_default_def channel_default_def chip_ok_def controller_disabled_def
        mem_to_mem_enabled_def channel0_hold_def test_def)
  have a: "block_addr (channels copy_chip ! 0) i = i" "block_addr (channels copy_chip ! 1) i = i + 2" if "i < 2" for i
    using that by (auto simp: less_2_cases_iff copy_chip_def channel_default_def block_addr_def block_offset_def)
  show ?thesis
    using mem_to_mem_copies [OF c(1-4) _ refl refl, of 2 "[10, 11, 12, 13]"] a [of 0] a [of 1] c
    by (auto simp: less_Suc_eq numeral_2_eq_2 numeral_3_eq_3)
qed

text \<open>Programming reads back. After a driver resets the byte pointer and writes the low and the high
  byte of an address or a count, the base and the current register hold the word, no other channel
  and no other register of this channel has changed (a count also clears its terminal-count latch and its
  window), and the same pair of reads returns the two bytes.\<close>

lemma dma_program_readback:
  assumes ok: "chip_ok c" and ci: "ci < 4"
  shows "channels (program_pair c (2 * ci) w) = (channels c)[ci := (channels c ! ci)\<lparr>base_addr := w, cur_addr := w\<rparr>]
    \<and> fst (read_pair (program_pair c (2 * ci) w) (2 * ci)) = (Some (lo8 w), Some (hi8 w))
    \<and> channels (program_pair c (2 * ci + 1) w) =
        (channels c)[ci := (channels c ! ci)\<lparr>base_count := w, cur_count := w, reached_tc := False, window := None\<rparr>]
    \<and> fst (read_pair (program_pair c (2 * ci + 1) w) (2 * ci + 1)) = (Some (lo8 w), Some (hi8 w))"
  using ok ci
  unfolding program_addr [OF ok ci] program_count [OF ok ci] read_back_addr [OF ci] read_back_count [OF ci]
  by (simp add: chip_ok_def)

lemma dma_program_readback_witness:
  "fst (read_pair (program_pair chip_default 4 0xBEEF) 4) = (Some 0xEF, Some 0xBE)"
  using dma_program_readback [of chip_default 2 "0xBEEF"]
  by (simp add: chip_ok_def chip_default_def lo8_def hi8_def)

definition page_ports :: "u16 list" where
  "page_ports = [0x81, 0x82, 0x83, 0x84, 0x85, 0x86, 0x87, 0x88, 0x89, 0x8A, 0x8B, 0x8C, 0x8D, 0x8E, 0x8F]"

lemma page_port_decode: "p \<in> set page_ports \<Longrightarrow> \<not> p \<le> 0x0F \<and> slave_local p = None
    \<and> (page_target p \<noteq> None \<or> p = 0x8F \<or> is_scratch_page p)"
  unfolding page_ports_def list.set insert_iff empty_iff
  by (elim disjE; simp add: slave_local_def page_target_def is_scratch_page_def)

lemma page_target_inj: "page_target p = Some x \<Longrightarrow> page_target q = Some x \<Longrightarrow> p = q"
  by (auto simp: page_target_def split: if_splits)

lemma page_target_less: "page_target p = Some (side, ci) \<Longrightarrow> ci < 4"
  by (auto simp: page_target_def split: if_splits)

lemma scratch_index_inj:
  "is_scratch_page p \<Longrightarrow> is_scratch_page q \<Longrightarrow> scratch_index p = scratch_index q \<longleftrightarrow> p = q"
  "is_scratch_page p \<Longrightarrow> scratch_index p < 16"
  by (auto simp: is_scratch_page_def scratch_index_def)

lemma page_write_run:
  assumes "p \<in> set page_ports"
  shows "dma_write_port d p v =
    (True, case page_target p of
            Some (Master, ci) \<Rightarrow> d\<lparr>dma_master := upd_channel (dma_master d) ci (\<lambda>ch. ch\<lparr>page := v\<rparr>)\<rparr>
          | Some (Slave, ci) \<Rightarrow> d\<lparr>dma_slave := upd_channel (dma_slave d) ci (\<lambda>ch. ch\<lparr>page := v\<rparr>)\<rparr>
          | None \<Rightarrow> if p = 0x8F then d\<lparr>refresh_page := v\<rparr>
                   else d\<lparr>page_scratch := (page_scratch d)[scratch_index p := v]\<rparr>)"
  using page_port_decode [OF assms]
  by (auto simp: dma_write_port_def split: option.split prod.split dma_side.split)

lemma page_read_run:
  assumes "q \<in> set page_ports"
  shows "fst (dma_read_port d q) =
    Some (case page_target q of
            Some (Master, ci) \<Rightarrow> page (channels (dma_master d) ! ci)
          | Some (Slave, ci) \<Rightarrow> page (channels (dma_slave d) ! ci)
          | None \<Rightarrow> if q = 0x8F then refresh_page d else page_scratch d ! scratch_index q)"
  using page_port_decode [OF assms]
  by (auto simp: dma_read_port_def split: option.split prod.split dma_side.split)

lemma upd_page_nth:
  assumes "chip_ok c" and "ci < 4" and "cj < 4"
  shows "page (channels (upd_channel c ci (\<lambda>ch. ch\<lparr>page := v\<rparr>)) ! cj) = (if ci = cj then v else page (channels c ! cj))"
  using assms by (simp add: upd_channel_def chip_ok_def)

lemma page_read_after_write:
  assumes d: "dma_ok d" and p: "p \<in> set page_ports" and q: "q \<in> set page_ports"
  shows "fst (dma_read_port (snd (dma_write_port d p v)) q) = (if p = q then Some v else fst (dma_read_port d q))"
proof -
  have len: "chip_ok (dma_master d)" "chip_ok (dma_slave d)" "length (page_scratch d) = 16"
    using d by (simp_all add: dma_ok_def)
  show ?thesis
  proof (cases "p = q")
    case True
    then show ?thesis
      unfolding page_write_run [OF p] page_read_run [OF q] snd_conv
      using len page_port_decode [OF p] scratch_index_inj(2) [of p]
      by (auto simp: upd_page_nth page_target_less split: option.split prod.split dma_side.split)
  next
    case False
    then show ?thesis
      unfolding page_write_run [OF p] page_read_run [OF q] snd_conv
      using len page_port_decode [OF p] page_port_decode [OF q] scratch_index_inj(1) [of p q] page_target_inj [of p _ q]
      by (auto simp: upd_page_nth page_target_less split: option.split prod.split dma_side.split)
  qed
qed

text \<open>The page ports are independent latches. Each of the ports 81h to 8Fh reads back what was last
  written to it, and a write to one leaves what every other one reads.\<close>

lemma dma_page_ports:
  assumes "dma_ok d" and "p \<in> set page_ports" and "q \<in> set page_ports"
  shows "fst (dma_write_port d p v)
    \<and> fst (dma_read_port (snd (dma_write_port d p v)) q) = (if p = q then Some v else fst (dma_read_port d q))"
proof -
  have "fst (dma_write_port d p v)"
    by (simp add: page_write_run [OF assms(2)])
  then show ?thesis using page_read_after_write [OF assms] by blast
qed

lemma dma_page_ports_witness:
  "fst (dma_read_port (snd (dma_write_port dma_default 0x8C 0x55)) 0x8C) = Some 0x55"
  using dma_page_ports [of dma_default "0x8C" "0x8C" "0x55"]
  by (simp add: dma_ok_def chip_ok_def dma_default_def chip_default_def page_ports_def)

text \<open>The interpolated count is conservative. Inside an armed window the count a guest reads has
  dropped from its starting value by at most the bytes the bus could have moved in the elapsed
  time and by at most the elapsed share of the block, it never passes zero, and it does not rise
  as time goes on; with the timing family off, or no window armed, a timed port read is the plain
  port read.\<close>

lemma count_after_conservative:
  assumes w: "window c = Some w" and t: "start_tick w < now" "now \<le> later" "later < deadline_tick w"
  shows "unat (count_after c later) \<le> unat (count_after c now)
    \<and> unat (count_after c now) \<le> unat (start_count w)
    \<and> unat (start_count w) - unat (count_after c now) \<le> (now - start_tick w) div BYTE_CYCLE_TICKS
    \<and> (unat (start_count w) - unat (count_after c now)) * (deadline_tick w - start_tick w)
        \<le> (now - start_tick w) * (unat (start_count w) + 1)
    \<and> dma_read_port_timed d port now False = dma_read_port d port"
proof -
  let ?n = "unat (start_count w)" and ?span = "deadline_tick w - start_tick w"
  let ?p = "\<lambda>x. (x - start_tick w) * (?n + 1) div ?span" and ?b = "\<lambda>x. (x - start_tick w) div BYTE_CYCLE_TICKS"
  have now: "unat (count_after c now) = ?n - min (min (?p now) (?b now)) ?n"
    and later: "unat (count_after c later) = ?n - min (min (?p later) (?b later)) ?n"
    using count_after_inside [OF w] t by simp_all
  have "now - start_tick w \<le> later - start_tick w" using t by simp
  then have "?p now \<le> ?p later" "?b now \<le> ?b later" by (intro div_le_mono mult_le_mono1, simp)+
  then have mono: "min (min (?p now) (?b now)) ?n \<le> min (min (?p later) (?b later)) ?n" by linarith
  have "?p now * ?span \<le> (now - start_tick w) * (?n + 1)" by (rule div_times_less_eq_dividend)
  moreover have "(?n - unat (count_after c now)) * ?span \<le> ?p now * ?span"
    unfolding now by (intro mult_le_mono1) linarith
  ultimately have "(?n - unat (count_after c now)) * ?span \<le> (now - start_tick w) * (?n + 1)" by linarith
  moreover have "unat (count_after c later) \<le> unat (count_after c now)" unfolding now later using mono by linarith
  moreover have "?n - unat (count_after c now) \<le> ?b now" unfolding now by linarith
  moreover have "unat (count_after c now) \<le> ?n" unfolding now by linarith
  moreover have "dma_read_port_timed d port now False = dma_read_port d port" by (simp add: dma_read_port_timed_def)
  ultimately show ?thesis by blast
qed

lemma count_after_conservative_witness:
  "let c = channel_arm_window (channel_default\<lparr>cur_count := 99\<rparr>) 0 1000000 in
   unat (count_after c 500000) \<le> unat (count_after c 10000) \<and> unat (count_after c 10000) \<le> 99"
  using count_after_conservative [of "channel_arm_window (channel_default\<lparr>cur_count := 99\<rparr>) 0 1000000"
      "\<lparr>start_tick = 0, deadline_tick = 1000000, start_count = 99\<rparr>" 10000 500000]
  by (simp add: channel_arm_window_def)

lemma channel_select:
  assumes "ci < 4"
  shows "unat ((of_nat ci OR 0x04 :: u8) AND 3) = ci \<and> test (of_nat ci OR 0x04 :: u8) 0x04"
proof -
  have "ci = 0 \<or> ci = 1 \<or> ci = 2 \<or> ci = 3" using assms by linarith
  then show ?thesis by (elim disjE) (simp_all add: test_def)
qed

text \<open>Masking a channel and the master clear leave an armed window in place, so a count read
  that goes through the timed port still interpolates over the abandoned block; only a new count
  program drops it.\<close>

lemma dma_window_outlives_clear:
  assumes "chip_ok c" and "ci < 4"
  shows "window (channels (write_local c 13 v) ! ci) = window (channels c ! ci)
    \<and> window (channels (write_local c 10 (of_nat ci OR 0x04)) ! ci) = window (channels c ! ci)
    \<and> window (channels (program_pair c (2 * ci + 1) w) ! ci) = None"
proof -
  have "unat ((of_nat ci OR 0x04 :: u8) AND 3) = ci" "test (of_nat ci OR 0x04 :: u8) 0x04"
    using channel_select [OF assms(2)] by simp_all
  then show ?thesis
    using assms
    by (simp add: program_count [simplified] write_local_def locals_of_channel master_clear_def upd_channel_def chip_ok_def
        set_masked_def Let_def)
qed

lemma dma_window_outlives_clear_witness:
  "window (channels (write_local (upd_channel chip_default 1 (\<lambda>ch. channel_arm_window ch 5 9)) 13 0) ! 1) =
    Some \<lparr>start_tick = 5, deadline_tick = 9, start_count = 0\<rparr>"
  using dma_window_outlives_clear [of "upd_channel chip_default 1 (\<lambda>ch. channel_arm_window ch 5 9)" 1]
  by (simp add: chip_ok_def upd_channel_def chip_default_def channel_arm_window_def channel_default_def)

end
