(* ===== verification/Rtc.thy ===== *)
theory Rtc
  imports Timeline
begin

text \<open>
  The MC146818 real-time clock and its CMOS memory (\<open>crates/izarravm-machine/src/rtc.rs\<close>). The fields
  of the broken-down time are naturals (they are kept in the range of their byte), CMOS is a list
  of 64 bytes. \<open>None\<close> stands for a panic: an index past \<open>DAYS_IN_MONTH\<close> or past the 64 bytes.
  Arithmetic that can leave \<open>u64\<close> wraps, as in a build without overflow checks. The lemmas show that the
  bulk clock advance is the iterated one-second tick, that the published deadlines are exact, and
  that a stored CMOS image is restored or its corruption noticed.
\<close>

unbundle bit_operations_syntax

section \<open>Calendar\<close>

definition bin_to_bcd :: "u8 \<Rightarrow> u8" where
  "bin_to_bcd n = push_bit 4 (n div 10) OR (n mod 10)"

definition bcd_to_bin :: "u8 \<Rightarrow> u8" where
  "bcd_to_bin n = drop_bit 4 n * 10 + (n AND 0x0f)"

definition DAYS_IN_MONTH :: "nat list" where
  "DAYS_IN_MONTH = [0, 31, 28, 31, 30, 31, 30, 31, 31, 30, 31, 30, 31]"

definition is_leap_year :: "nat \<Rightarrow> bool" where
  "is_leap_year y \<longleftrightarrow> (y mod 4 = 0 \<and> y mod 100 \<noteq> 0) \<or> y mod 400 = 0"

definition days_in_month :: "nat \<Rightarrow> nat \<Rightarrow> nat option" where
  "days_in_month y m =
    (if m = 2 \<and> is_leap_year y then Some 29
     else if m < length DAYS_IN_MONTH then Some (DAYS_IN_MONTH ! m) else None)"

record rtc_time =
  year :: nat
  month :: nat
  day :: nat
  weekday :: nat
  hour :: nat
  minute :: nat
  second :: nat

definition wrapping_sub64 :: "nat \<Rightarrow> nat \<Rightarrow> nat" where
  "wrapping_sub64 a b = (a + (u64_max + 1) - b) mod (u64_max + 1)"

text \<open>The loop that rolls the calendar date one month at a time.\<close>

function roll_days :: "nat \<Rightarrow> nat \<Rightarrow> nat \<Rightarrow> nat \<Rightarrow> (nat \<times> nat \<times> nat) option" where
  "roll_days y m d remaining =
    (if remaining = 0 then Some (y, m, d)
     else case days_in_month y m of
            None \<Rightarrow> None
          | Some dim \<Rightarrow>
              if d + remaining \<le> dim then Some (y, m, d + remaining)
              else let rest = wrapping_sub64 remaining (wrapping_add64 (wrapping_sub64 dim d) 1) in
                if m = 12 then roll_days ((y + 1) mod 65536) 1 1 rest
                else roll_days y (m + 1) 1 rest)"
  by pat_completeness auto

lemma days_in_month_Some:
  "days_in_month y m = Some dim \<Longrightarrow> m \<le> 12 \<and> dim \<le> 31 \<and> (if m = 0 then dim = 0 else 28 \<le> dim)"
proof -
  assume a: "days_in_month y m = Some dim"
  then have "m = 0 \<or> m = 1 \<or> m = 2 \<or> m = 3 \<or> m = 4 \<or> m = 5 \<or> m = 6 \<or> m = 7 \<or> m = 8 \<or> m = 9 \<or> m = 10 \<or> m = 11 \<or> m = 12"
  proof -
    have "m \<le> 12" using a by (auto simp: days_in_month_def DAYS_IN_MONTH_def split: if_splits)
    then show ?thesis by presburger
  qed
  with a show ?thesis
    by (elim disjE) (simp_all add: days_in_month_def DAYS_IN_MONTH_def split: if_splits)
qed

lemma wrapping_sub64_le [simp]: "wrapping_sub64 a b \<le> u64_max"
proof -
  have "wrapping_sub64 a b < u64_max + 1" unfolding wrapping_sub64_def by (rule mod_less_divisor) simp
  then show ?thesis by simp
qed

lemma wrapping_sub64_id: "b \<le> a \<Longrightarrow> a \<le> u64_max \<Longrightarrow> wrapping_sub64 a b = a - b"
proof -
  assume "b \<le> a" "a \<le> u64_max"
  then have "a + (u64_max + 1) - b = (a - b) + (u64_max + 1)" and "a - b < u64_max + 1" by simp_all
  then show ?thesis unfolding wrapping_sub64_def by (simp only: mod_add_self2 mod_less)
qed

text \<open>The two subtractions wrap together or not at all: what is left is the day total past the month.\<close>

lemma roll_rest:
  assumes "dim \<le> u64_max" and "d \<le> u64_max" and "dim < d + r" and "d + r \<le> u64_max"
  shows "wrapping_sub64 r (wrapping_add64 (wrapping_sub64 dim d) 1) = d + r - dim - 1"
proof (cases "d \<le> dim")
  case True
  then have "wrapping_add64 (wrapping_sub64 dim d) 1 = dim - d + 1"
    using assms by (simp add: wrapping_sub64_id wrapping_add64_def)
  then show ?thesis using True assms by (simp add: wrapping_sub64_id)
next
  case False
  let ?M = "u64_max + 1"
  have "wrapping_sub64 dim d = dim + ?M - d" using False assms by (simp add: wrapping_sub64_def)
  then have w: "wrapping_add64 (wrapping_sub64 dim d) 1 = (dim + ?M - d + 1) mod ?M" by (simp add: wrapping_add64_def)
  show ?thesis
  proof (cases "d = dim + 1")
    case True
    then have "wrapping_add64 (wrapping_sub64 dim d) 1 = 0" using w by simp
    then show ?thesis using True assms by (simp add: wrapping_sub64_id)
  next
    case far: False
    then have "wrapping_add64 (wrapping_sub64 dim d) 1 = dim + ?M - d + 1"
      unfolding w using False assms by (intro mod_less) linarith
    moreover have "r + ?M - (dim + ?M - d + 1) = d + r - dim - 1" using False far assms by linarith
    ultimately show ?thesis using assms unfolding wrapping_sub64_def by (simp only:) (intro mod_less, linarith)
  qed
qed

lemma roll_rest_first_day:
  assumes "dim \<le> 31" and "dim \<le> r" and "r \<le> u64_max"
  shows "wrapping_sub64 r (wrapping_add64 (wrapping_sub64 dim 1) 1) = r - dim"
proof (cases "dim = 0")
  case True
  then have "wrapping_add64 (wrapping_sub64 dim 1) 1 = 0"
    by (simp add: wrapping_sub64_def wrapping_add64_def u64_max_def)
  then show ?thesis using True assms by (simp add: wrapping_sub64_id)
next
  case False
  then have "wrapping_add64 (wrapping_sub64 dim 1) 1 = dim"
    using assms by (simp add: wrapping_sub64_id wrapping_add64_def u64_max_def)
  then show ?thesis using assms by (simp add: wrapping_sub64_id)
qed

termination roll_days
proof (relation "measures [\<lambda>(y, m, d, r). if d = 1 \<and> r \<le> u64_max then 0 else 1, \<lambda>(y, m, d, r). r,
    \<lambda>(y, m, d, r). 13 - m]")
  fix y m d r dim rest :: nat
  assume a: "r \<noteq> 0" "days_in_month y m = Some dim" "\<not> d + r \<le> dim"
    "rest = wrapping_sub64 r (wrapping_add64 (wrapping_sub64 dim d) 1)"
  have dim: "m \<le> 12" "dim \<le> 31" "m \<noteq> 0 \<Longrightarrow> 28 \<le> dim" "m = 0 \<Longrightarrow> dim = 0"
    using days_in_month_Some [OF a(2)] by auto
  have rest: "rest \<le> u64_max" using a(4) by simp
  have one: "rest = r - dim" if "d = 1" "r \<le> u64_max"
    unfolding a(4) that(1) using a(3) that dim(2) by (intro roll_rest_first_day) simp_all
  { assume "m = 12"
    then show "(((y + 1) mod 65536, 1, 1, rest), (y, m, d, r)) \<in> measures [\<lambda>(y, m, d, r). if d = 1 \<and> r \<le> u64_max then 0 else 1,
        \<lambda>(y, m, d, r). r, \<lambda>(y, m, d, r). 13 - m]"
      using one dim(3) rest a(1) by auto }
  { assume "m \<noteq> 12"
    then show "((y, m + 1, 1, rest), (y, m, d, r)) \<in> measures [\<lambda>(y, m, d, r). if d = 1 \<and> r \<le> u64_max then 0 else 1,
        \<lambda>(y, m, d, r). r, \<lambda>(y, m, d, r). 13 - m]"
      using one dim rest a(1) by (cases "m = 0") auto }
qed simp

declare roll_days.simps [simp del]

section \<open>The device\<close>

definition REG_SECONDS :: nat where "REG_SECONDS = 0x00"
definition REG_SECONDS_ALARM :: nat where "REG_SECONDS_ALARM = 0x01"
definition REG_MINUTES :: nat where "REG_MINUTES = 0x02"
definition REG_MINUTES_ALARM :: nat where "REG_MINUTES_ALARM = 0x03"
definition REG_HOURS :: nat where "REG_HOURS = 0x04"
definition REG_HOURS_ALARM :: nat where "REG_HOURS_ALARM = 0x05"
definition REG_WEEKDAY :: nat where "REG_WEEKDAY = 0x06"
definition REG_DAY :: nat where "REG_DAY = 0x07"
definition REG_MONTH :: nat where "REG_MONTH = 0x08"
definition REG_YEAR :: nat where "REG_YEAR = 0x09"
definition REG_A :: nat where "REG_A = 0x0a"
definition REG_B :: nat where "REG_B = 0x0b"
definition REG_C :: nat where "REG_C = 0x0c"
definition REG_D :: nat where "REG_D = 0x0d"
definition REG_DIAGNOSTIC :: nat where "REG_DIAGNOSTIC = 0x0e"
definition NVRAM_CHECKSUM_LO :: nat where "NVRAM_CHECKSUM_LO = 0x10"
definition NVRAM_CHECKSUM_HI :: nat where "NVRAM_CHECKSUM_HI = 0x2d"
definition NVRAM_CHECKSUM_HIGH :: nat where "NVRAM_CHECKSUM_HIGH = 0x2e"
definition NVRAM_CHECKSUM_LOW :: nat where "NVRAM_CHECKSUM_LOW = 0x2f"
definition REG_CENTURY :: nat where "REG_CENTURY = 0x32"
definition REG_CENTURY_ALT :: nat where "REG_CENTURY_ALT = 0x37"

lemmas reg_numbers = REG_SECONDS_def REG_SECONDS_ALARM_def REG_MINUTES_def REG_MINUTES_ALARM_def REG_HOURS_def
  REG_HOURS_ALARM_def REG_WEEKDAY_def REG_DAY_def REG_MONTH_def REG_YEAR_def REG_A_def REG_B_def REG_C_def REG_D_def
  REG_DIAGNOSTIC_def NVRAM_CHECKSUM_LO_def NVRAM_CHECKSUM_HI_def NVRAM_CHECKSUM_HIGH_def NVRAM_CHECKSUM_LOW_def
  REG_CENTURY_def REG_CENTURY_ALT_def

definition REG_B_PIE :: u8 where "REG_B_PIE = 0x40"
definition REG_B_AIE :: u8 where "REG_B_AIE = 0x20"
definition REG_B_UIE :: u8 where "REG_B_UIE = 0x10"
definition REG_B_DEFAULT :: u8 where "REG_B_DEFAULT = 0x06"
definition REG_C_IRQF :: u8 where "REG_C_IRQF = 0x80"
definition REG_C_PF :: u8 where "REG_C_PF = 0x40"
definition REG_C_AF :: u8 where "REG_C_AF = 0x20"
definition REG_C_UF :: u8 where "REG_C_UF = 0x10"
definition CENTURY_DEFAULT :: u8 where "CENTURY_DEFAULT = 0x20"

lemmas rtc_masks = REG_B_PIE_def REG_B_AIE_def REG_B_UIE_def REG_B_DEFAULT_def REG_C_IRQF_def REG_C_PF_def
  REG_C_AF_def REG_C_UF_def CENTURY_DEFAULT_def

record rtc =
  ram :: "u8 list"
  index :: u8
  nmi_disabled :: bool
  time :: rtc_time
  seeded :: bool
  nvram_dirty :: bool
  periodic_phase :: rate_phase

definition set_ram :: "rtc \<Rightarrow> nat \<Rightarrow> u8 \<Rightarrow> rtc" where
  "set_ram r i v = r\<lparr>ram := (ram r)[i := v]\<rparr>"

definition write_time_registers :: "rtc \<Rightarrow> rtc" where
  "write_time_registers r =
    (let t = time r; century = bin_to_bcd (of_nat (year t div 100)) in
     r\<lparr>ram := (ram r)[REG_SECONDS := of_nat (second t), REG_MINUTES := of_nat (minute t), REG_HOURS := of_nat (hour t),
         REG_WEEKDAY := of_nat (weekday t), REG_DAY := of_nat (day t), REG_MONTH := of_nat (month t),
         REG_YEAR := of_nat (year t mod 100), REG_CENTURY := century, REG_CENTURY_ALT := century]\<rparr>)"

definition clamp :: "nat \<Rightarrow> nat \<Rightarrow> nat \<Rightarrow> nat" where
  "clamp v lo hi = (if v < lo then lo else if hi < v then hi else v)"

definition read_time_registers :: "rtc \<Rightarrow> rtc" where
  "read_time_registers r =
    (let at = (\<lambda>i. unat (ram r ! i)); yy = at REG_YEAR mod 100; century = unat (bcd_to_bin (ram r ! REG_CENTURY)) in
     r\<lparr>time := \<lparr>year = century * 100 + yy, month = clamp (at REG_MONTH) 1 12, day = clamp (at REG_DAY) 1 31,
         weekday = clamp (at REG_WEEKDAY) 1 7, hour = min (at REG_HOURS) 23, minute = min (at REG_MINUTES) 59,
         second = min (at REG_SECONDS) 59\<rparr>\<rparr>)"

definition checksum_for :: "u8 list \<Rightarrow> u16" where
  "checksum_for bytes =
    fold (\<lambda>b sum. sum + ucast b) (take (NVRAM_CHECKSUM_HI + 1 - NVRAM_CHECKSUM_LO) (drop NVRAM_CHECKSUM_LO bytes)) 0"

definition checksum :: "rtc \<Rightarrow> u16" where
  "checksum r = checksum_for (ram r)"

definition refresh_checksum :: "rtc \<Rightarrow> rtc" where
  "refresh_checksum r =
    (let sum = checksum r in
     r\<lparr>ram := (ram r)[NVRAM_CHECKSUM_HIGH := ucast (drop_bit 8 sum), NVRAM_CHECKSUM_LOW := ucast (sum AND 0xff)]\<rparr>)"

definition rtc_new :: rtc where
  "rtc_new =
    (let ram = (replicate 64 0)[REG_A := 0x26, REG_B := REG_B_DEFAULT, REG_C := 0, REG_D := 0x80,
                 REG_CENTURY := CENTURY_DEFAULT, REG_CENTURY_ALT := CENTURY_DEFAULT]
     in refresh_checksum (write_time_registers
          \<lparr>ram = ram, index = 0, nmi_disabled = False,
           time = \<lparr>year = 2026, month = 1, day = 1, weekday = 1, hour = 0, minute = 0, second = 0\<rparr>,
           seeded = False, nvram_dirty = False, periodic_phase = phase_default\<rparr>))"

definition seed :: "rtc \<Rightarrow> nat \<Rightarrow> nat \<Rightarrow> nat \<Rightarrow> nat \<Rightarrow> nat \<Rightarrow> nat \<Rightarrow> nat \<Rightarrow> rtc" where
  "seed r y mo d wd h mi s =
    write_time_registers (r\<lparr>time := \<lparr>year = y, month = clamp mo 1 12, day = clamp d 1 31, weekday = clamp wd 1 7,
      hour = min h 23, minute = min mi 59, second = min s 59\<rparr>, seeded := True\<rparr>)"

definition advance_time :: "rtc_time \<Rightarrow> nat \<Rightarrow> rtc_time option" where
  "advance_time t n =
    (let second_total = wrapping_add64 (second t) n;
         minute_total = minute t + second_total div 60;
         hour_total = hour t + minute_total div 60;
         day_carry = hour_total div 24;
         wd = (if day_carry > 0 then (weekday t - 1 + day_carry mod 7) mod 7 + 1 else weekday t)
     in map_option (\<lambda>(y, m, d). \<lparr>year = y, month = m, day = d, weekday = wd, hour = hour_total mod 24,
            minute = minute_total mod 60, second = second_total mod 60\<rparr>)
          (roll_days (year t) (month t) (day t) day_carry))"

definition tick_seconds :: "rtc \<Rightarrow> nat \<Rightarrow> rtc option" where
  "tick_seconds r n =
    (if n = 0 then Some r
     else map_option (\<lambda>t. write_time_registers (r\<lparr>time := t\<rparr>)) (advance_time (time r) n))"

definition alarm_matches_time :: "rtc \<Rightarrow> nat \<Rightarrow> nat \<Rightarrow> nat \<Rightarrow> bool" where
  "alarm_matches_time r h m s \<longleftrightarrow>
    (let matches = (\<lambda>alarm now. alarm \<ge> 0xc0 \<or> unat alarm = now) in
     matches (ram r ! REG_SECONDS_ALARM) s \<and> matches (ram r ! REG_MINUTES_ALARM) m \<and> matches (ram r ! REG_HOURS_ALARM) h)"

definition seconds_until_alarm :: "rtc \<Rightarrow> nat option" where
  "seconds_until_alarm r =
    (let now = hour (time r) * 3600 + minute (time r) * 60 + second (time r) in
     find (\<lambda>delta. let later = (now + delta) mod 86400
                   in alarm_matches_time r (later div 3600) (later div 60 mod 60) (later mod 60)) [1..<86401])"

definition periodic_rate_hz :: "rtc \<Rightarrow> nat" where
  "periodic_rate_hz r =
    (if ram r ! REG_A AND 0x70 \<noteq> 0x20 then 0
     else let rate = ram r ! REG_A AND 0x0f in
       if rate = 0 then 0
       else if rate = 1 \<or> rate = 8 then 256
       else if rate = 2 \<or> rate = 9 then 128
       else drop_bit (unat rate - 1) 32768)"

definition latch_interrupt_flags :: "rtc \<Rightarrow> u8 \<Rightarrow> bool \<times> rtc" where
  "latch_interrupt_flags r flags =
    (if flags = 0 then (False, r)
     else let was_pending = test (ram r ! REG_C) REG_C_IRQF;
              r = set_ram r REG_C (ram r ! REG_C OR flags);
              enables = ram r ! REG_B;
              enabled = (test flags REG_C_PF \<and> test enables REG_B_PIE \<or> test flags REG_C_AF \<and> test enables REG_B_AIE
                 \<or> test flags REG_C_UF \<and> test enables REG_B_UIE);
              r = (if enabled then set_ram r REG_C (ram r ! REG_C OR REG_C_IRQF) else r)
          in (enabled \<and> \<not> was_pending, r))"

definition rtc_advance :: "rtc \<Rightarrow> nat \<Rightarrow> nat \<Rightarrow> (bool \<times> rtc) option" where
  "rtc_advance r master_ticks elapsed_seconds =
    (let alarm_due = (elapsed_seconds > 0 \<and>
           (case seconds_until_alarm r of None \<Rightarrow> False | Some seconds \<Rightarrow> seconds \<le> elapsed_seconds))
     in map_option (\<lambda>r.
          let (events, phase) = phase_advance (periodic_phase r) master_ticks (periodic_rate_hz r);
              r = r\<lparr>periodic_phase := phase\<rparr>;
              flags = 0;
              flags = (if events > 0 then flags OR REG_C_PF else flags);
              flags = (if elapsed_seconds > 0 then flags OR REG_C_UF else flags);
              flags = (if alarm_due then flags OR REG_C_AF else flags)
          in latch_interrupt_flags r flags) (tick_seconds r elapsed_seconds))"

definition ticks_until_periodic_irq :: "rtc \<Rightarrow> nat option" where
  "ticks_until_periodic_irq r =
    (if test (ram r ! REG_C) REG_C_IRQF \<or> \<not> test (ram r ! REG_B) REG_B_PIE then None
     else phase_ticks_until (periodic_phase r) 1 (periodic_rate_hz r))"

definition set_periodic_interrupt_enabled :: "rtc \<Rightarrow> bool \<Rightarrow> u8 \<times> rtc" where
  "set_periodic_interrupt_enabled r on =
    (let r = set_ram r REG_B (if on then ram r ! REG_B OR REG_B_PIE else ram r ! REG_B AND NOT REG_B_PIE)
     in (ram r ! REG_B, r))"

definition rtc_alarm :: "rtc \<Rightarrow> u8 \<times> u8 \<times> u8 \<times> bool" where
  "rtc_alarm r = (ram r ! REG_HOURS_ALARM, ram r ! REG_MINUTES_ALARM, ram r ! REG_SECONDS_ALARM,
     test (ram r ! REG_B) REG_B_AIE)"

definition set_alarm :: "rtc \<Rightarrow> u8 \<Rightarrow> u8 \<Rightarrow> u8 \<Rightarrow> bool \<times> rtc" where
  "set_alarm r h m s =
    (if test (ram r ! REG_B) REG_B_AIE then (False, r)
     else (True, r\<lparr>ram := (ram r)[REG_HOURS_ALARM := h, REG_MINUTES_ALARM := m, REG_SECONDS_ALARM := s,
            REG_B := (ram r ! REG_B AND NOT 0x80) OR REG_B_AIE OR REG_B_DEFAULT]\<rparr>))"

definition cancel_alarm :: "rtc \<Rightarrow> rtc" where
  "cancel_alarm r = set_ram r REG_B ((ram r ! REG_B AND NOT (REG_B_AIE OR 0x80)) OR REG_B_DEFAULT)"

definition seconds_until_irq :: "rtc \<Rightarrow> nat option" where
  "seconds_until_irq r =
    (if test (ram r ! REG_C) REG_C_IRQF then None
     else let enables = ram r ! REG_B;
              update = (if test enables REG_B_UIE then Some 1 else None);
              alarm = (if test enables REG_B_AIE then seconds_until_alarm r else None)
          in case (update, alarm) of
               (None, a) \<Rightarrow> a
             | (u, None) \<Rightarrow> u
             | (Some u, Some a) \<Rightarrow> Some (min u a))"

definition read_data :: "rtc \<Rightarrow> u8 \<times> rtc" where
  "read_data r =
    (let v = ram r ! unat (index r AND 0x3f) in
     (v, if unat (index r AND 0x7f) = REG_C then set_ram r REG_C 0 else r))"

text \<open>\<open>None\<close>: the store past the 64 bytes panics.\<close>

definition write_data :: "rtc \<Rightarrow> u8 \<Rightarrow> rtc option" where
  "write_data r v =
    (let reg = unat (index r AND 0x7f); t = time r; n = unat v;
         done = (if reg = REG_SECONDS then Some (r\<lparr>time := t\<lparr>second := min n 59\<rparr>\<rparr>)
           else if reg = REG_MINUTES then Some (r\<lparr>time := t\<lparr>minute := min n 59\<rparr>\<rparr>)
           else if reg = REG_HOURS then Some (r\<lparr>time := t\<lparr>hour := min n 23\<rparr>\<rparr>)
           else if reg = REG_WEEKDAY then Some (r\<lparr>time := t\<lparr>weekday := clamp n 1 7\<rparr>\<rparr>)
           else if reg = REG_DAY then Some (r\<lparr>time := t\<lparr>day := clamp n 1 31\<rparr>\<rparr>)
           else if reg = REG_MONTH then Some (r\<lparr>time := t\<lparr>month := clamp n 1 12\<rparr>\<rparr>)
           else if reg = REG_YEAR then Some (r\<lparr>time := t\<lparr>year := year t div 100 * 100 + n mod 100\<rparr>\<rparr>)
           else if reg = REG_SECONDS_ALARM \<or> reg = REG_MINUTES_ALARM \<or> reg = REG_HOURS_ALARM then Some (set_ram r reg v)
           else if reg = REG_A
             then (let v = v AND 0x7f;
                       r = (if ram r ! REG_A \<noteq> v then r\<lparr>periodic_phase := phase_default\<rparr> else r)
                   in Some (set_ram r REG_A v))
           else if reg = REG_B then Some (set_ram r REG_B (v OR REG_B_DEFAULT))
           else if reg = REG_C \<or> reg = REG_D then Some r
           else if reg < length (ram r)
             then (let r = (set_ram r reg v)\<lparr>nvram_dirty := True\<rparr> in
                   Some (if reg = REG_CENTURY then read_time_registers (set_ram r REG_CENTURY_ALT v) else r))
           else None)
     in map_option (\<lambda>r. if reg \<le> REG_YEAR then write_time_registers r else r) done)"

definition rtc_read_port :: "rtc \<Rightarrow> u16 \<Rightarrow> u8 option \<times> rtc" where
  "rtc_read_port r port =
    (if port = 0x70 then (Some ((index r AND 0x7f) OR push_bit 7 (of_bool8 (nmi_disabled r))), r)
     else if port = 0x71 then (let (v, r') = read_data r in (Some v, r'))
     else (None, r))"

definition rtc_write_port :: "rtc \<Rightarrow> u16 \<Rightarrow> u8 \<Rightarrow> (bool \<times> rtc) option" where
  "rtc_write_port r port v =
    (if port = 0x70 then Some (True, r\<lparr>index := v AND 0x7f, nmi_disabled := test v 0x80\<rparr>)
     else if port = 0x71 then map_option (Pair True) (write_data r v)
     else Some (False, r))"

definition nvram_byte :: "rtc \<Rightarrow> nat \<Rightarrow> u8" where
  "nvram_byte r i = (if i < length (ram r) then ram r ! i else 0)"

definition set_nvram :: "rtc \<Rightarrow> nat \<Rightarrow> u8 \<Rightarrow> rtc" where
  "set_nvram r i v = (if i < length (ram r) then set_ram r i v else r)"

definition stored_checksum :: "u8 list \<Rightarrow> u16" where
  "stored_checksum bytes = push_bit 8 (ucast (bytes ! NVRAM_CHECKSUM_HIGH)) OR ucast (bytes ! NVRAM_CHECKSUM_LOW)"

definition load_nvram :: "rtc \<Rightarrow> u8 list \<Rightarrow> bool \<times> rtc" where
  "load_nvram r bytes =
    (let valid = (stored_checksum bytes = checksum_for bytes);
         power_lost = \<not> test (bytes ! REG_D) 0x80;
         r = r\<lparr>periodic_phase := phase_default\<rparr>
     in if \<not> valid
        then (let r = set_ram r REG_DIAGNOSTIC (0x40 OR (if power_lost then 0x80 else 0));
                  r = set_ram r REG_B (ram r ! REG_B OR 0x06);
                  r = set_ram r REG_D (ram r ! REG_D OR 0x80)
              in (False, (refresh_checksum r)\<lparr>nvram_dirty := True\<rparr>))
        else (let r = r\<lparr>ram := bytes\<rparr>;
                  r = (if ram r ! REG_CENTURY = 0
                       then set_ram (set_ram r REG_CENTURY CENTURY_DEFAULT) REG_CENTURY_ALT CENTURY_DEFAULT else r);
                  r = set_ram r REG_B (ram r ! REG_B OR 0x06);
                  r = set_ram r REG_D (ram r ! REG_D OR 0x80);
                  r = read_time_registers r
              in (True, set_ram r REG_DIAGNOSTIC (if power_lost then 0x80 else 0))))"

definition set_memory_size :: "rtc \<Rightarrow> nat \<Rightarrow> rtc" where
  "set_memory_size r memory_mib =
    (let extended_kb = (of_nat (min ((memory_mib - 1) * 1024) 0xFFFF) :: u16); base = (640 :: u16) in
     refresh_checksum (r\<lparr>ram := (ram r)[0x15 := ucast base, 0x16 := ucast (drop_bit 8 base),
       0x17 := ucast extended_kb, 0x18 := ucast (drop_bit 8 extended_kb),
       0x30 := ucast extended_kb, 0x31 := ucast (drop_bit 8 extended_kb)]\<rparr>))"

definition century :: "rtc \<Rightarrow> u8" where
  "century r = bcd_to_bin (ram r ! REG_CENTURY)"

definition set_century :: "rtc \<Rightarrow> u8 \<Rightarrow> rtc" where
  "set_century r c =
    (let bcd = bin_to_bcd c in
     read_time_registers (set_ram (set_ram r REG_CENTURY bcd) REG_CENTURY_ALT bcd))"

definition take_nvram_dirty :: "rtc \<Rightarrow> bool \<times> rtc" where
  "take_nvram_dirty r = (nvram_dirty r, r\<lparr>nvram_dirty := False\<rparr>)"

definition rtc_payload :: "rtc \<Rightarrow> field list" where
  "rtc_payload r =
    [FRaw (ram r), FU8 (index r), FBool (nmi_disabled r), FU16 (of_nat (year (time r))), FU8 (of_nat (month (time r))),
     FU8 (of_nat (day (time r))), FU8 (of_nat (weekday (time r))), FU8 (of_nat (hour (time r))),
     FU8 (of_nat (minute (time r))), FU8 (of_nat (second (time r))), FU64 (remainder (periodic_phase r))]"

section \<open>The calendar one day and one second at a time\<close>

definition month_days :: "nat \<Rightarrow> nat \<Rightarrow> nat" where
  "month_days y m = (case days_in_month y m of Some dim \<Rightarrow> dim | None \<Rightarrow> 0)"

definition date_ok :: "nat \<times> nat \<times> nat \<Rightarrow> bool" where
  "date_ok = (\<lambda>(y, m, d). y < 65536 \<and> 1 \<le> m \<and> m \<le> 12 \<and> 1 \<le> d \<and> d \<le> month_days y m)"

definition next_day :: "nat \<times> nat \<times> nat \<Rightarrow> nat \<times> nat \<times> nat" where
  "next_day = (\<lambda>(y, m, d).
    if d + 1 \<le> month_days y m then (y, m, d + 1)
    else if m = 12 then ((y + 1) mod 65536, 1, 1) else (y, m + 1, 1))"

lemma days_in_month_total: "m \<le> 12 \<Longrightarrow> days_in_month y m = Some (month_days y m)"
  by (auto simp: days_in_month_def month_days_def DAYS_IN_MONTH_def)

lemma month_days_bounds: "1 \<le> m \<Longrightarrow> m \<le> 12 \<Longrightarrow> 28 \<le> month_days y m \<and> month_days y m \<le> 31"
  using days_in_month_Some [OF days_in_month_total [of m y]] by simp

lemma date_ok_next: "date_ok x \<Longrightarrow> date_ok (next_day x)"
proof -
  assume "date_ok x"
  obtain y m d where x: "x = (y, m, d)" by (cases x)
  have "28 \<le> month_days y (m + 1)" if "m < 12" using that month_days_bounds [of "m + 1" y] by simp
  moreover have "28 \<le> month_days ((y + 1) mod 65536) 1" using month_days_bounds [of 1] by simp
  ultimately show ?thesis using \<open>date_ok x\<close> unfolding x date_ok_def next_day_def by auto
qed

lemma date_ok_days: "date_ok x \<Longrightarrow> date_ok ((next_day ^^ n) x)"
  by (induction n) (auto intro: date_ok_next)

lemma days_inside_month: "d + n \<le> month_days y m \<Longrightarrow> (next_day ^^ n) (y, m, d) = (y, m, d + n)"
  by (induction n) (auto simp: next_day_def)

lemma days_to_next_month:
  assumes "d \<le> month_days y m"
  shows "(next_day ^^ (month_days y m - d + 1)) (y, m, d) = (if m = 12 then ((y + 1) mod 65536, 1, 1) else (y, m + 1, 1))"
  using days_inside_month [of d "month_days y m - d" y m] assms by (simp add: next_day_def)

lemma roll_days_next:
  assumes "date_ok (y, m, d)" and "d + r \<le> u64_max"
  shows "roll_days y m d r = Some ((next_day ^^ r) (y, m, d))"
  using assms
proof (induction r arbitrary: y m d rule: less_induct)
  case (less r)
  let ?dim = "month_days y m"
  have m: "1 \<le> m" "m \<le> 12" and d: "1 \<le> d" "d \<le> ?dim" and dim: "days_in_month y m = Some ?dim"
    using less.prems days_in_month_total by (auto simp: date_ok_def)
  show ?case
  proof (cases "r = 0 \<or> d + r \<le> ?dim")
    case True
    then show ?thesis using days_inside_month [of d r y m] dim by (subst roll_days.simps) auto
  next
    case False
    let ?rest = "d + r - ?dim - 1"
    let ?first = "if m = 12 then ((y + 1) mod 65536, 1, 1) else (y, m + 1, 1)"
    have rest: "wrapping_sub64 r (wrapping_add64 (wrapping_sub64 ?dim d) 1) = ?rest"
      using False less.prems d by (intro roll_rest) auto
    have first: "date_ok ?first"
      using date_ok_days [OF less.prems(1), of "?dim - d + 1"] days_to_next_month [OF d(2)] by simp
    have r: "r = ?rest + (?dim - d + 1)" using False d by simp
    have "(next_day ^^ r) (y, m, d) = (next_day ^^ ?rest) ((next_day ^^ (?dim - d + 1)) (y, m, d))"
      by (subst r) (simp only: funpow_add comp_apply)
    also have "\<dots> = (next_day ^^ ?rest) ?first" by (simp only: days_to_next_month [OF d(2)])
    finally have days: "(next_day ^^ r) (y, m, d) = (next_day ^^ ?rest) ?first" .
    have lt: "?rest < r" "1 + ?rest \<le> u64_max" using r d less.prems(2) by linarith+
    have step: "roll_days y m d r = (if m = 12 then roll_days ((y + 1) mod 65536) 1 1 ?rest else roll_days y (m + 1) 1 ?rest)"
      using False by (subst roll_days.simps, simp only: dim option.case Let_def rest) simp
    show ?thesis
    proof (cases "m = 12")
      case True
      then show ?thesis using less.IH [OF lt(1), of "(y + 1) mod 65536" 1 1] first lt(2) unfolding step days by simp
    next
      case False
      then show ?thesis using less.IH [OF lt(1), of y "m + 1" 1] first lt(2) unfolding step days by simp
    qed
  qed
qed

definition date_of :: "rtc_time \<Rightarrow> nat \<times> nat \<times> nat" where
  "date_of t = (year t, month t, day t)"

definition time_ok :: "rtc_time \<Rightarrow> bool" where
  "time_ok t \<longleftrightarrow> date_ok (date_of t) \<and> 1 \<le> weekday t \<and> weekday t \<le> 7 \<and> hour t < 24 \<and> minute t < 60 \<and> second t < 60"

text \<open>The reference: the clock moves by one second.\<close>

definition tick_one :: "rtc_time \<Rightarrow> rtc_time" where
  "tick_one t =
    (if second t + 1 < 60 then t\<lparr>second := second t + 1\<rparr>
     else if minute t + 1 < 60 then t\<lparr>second := 0, minute := minute t + 1\<rparr>
     else if hour t + 1 < 24 then t\<lparr>second := 0, minute := 0, hour := hour t + 1\<rparr>
     else case next_day (date_of t) of (y, m, d) \<Rightarrow>
       t\<lparr>second := 0, minute := 0, hour := 0, year := y, month := m, day := d, weekday := weekday t mod 7 + 1\<rparr>)"

definition time_of_day :: "rtc_time \<Rightarrow> nat" where
  "time_of_day t = hour t * 3600 + minute t * 60 + second t"

text \<open>The clock \<open>n\<close> seconds later, in closed form.\<close>

definition later_time :: "rtc_time \<Rightarrow> nat \<Rightarrow> rtc_time" where
  "later_time t n =
    (let x = time_of_day t + n; q = x div 86400; s = x mod 86400
     in case (next_day ^^ q) (date_of t) of (y, m, d) \<Rightarrow>
       \<lparr>year = y, month = m, day = d, weekday = (weekday t - 1 + q) mod 7 + 1, hour = s div 3600,
        minute = s div 60 mod 60, second = s mod 60\<rparr>)"

lemma hms_parts:
  fixes h m s :: nat
  assumes x: "x = h * 3600 + m * 60 + s"
  shows "x mod 60 = s mod 60" and "x div 60 mod 60 = (m + s div 60) mod 60" and "x div 3600 = h + (m + s div 60) div 60"
proof -
  have x1: "x = s + (h * 60 + m) * 60" using x by simp
  show "x mod 60 = s mod 60" unfolding x1 by (simp only: mod_mult_self1)
  have d: "x div 60 = (m + s div 60) + h * 60" unfolding x1 by (subst div_mult_self1) simp_all
  then show "x div 60 mod 60 = (m + s div 60) mod 60" by (simp only: mod_mult_self1)
  have "x div 3600 = x div 60 div 60" by (simp add: div_mult2_eq [symmetric])
  then show "x div 3600 = h + (m + s div 60) div 60" unfolding d by (simp add: div_mult_self1)
qed

lemma day_parts:
  fixes x :: nat
  shows "x mod 86400 mod 60 = x mod 60" and "x mod 86400 div 60 mod 60 = x div 60 mod 60"
    and "x mod 86400 div 3600 = x div 3600 mod 24" and "x div 86400 = x div 3600 div 24"
proof -
  show "x mod 86400 mod 60 = x mod 60" by (simp add: mod_mod_cancel)
  have "x mod 86400 = 60 * (x div 60 mod 1440) + x mod 60" using mod_mult2_eq [of x 60 1440] by simp
  then have "x mod 86400 div 60 = x div 60 mod 1440" by simp
  then show "x mod 86400 div 60 mod 60 = x div 60 mod 60" by (simp add: mod_mod_cancel)
  have "x mod 86400 = 3600 * (x div 3600 mod 24) + x mod 3600" using mod_mult2_eq [of x 3600 24] by simp
  then show "x mod 86400 div 3600 = x div 3600 mod 24" by simp
  show "x div 86400 = x div 3600 div 24" by (simp add: div_mult2_eq [symmetric])
qed

lemma later_time_at:
  assumes "time_of_day t + n = q * 86400 + s" and "s < 86400" and "(next_day ^^ q) (date_of t) = (y, m, d)"
  shows "later_time t n = \<lparr>year = y, month = m, day = d, weekday = (weekday t - 1 + q) mod 7 + 1,
      hour = s div 3600, minute = s div 60 mod 60, second = s mod 60\<rparr>"
proof -
  have "(time_of_day t + n) div 86400 = q" "(time_of_day t + n) mod 86400 = s"
    unfolding assms(1) using assms(2) by simp_all
  then show ?thesis using assms(3) by (simp add: later_time_def Let_def)
qed

lemma later_time_zero:
  assumes ok: "time_ok t"
  shows "later_time t 0 = t"
proof -
  have s: "time_of_day t < 86400" using ok by (simp add: time_of_day_def time_ok_def)
  have x: "time_of_day t + 0 = 0 * 86400 + time_of_day t" by simp
  have date: "(next_day ^^ 0) (date_of t) = (year t, month t, day t)" by (simp add: date_of_def)
  have "weekday t - 1 < 7" "1 \<le> weekday t" using ok by (auto simp: time_ok_def)
  then have wd: "(weekday t - 1 + 0) mod 7 + 1 = weekday t" by simp
  have hms: "time_of_day t div 3600 = hour t" "time_of_day t div 60 mod 60 = minute t" "time_of_day t mod 60 = second t"
    using ok hms_parts [OF time_of_day_def [of t]] by (simp_all add: time_ok_def)
  show ?thesis unfolding later_time_at [OF x s date] wd hms by simp
qed

lemma second_step:
  fixes s :: nat
  assumes "s + 1 < 86400"
  shows "s mod 60 + 1 < 60 \<Longrightarrow> (s + 1) mod 60 = s mod 60 + 1 \<and> (s + 1) div 60 mod 60 = s div 60 mod 60
      \<and> (s + 1) div 3600 = s div 3600"
    and "\<not> s mod 60 + 1 < 60 \<Longrightarrow> s div 60 mod 60 + 1 < 60 \<Longrightarrow> (s + 1) mod 60 = 0
      \<and> (s + 1) div 60 mod 60 = s div 60 mod 60 + 1 \<and> (s + 1) div 3600 = s div 3600"
    and "\<not> s mod 60 + 1 < 60 \<Longrightarrow> \<not> s div 60 mod 60 + 1 < 60 \<Longrightarrow> (s + 1) mod 60 = 0
      \<and> (s + 1) div 60 mod 60 = 0 \<and> (s + 1) div 3600 = s div 3600 + 1 \<and> s div 3600 + 1 < 24"
proof -
  define a where "a = s div 60"
  have h: "z div 3600 = z div 60 div 60" for z :: nat by (simp add: div_mult2_eq [symmetric])
  have r: "s mod 60 < 60" "a mod 60 < 60" by simp_all
  { assume "s mod 60 + 1 < 60"
    then show "(s + 1) mod 60 = s mod 60 + 1 \<and> (s + 1) div 60 mod 60 = s div 60 mod 60
      \<and> (s + 1) div 3600 = s div 3600" unfolding h by (simp add: div_Suc mod_Suc) }
  assume s: "\<not> s mod 60 + 1 < 60"
  then have s': "(s + 1) mod 60 = 0" "(s + 1) div 60 = a + 1" using r by (simp_all add: a_def div_Suc mod_Suc)
  { assume "s div 60 mod 60 + 1 < 60"
    then show "(s + 1) mod 60 = 0 \<and> (s + 1) div 60 mod 60 = s div 60 mod 60 + 1 \<and> (s + 1) div 3600 = s div 3600"
      unfolding h s' a_def [symmetric] by (simp add: div_Suc mod_Suc) }
  assume m: "\<not> s div 60 mod 60 + 1 < 60"
  then have "(a + 1) mod 60 = 0" "(a + 1) div 60 = a div 60 + 1" using r by (simp_all add: a_def div_Suc mod_Suc)
  moreover have "a div 60 + 1 < 24"
  proof -
    have "s mod 60 = 59" "a mod 60 = 59" using s m r by (simp_all add: a_def)
    then show ?thesis using assms div_mult_mod_eq [of s 60] div_mult_mod_eq [of a 60] unfolding a_def [symmetric] by linarith
  qed
  ultimately show "(s + 1) mod 60 = 0 \<and> (s + 1) div 60 mod 60 = 0 \<and> (s + 1) div 3600 = s div 3600 + 1
      \<and> s div 3600 + 1 < 24"
    unfolding h s' a_def [symmetric] by simp
qed

lemma later_time_Suc: "later_time t (Suc n) = tick_one (later_time t n)"
proof -
  define q where "q = (time_of_day t + n) div 86400"
  define s where "s = (time_of_day t + n) mod 86400"
  have x: "time_of_day t + n = q * 86400 + s" by (simp add: q_def s_def)
  have s: "s < 86400" by (simp add: s_def)
  obtain y m d where date: "(next_day ^^ q) (date_of t) = (y, m, d)" by (cases "(next_day ^^ q) (date_of t)")
  note now = later_time_at [OF x s date]
  show ?thesis
  proof (cases "s + 1 < 86400")
    case True
    have "time_of_day t + Suc n = q * 86400 + (s + 1)" using x by simp
    note soon = later_time_at [OF this True date]
    show ?thesis
      unfolding soon now tick_one_def rtc_time.simps
      using second_step [OF True]
      by (cases "s mod 60 + 1 < 60"; cases "s div 60 mod 60 + 1 < 60") (simp_all del: One_nat_def add_Suc_right)
  next
    case False
    then have s': "s = 86399" using s by simp
    obtain y' m' d' where next_: "next_day (y, m, d) = (y', m', d')" by (cases "next_day (y, m, d)")
    then have date': "(next_day ^^ Suc q) (date_of t) = (y', m', d')" using date by simp
    have "time_of_day t + Suc n = Suc q * 86400 + 0" using x s' by simp
    note soon = later_time_at [OF this _ date', simplified]
    have "(weekday t - 1 + Suc q) mod 7 = ((weekday t - 1 + q) mod 7 + 1) mod 7" by (simp add: mod_simps)
    then show ?thesis
      unfolding soon now tick_one_def s' by (simp add: date_of_def next_)
  qed
qed

lemma later_time_ticks: "time_ok t \<Longrightarrow> later_time t n = (tick_one ^^ n) t"
  by (induction n) (simp_all add: later_time_zero later_time_Suc)

lemma advance_time_later:
  assumes ok: "time_ok t" and n: "second t + n \<le> u64_max"
  shows "advance_time t n = Some (later_time t n)"
proof -
  let ?x = "time_of_day t + n"
  have x: "?x = hour t * 3600 + minute t * 60 + (second t + n)" by (simp add: time_of_day_def)
  note p = hms_parts [OF x]
  have st: "wrapping_add64 (second t) n = second t + n" using n by (simp add: wrapping_add64_def)
  have carry: "(hour t + (minute t + (second t + n) div 60) div 60) div 24 = ?x div 86400"
    by (simp add: day_parts(4) p)
  have "day t \<le> 31" using ok month_days_bounds [of "month t" "year t"] by (auto simp: time_ok_def date_ok_def date_of_def)
  moreover have "?x div 86400 \<le> (u64_max + 86400) div 86400"
    using ok n by (intro div_le_mono) (simp add: time_of_day_def time_ok_def)
  ultimately have "day t + ?x div 86400 \<le> u64_max" by (simp add: u64_max_def)
  then have roll: "roll_days (year t) (month t) (day t) (?x div 86400) = Some ((next_day ^^ (?x div 86400)) (date_of t))"
    using ok by (simp add: roll_days_next time_ok_def date_of_def)
  have wd: "(if ?x div 86400 > 0 then (weekday t - 1 + ?x div 86400 mod 7) mod 7 + 1 else weekday t) =
      (weekday t - 1 + ?x div 86400) mod 7 + 1"
  proof -
    have "weekday t - 1 < 7" "1 \<le> weekday t" using ok by (auto simp: time_ok_def)
    then show ?thesis using mod_add_right_eq [of "weekday t - 1" "?x div 86400" 7] by simp
  qed
  show ?thesis
    unfolding advance_time_def Let_def st carry roll wd
    by (simp add: later_time_def Let_def day_parts p split: prod.split)
qed

lemma later_time_ok: "time_ok t \<Longrightarrow> time_ok (later_time t n)"
proof -
  assume ok: "time_ok t"
  define q where "q = (time_of_day t + n) div 86400"
  define s where "s = (time_of_day t + n) mod 86400"
  have x: "time_of_day t + n = q * 86400 + s" by (simp add: q_def s_def)
  have s: "s < 86400" by (simp add: s_def)
  obtain y m d where date: "(next_day ^^ q) (date_of t) = (y, m, d)" by (cases "(next_day ^^ q) (date_of t)")
  have "date_ok (y, m, d)" using date_ok_days [of "date_of t" q] ok by (simp add: date time_ok_def)
  moreover have "(weekday t - 1 + q) mod 7 + 1 \<le> 7" by (simp add: Suc_le_eq)
  moreover have "s div 3600 < 24" using s by (simp add: less_mult_imp_div_less)
  ultimately show ?thesis unfolding later_time_at [OF x s date] time_ok_def date_of_def by simp
qed

section \<open>The device on the timeline\<close>

definition clock_registers :: "nat list" where
  "clock_registers = [REG_SECONDS, REG_MINUTES, REG_HOURS, REG_WEEKDAY, REG_DAY, REG_MONTH, REG_YEAR, REG_CENTURY,
     REG_CENTURY_ALT]"

lemma write_time_keeps:
  "i \<notin> set clock_registers \<Longrightarrow> ram (write_time_registers r) ! i = ram r ! i"
  "length (ram (write_time_registers r)) = length (ram r)" "time (write_time_registers r) = time r"
  "periodic_phase (write_time_registers r) = periodic_phase r"
  by (simp_all add: write_time_registers_def clock_registers_def Let_def)

lemma tick_seconds_run:
  assumes "time_ok (time r)" and "second (time r) + n \<le> u64_max"
  shows "\<exists>r'. tick_seconds r n = Some r' \<and> time r' = later_time (time r) n
    \<and> (\<forall>i. i \<notin> set clock_registers \<longrightarrow> ram r' ! i = ram r ! i)
    \<and> periodic_phase r' = periodic_phase r \<and> length (ram r') = length (ram r)
    \<and> (0 < n \<longrightarrow> write_time_registers r' = r')"
proof (cases "n = 0")
  case True
  then show ?thesis using later_time_zero [OF assms(1)] by (simp add: tick_seconds_def)
next
  case False
  let ?r = "r\<lparr>time := later_time (time r) n\<rparr>"
  have "write_time_registers (write_time_registers ?r) = write_time_registers ?r"
    by (simp add: write_time_registers_def Let_def reg_numbers list_update_swap)
  then show ?thesis
    using False advance_time_later [OF assms] by (simp add: tick_seconds_def write_time_keeps)
qed

definition due :: "nat option \<Rightarrow> nat \<Rightarrow> bool" where
  "due deadline n \<longleftrightarrow> (case deadline of None \<Rightarrow> False | Some d \<Rightarrow> d \<le> n)"

definition rings :: "rtc \<Rightarrow> rtc_time \<Rightarrow> bool" where
  "rings r t \<longleftrightarrow> alarm_matches_time r (hour t) (minute t) (second t)"

lemma rings_later:
  "rings r (later_time t k) \<longleftrightarrow>
    (let later = (time_of_day t + k) mod 86400 in alarm_matches_time r (later div 3600) (later div 60 mod 60) (later mod 60))"
  by (simp add: rings_def later_time_def Let_def split: prod.split)

lemma find_upt_due:
  "due (find P [1..<86401]) n \<longleftrightarrow> (\<exists>k. 1 \<le> k \<and> k \<le> n \<and> k \<le> 86400 \<and> P k)"
proof (cases "find P [1..<86401]")
  case None
  then have "\<not> P k" if "1 \<le> k" "k \<le> 86400" for k
    using that by (auto simp: find_None_iff)
  then show ?thesis unfolding None due_def by auto
next
  case (Some d)
  then obtain i where i: "i < 86400" "P (1 + i)" "d = 1 + i" "\<forall>j<i. \<not> P (1 + j)"
    by (auto simp: find_Some_iff)
  have "d \<le> k" if "1 \<le> k" "P k" for k
  proof (rule ccontr)
    assume "\<not> d \<le> k"
    then have "k - 1 < i" using that i(3) by simp
    then show False using i(4) that by auto
  qed
  moreover have "1 \<le> d" "d \<le> 86400" "P d" using i by auto
  ultimately show ?thesis unfolding Some due_def by (auto intro: le_trans)
qed

lemma alarm_due:
  assumes "time_ok (time r)"
  shows "due (seconds_until_alarm r) n \<longleftrightarrow> (\<exists>k. 1 \<le> k \<and> k \<le> n \<and> rings r ((tick_one ^^ k) (time r)))"
proof -
  let ?P = "\<lambda>k. rings r (later_time (time r) k)"
  have "seconds_until_alarm r = find ?P [1..<86401]"
    unfolding seconds_until_alarm_def Let_def by (simp add: rings_later time_of_day_def Let_def cong: find_cong)
  then have due: "due (seconds_until_alarm r) n \<longleftrightarrow> (\<exists>k. 1 \<le> k \<and> k \<le> n \<and> k \<le> 86400 \<and> ?P k)"
    by (simp only: find_upt_due)
  have "\<exists>k'. 1 \<le> k' \<and> k' \<le> k \<and> k' \<le> 86400 \<and> ?P k'" if "1 \<le> k" "?P k" for k
  proof (intro exI conjI)
    let ?k = "(k - 1) mod 86400 + 1"
    show "1 \<le> ?k" by simp
    show "?k \<le> k" using that(1) mod_less_eq_dividend [of "k - 1" 86400] by linarith
    have "(k - 1) mod 86400 < 86400" by simp
    then show "?k \<le> 86400" by linarith
    have "(time_of_day (time r) + ?k) mod 86400 = (time_of_day (time r) + 1 + (k - 1) mod 86400) mod 86400" by simp
    also have "\<dots> = (time_of_day (time r) + 1 + (k - 1)) mod 86400" by (rule mod_add_right_eq)
    also have "\<dots> = (time_of_day (time r) + k) mod 86400" using that(1) by simp
    finally show "?P ?k" using that(2) unfolding rings_later by simp
  qed
  then have "(\<exists>k. 1 \<le> k \<and> k \<le> n \<and> k \<le> 86400 \<and> ?P k) \<longleftrightarrow> (\<exists>k. 1 \<le> k \<and> k \<le> n \<and> ?P k)"
    by (meson le_trans)
  then show ?thesis unfolding due by (simp only: later_time_ticks [OF assms])
qed

definition rtc_ok :: "rtc \<Rightarrow> bool" where
  "rtc_ok r \<longleftrightarrow> length (ram r) = 64 \<and> time_ok (time r) \<and> phase_ok (periodic_phase r)"

lemma periodic_due:
  assumes "phase_ok (periodic_phase r)" and "ticks < u64_max"
  shows "0 < fst (phase_advance (periodic_phase r) ticks (periodic_rate_hz r)) \<longleftrightarrow>
    due (phase_ticks_until (periodic_phase r) 1 (periodic_rate_hz r)) ticks"
proof (cases "periodic_rate_hz r = 0")
  case True
  then show ?thesis using assms(1) by (simp add: phase_advance_exact phase_ticks_until_def due_def phase_ok_def)
next
  case False
  then show ?thesis
    using phase_ticks_until_le_iff [OF assms(1), of "periodic_rate_hz r" 1 ticks] assms(2)
    by (auto simp: due_def u64_max_def Suc_le_eq)
qed

lemma latch_result:
  "fst (latch_interrupt_flags r flags) \<longleftrightarrow>
    \<not> test (ram r ! REG_C) REG_C_IRQF \<and> (test flags REG_C_PF \<and> test (ram r ! REG_B) REG_B_PIE
      \<or> test flags REG_C_AF \<and> test (ram r ! REG_B) REG_B_AIE \<or> test flags REG_C_UF \<and> test (ram r ! REG_B) REG_B_UIE)"
  by (auto simp: latch_interrupt_flags_def Let_def set_ram_def reg_numbers test_def)

lemma flag_bits:
  "test ((if a then (if u then (if p then 0 OR REG_C_PF else 0) OR REG_C_UF else (if p then 0 OR REG_C_PF else 0)) OR REG_C_AF
          else (if u then (if p then 0 OR REG_C_PF else 0) OR REG_C_UF else (if p then 0 OR REG_C_PF else 0)))) REG_C_PF \<longleftrightarrow> p"
  "test ((if a then (if u then (if p then 0 OR REG_C_PF else 0) OR REG_C_UF else (if p then 0 OR REG_C_PF else 0)) OR REG_C_AF
          else (if u then (if p then 0 OR REG_C_PF else 0) OR REG_C_UF else (if p then 0 OR REG_C_PF else 0)))) REG_C_UF \<longleftrightarrow> u"
  "test ((if a then (if u then (if p then 0 OR REG_C_PF else 0) OR REG_C_UF else (if p then 0 OR REG_C_PF else 0)) OR REG_C_AF
          else (if u then (if p then 0 OR REG_C_PF else 0) OR REG_C_UF else (if p then 0 OR REG_C_PF else 0)))) REG_C_AF \<longleftrightarrow> a"
  by (simp_all add: rtc_masks test_def)

lemma seconds_until_irq_due:
  "due (seconds_until_irq r) n \<longleftrightarrow>
    \<not> test (ram r ! REG_C) REG_C_IRQF \<and>
    (test (ram r ! REG_B) REG_B_UIE \<and> 1 \<le> n \<or> test (ram r ! REG_B) REG_B_AIE \<and> due (seconds_until_alarm r) n)"
  by (auto simp: seconds_until_irq_def due_def Let_def split: option.split)

lemma alarm_due_pos: "due (seconds_until_alarm r) n \<Longrightarrow> 0 < n"
  unfolding seconds_until_alarm_def Let_def by (auto simp: find_upt_due [simplified])

lemma rtc_advance_run:
  assumes ok: "rtc_ok r" and t: "ticks < u64_max" and s: "second (time r) + secs \<le> u64_max"
  shows "\<exists>b r'. rtc_advance r ticks secs = Some (b, r')
    \<and> (b \<longleftrightarrow> due (ticks_until_periodic_irq r) ticks \<or> due (seconds_until_irq r) secs)"
proof -
  have time: "time_ok (time r)" and phase: "phase_ok (periodic_phase r)" using ok by (simp_all add: rtc_ok_def)
  obtain r1 where r1: "tick_seconds r secs = Some r1" "periodic_phase r1 = periodic_phase r"
    "\<forall>i. i \<notin> set clock_registers \<longrightarrow> ram r1 ! i = ram r ! i"
    using tick_seconds_run [OF time s] by blast
  have regs: "ram r1 ! REG_A = ram r ! REG_A" "ram r1 ! REG_B = ram r ! REG_B" "ram r1 ! REG_C = ram r ! REG_C"
    using r1(3) by (simp_all add: clock_registers_def reg_numbers)
  have rate: "periodic_rate_hz r1 = periodic_rate_hz r" by (simp add: periodic_rate_hz_def regs)
  let ?p = "phase_advance (periodic_phase r) ticks (periodic_rate_hz r)"
  let ?flags = "\<lambda>p u a. if a then (if u then (if p then 0 OR REG_C_PF else 0) OR REG_C_UF else (if p then 0 OR REG_C_PF else 0)) OR REG_C_AF
     else (if u then (if p then 0 OR REG_C_PF else 0) OR REG_C_UF else (if p then 0 OR REG_C_PF else 0))"
  have run: "rtc_advance r ticks secs = Some (latch_interrupt_flags (r1\<lparr>periodic_phase := snd ?p\<rparr>)
      (?flags (0 < fst ?p) (0 < secs) (0 < secs \<and> due (seconds_until_alarm r) secs)))"
    by (simp add: rtc_advance_def r1 rate due_def Let_def case_prod_beta)
  have "fst (latch_interrupt_flags (r1\<lparr>periodic_phase := snd ?p\<rparr>)
      (?flags (0 < fst ?p) (0 < secs) (0 < secs \<and> due (seconds_until_alarm r) secs))) \<longleftrightarrow>
    \<not> test (ram r ! REG_C) REG_C_IRQF \<and> (0 < fst ?p \<and> test (ram r ! REG_B) REG_B_PIE
      \<or> (0 < secs \<and> due (seconds_until_alarm r) secs) \<and> test (ram r ! REG_B) REG_B_AIE
      \<or> 0 < secs \<and> test (ram r ! REG_B) REG_B_UIE)"
    unfolding latch_result flag_bits by (simp add: regs)
  also have "\<dots> \<longleftrightarrow> due (ticks_until_periodic_irq r) ticks \<or> due (seconds_until_irq r) secs"
    unfolding seconds_until_irq_due periodic_due [OF phase t]
    using alarm_due_pos [of r secs]
    by (auto simp: ticks_until_periodic_irq_def due_def [of None])
  finally show ?thesis unfolding run by (intro exI conjI) (rule arg_cong [of _ _ Some], rule prod.collapse [symmetric])
qed

section \<open>The stored image\<close>

lemma bcd_round_trip: "c < 100 \<Longrightarrow> unat (bcd_to_bin (bin_to_bcd (of_nat c))) = c"
proof -
  have "list_all (\<lambda>c. unat (bcd_to_bin (bin_to_bcd (of_nat c))) = c) [0..<100]" by code_simp
  then show "c < 100 \<Longrightarrow> ?thesis" by (simp add: list_all_iff)
qed

lemma checksum_sum: "checksum_for bytes = sum_list (map ucast (take 30 (drop 16 bytes)))"
proof -
  have "fold (\<lambda>b sum. sum + ucast b) xs a = a + sum_list (map ucast xs)" for xs :: "u8 list" and a :: u16
    by (induction xs arbitrary: a) (simp_all add: add.assoc)
  then show ?thesis by (simp add: checksum_for_def reg_numbers)
qed

lemma sum_list_change:
  fixes f :: "u8 \<Rightarrow> u16"
  shows "i < length xs \<Longrightarrow> sum_list (map f (xs[i := v])) = sum_list (map f xs) - f (xs ! i) + f v"
proof (induction xs arbitrary: i)
  case (Cons x xs)
  then show ?case by (cases i) (simp_all add: algebra_simps)
qed simp

lemma checksum_change:
  assumes "length bytes = 64" and "NVRAM_CHECKSUM_LO \<le> i" and "i \<le> NVRAM_CHECKSUM_HI"
  shows "checksum_for (bytes[i := v]) = checksum_for bytes \<longleftrightarrow> bytes ! i = v"
proof -
  let ?xs = "take 30 (drop 16 bytes)"
  have i: "16 \<le> i" "i < 46" using assms by (simp_all add: reg_numbers)
  have "take 30 (drop 16 (bytes[i := v])) = ?xs[i - 16 := v]" using i by (simp add: drop_update_swap take_update_swap)
  moreover have "?xs ! (i - 16) = bytes ! i" using i assms(1) by simp
  ultimately have "checksum_for (bytes[i := v]) = checksum_for bytes - ucast (bytes ! i) + ucast v"
    using sum_list_change [of "i - 16" ?xs ucast v] i assms(1) by (simp add: checksum_sum)
  moreover have "(ucast (bytes ! i) :: u16) = ucast v \<longleftrightarrow> bytes ! i = v"
  proof -
    have "unat (ucast b :: u16) = unat b" for b :: u8
      using unat_less_u8 [of b] by (simp add: unsigned_ucast_eq take_bit_nat_eq_self)
    then show ?thesis by (metis word_unat_eq_iff)
  qed
  ultimately show ?thesis by (auto simp: algebra_simps)
qed

lemma stored_refresh:
  assumes "length (ram r) = 64"
  shows "stored_checksum (ram (refresh_checksum r)) = checksum_for (ram (refresh_checksum r))"
proof -
  have "take 30 (drop 16 ((ram r)[46 := a, 47 := b])) = take 30 (drop 16 (ram r))" for a b
    by (simp add: drop_update_swap take_update_swap list_update_beyond)
  then have same: "checksum_for (ram (refresh_checksum r)) = checksum r"
    by (simp add: checksum_sum refresh_checksum_def checksum_def reg_numbers Let_def)
  have "push_bit 8 (ucast (ucast (drop_bit 8 w) :: u8)) OR ucast (ucast (w AND 0xff) :: u8) = w" for w :: u16
  proof (rule bit_word_eqI)
    fix n assume "n < LENGTH(16)"
    then have "n < 16" by simp
    then have "n \<in> {0, 1, 2, 3, 4, 5, 6, 7, 8, 9, 10, 11, 12, 13, 14, 15}"
      by (simp only: insert_iff empty_iff) presburger
    then show "bit (push_bit 8 (ucast (ucast (drop_bit 8 w) :: u8)) OR ucast (ucast (w AND 0xff) :: u8) :: u16) n = bit w n"
      by (elim insertE) (simp_all add: bit_simps bit_numeral_rec)
  qed
  then show ?thesis
    using assms unfolding same by (simp add: stored_checksum_def refresh_checksum_def checksum_def reg_numbers Let_def)
qed

text \<open>A clock whose registers mirror its time, with a valid checksum and a good battery.\<close>

definition image_ok :: "rtc \<Rightarrow> bool" where
  "image_ok r \<longleftrightarrow> length (ram r) = 64 \<and> time_ok (time r) \<and> 100 \<le> year (time r) \<and> year (time r) < 10000
     \<and> write_time_registers r = r \<and> stored_checksum (ram r) = checksum_for (ram r)
     \<and> ram r ! REG_B OR 0x06 = ram r ! REG_B \<and> test (ram r ! REG_D) 0x80 \<and> ram r ! REG_D OR 0x80 = ram r ! REG_D
     \<and> ram r ! REG_DIAGNOSTIC = 0"

lemma mirror_registers:
  assumes "write_time_registers r = r" and "length (ram r) = 64"
  shows "ram r ! REG_SECONDS = of_nat (second (time r))" "ram r ! REG_MINUTES = of_nat (minute (time r))"
    "ram r ! REG_HOURS = of_nat (hour (time r))" "ram r ! REG_WEEKDAY = of_nat (weekday (time r))"
    "ram r ! REG_DAY = of_nat (day (time r))" "ram r ! REG_MONTH = of_nat (month (time r))"
    "ram r ! REG_YEAR = of_nat (year (time r) mod 100)"
    "ram r ! REG_CENTURY = bin_to_bcd (of_nat (year (time r) div 100))"
  using assms(2)
  by (subst assms(1) [symmetric], simp add: write_time_registers_def Let_def reg_numbers)+

lemma read_back_time:
  assumes mirror: "write_time_registers r = r" and len: "length (ram r) = 64"
    and ok: "time_ok (time r)" and y: "year (time r) < 10000"
  shows "read_time_registers r = r"
proof -
  have dom: "1 \<le> month (time r)" "month (time r) \<le> 12" "1 \<le> day (time r)" "day (time r) \<le> 31"
    "1 \<le> weekday (time r)" "weekday (time r) \<le> 7" "hour (time r) < 24" "minute (time r) < 60" "second (time r) < 60"
    using ok month_days_bounds [of "month (time r)" "year (time r)"] by (auto simp: time_ok_def date_ok_def date_of_def)
  have small: "unat (of_nat k :: u8) = k" if "k < 256" for k using that by (simp add: unat_of_nat)
  have cent: "unat (bcd_to_bin (bin_to_bcd (of_nat (year (time r) div 100)))) = year (time r) div 100"
    using y by (intro bcd_round_trip) (simp add: less_mult_imp_div_less)
  have yy: "unat (of_nat (year (time r) mod 100) :: u8) = year (time r) mod 100"
    by (rule small) (rule less_trans [of _ 100], simp_all)
  have "time (read_time_registers r) = time r"
    using dom
    by (intro rtc_time.equality)
      (simp_all add: read_time_registers_def Let_def mirror_registers [OF mirror len] small cent yy clamp_def
        del: unsigned_of_nat of_nat_mod of_nat_div)
  then show ?thesis by (simp add: read_time_registers_def Let_def)
qed

section \<open>Properties\<close>

text \<open>C21: The bulk clock advance is the one-second clock. From a valid time, advancing by \<open>n\<close> seconds
  always succeeds and leaves exactly the time that \<open>n\<close> single-second ticks leave, through minutes,
  hours, days, months, leap years and weekdays; the time stays valid, the clock registers mirror
  it, and every other CMOS byte is untouched.\<close>

theorem rtc_clock_exact:
  assumes "rtc_ok r" and "second (time r) + n \<le> u64_max"
  shows "\<exists>r'. tick_seconds r n = Some r' \<and> time r' = (tick_one ^^ n) (time r) \<and> rtc_ok r'
    \<and> (\<forall>i. i \<notin> set clock_registers \<longrightarrow> ram r' ! i = ram r ! i) \<and> (0 < n \<longrightarrow> write_time_registers r' = r')"
  using assms tick_seconds_run [of r n] later_time_ok [of "time r" n] later_time_ticks [of "time r" n]
  by (auto simp: rtc_ok_def)

theorem rtc_clock_exact_witness:
  "\<exists>r'. tick_seconds (rtc_new\<lparr>time := \<lparr>year = 2028, month = 2, day = 28, weekday = 2, hour = 23, minute = 59, second = 58\<rparr>\<rparr>) 86402
      = Some r' \<and> time r' = (tick_one ^^ 86402) \<lparr>year = 2028, month = 2, day = 28, weekday = 2, hour = 23, minute = 59, second = 58\<rparr>"
proof -
  let ?t = "\<lparr>year = 2028, month = 2, day = 28, weekday = 2, hour = 23, minute = 59, second = 58\<rparr>"
  have "length (ram rtc_new) = 64" "phase_ok (periodic_phase rtc_new)"
    by (simp_all add: rtc_new_def Let_def refresh_checksum_def write_time_registers_def phase_ok_def phase_default_def)
  moreover have "time_ok ?t"
    by (simp add: time_ok_def date_ok_def date_of_def month_days_def days_in_month_def is_leap_year_def)
  ultimately have "rtc_ok (rtc_new\<lparr>time := ?t\<rparr>)" by (simp add: rtc_ok_def)
  then show ?thesis using rtc_clock_exact [of "rtc_new\<lparr>time := ?t\<rparr>" 86402] by (auto simp: u64_max_def)
qed

text \<open>The alarm fires when the clock passes it. The published alarm deadline is at most \<open>n\<close>
  exactly when one of the next \<open>n\<close> one-second ticks shows a time that matches the alarm registers,
  don't-care bytes included.\<close>

lemma rtc_alarm_exact:
  assumes "rtc_ok r"
  shows "due (seconds_until_alarm r) n \<longleftrightarrow> (\<exists>k. 1 \<le> k \<and> k \<le> n \<and> rings r ((tick_one ^^ k) (time r)))"
  using alarm_due assms by (simp add: rtc_ok_def)

lemma rtc_new_ok: "rtc_ok rtc_new"
  by (simp add: rtc_ok_def rtc_new_def Let_def refresh_checksum_def write_time_registers_def phase_ok_def phase_default_def
      time_ok_def date_ok_def date_of_def month_days_def days_in_month_def DAYS_IN_MONTH_def)

lemma rtc_new_regs: "time rtc_new = \<lparr>year = 2026, month = 1, day = 1, weekday = 1, hour = 0, minute = 0, second = 0\<rparr>"
  "ram rtc_new ! REG_SECONDS_ALARM = 0" "ram rtc_new ! REG_MINUTES_ALARM = 0" "ram rtc_new ! REG_HOURS_ALARM = 0"
  "length (ram rtc_new) = 64" "ram rtc_new ! REG_B = 6" "ram rtc_new ! REG_C = 0"
  by (simp_all add: rtc_new_def Let_def refresh_checksum_def write_time_registers_def reg_numbers rtc_masks)

lemma rtc_alarm_exact_witness:
  "due (seconds_until_alarm (set_ram rtc_new REG_SECONDS_ALARM 2)) 5"
proof -
  let ?r = "set_ram rtc_new REG_SECONDS_ALARM 2"
  have ok: "rtc_ok ?r" using rtc_new_ok by (simp add: rtc_ok_def set_ram_def)
  have two: "(tick_one ^^ 2) (time ?r) = tick_one (tick_one (time ?r))" by (simp add: numeral_2_eq_2)
  have "rings ?r ((tick_one ^^ 2) (time ?r))"
    unfolding two using rtc_new_regs [unfolded reg_numbers]
    by (simp add: rings_def set_ram_def tick_one_def alarm_matches_time_def reg_numbers)
  then show ?thesis unfolding rtc_alarm_exact [OF ok] by (intro exI [of _ 2]) simp
qed

text \<open>C26: The interrupt deadlines are exact. An advance by \<open>ticks\<close> master ticks and \<open>secs\<close> seconds
  raises a new interrupt exactly when it reaches the periodic deadline in ticks or the update and
  alarm deadline in seconds that the device published before it.\<close>

theorem rtc_irq_deadline:
  assumes "rtc_ok r" and "ticks < u64_max" and "second (time r) + secs \<le> u64_max"
  shows "\<exists>b r'. rtc_advance r ticks secs = Some (b, r')
    \<and> (b \<longleftrightarrow> due (ticks_until_periodic_irq r) ticks \<or> due (seconds_until_irq r) secs)"
  by (rule rtc_advance_run [OF assms])

theorem rtc_irq_deadline_witness:
  "\<exists>r'. rtc_advance (set_ram rtc_new REG_B 0x16) 7 1 = Some (True, r')"
proof -
  let ?r = "set_ram rtc_new REG_B 0x16"
  have ok: "rtc_ok ?r" using rtc_new_ok by (simp add: rtc_ok_def set_ram_def)
  have "ram ?r ! REG_B = 0x16" "ram ?r ! REG_C = 0"
    using rtc_new_regs by (simp_all add: set_ram_def REG_B_def REG_C_def)
  then have "due (seconds_until_irq ?r) 1" unfolding seconds_until_irq_due by (simp add: test_def rtc_masks)
  then show ?thesis
    using rtc_irq_deadline [OF ok, of 7 1] by (auto simp: u64_max_def set_ram_def rtc_new_regs)
qed

text \<open>C35: A guest can crash the machine through the CMOS ports. After the guest selects register
  \<open>sel\<close> through port 70h, a write to port 71h panics exactly when the low seven bits of \<open>sel\<close> are 40h
  or more, an index past the 64 CMOS bytes.\<close>

theorem cmos_index_panic:
  assumes "length (ram r) = 64"
  shows "(case rtc_write_port r 0x70 sel of Some (_, r') \<Rightarrow> rtc_write_port r' 0x71 v | None \<Rightarrow> None) = None
    \<longleftrightarrow> 0x40 \<le> sel AND 0x7f"
proof -
  have i: "unat (sel AND 0x7f AND 0x7f) = unat (sel AND 0x7f)" by (simp add: and.assoc)
  have c: "0x40 \<le> sel AND 0x7f \<longleftrightarrow> 64 \<le> unat (sel AND 0x7f)" by (simp add: word_le_nat_alt)
  have "write_data (r\<lparr>index := sel AND 0x7f, nmi_disabled := b\<rparr>) v = None \<longleftrightarrow> 64 \<le> unat (sel AND 0x7f)" for b
    unfolding write_data_def Let_def using assms by (simp add: i reg_numbers)
  then show ?thesis by (simp add: rtc_write_port_def c)
qed

theorem cmos_index_panic_witness:
  "(case rtc_write_port rtc_new 0x70 0xC5 of Some (_, r') \<Rightarrow> rtc_write_port r' 0x71 1 | None \<Rightarrow> None) = None"
  using cmos_index_panic [OF rtc_new_regs(5), where sel = "0xC5" and v = 1] by simp

text \<open>A stored CMOS image is restored or refused. Loading the image of a consistent clock restores
  its CMOS bytes and its time into any device; changing any one byte of the checksummed area makes
  the load report failure, keep the clock of the loading device, mark the checksum fault and
  leave a valid checksum.\<close>

lemma nvram_restore:
  assumes image: "image_ok r" and len: "length (ram r0) = 64"
    and i: "NVRAM_CHECKSUM_LO \<le> i" "i \<le> NVRAM_CHECKSUM_HI" and v: "ram r ! i \<noteq> v"
  shows "(\<exists>r1. load_nvram r0 (ram r) = (True, r1) \<and> ram r1 = ram r \<and> time r1 = time r)
    \<and> (\<exists>r2. load_nvram r0 ((ram r)[i := v]) = (False, r2) \<and> time r2 = time r0
         \<and> stored_checksum (ram r2) = checksum_for (ram r2) \<and> ram r2 ! REG_DIAGNOSTIC = 0x40)"
proof
  have r: "length (ram r) = 64" "time_ok (time r)" "100 \<le> year (time r)" "year (time r) < 10000"
    "write_time_registers r = r" "stored_checksum (ram r) = checksum_for (ram r)"
    "ram r ! REG_B OR 0x06 = ram r ! REG_B" "test (ram r ! REG_D) 0x80" "ram r ! REG_D OR 0x80 = ram r ! REG_D"
    "ram r ! REG_DIAGNOSTIC = 0"
    using image by (simp_all add: image_ok_def)
  have "ram r ! REG_CENTURY \<noteq> 0"
  proof
    assume z: "ram r ! REG_CENTURY = 0"
    have "unat (bcd_to_bin (ram r ! REG_CENTURY)) = year (time r) div 100"
      unfolding mirror_registers(8) [OF r(5,1)] using r(4) by (intro bcd_round_trip) (simp add: less_mult_imp_div_less)
    moreover have "unat (bcd_to_bin 0) = 0" by (simp add: bcd_to_bin_def)
    ultimately show False using z r(3) by simp
  qed
  have "time (read_time_registers (r0\<lparr>periodic_phase := phase_default, ram := ram r\<rparr>)) = time (read_time_registers r)"
    by (simp add: read_time_registers_def Let_def)
  also have "\<dots> = time r" using read_back_time [OF r(5,1,2,4)] by simp
  finally have t: "time (read_time_registers (r0\<lparr>periodic_phase := phase_default, ram := ram r\<rparr>)) = time r" .
  have "ram (read_time_registers x) = ram x" for x by (simp add: read_time_registers_def Let_def)
  with t show "\<exists>r1. load_nvram r0 (ram r) = (True, r1) \<and> ram r1 = ram r \<and> time r1 = time r"
    unfolding load_nvram_def Let_def using r \<open>ram r ! REG_CENTURY \<noteq> 0\<close>
    by (simp add: set_ram_def) (metis list_update_id)
  have "stored_checksum ((ram r)[i := v]) = stored_checksum (ram r)"
    using i by (simp add: stored_checksum_def reg_numbers)
  then have bad: "stored_checksum ((ram r)[i := v]) \<noteq> checksum_for ((ram r)[i := v])"
    using r(6) checksum_change [OF r(1) i, of v] v by simp
  show "\<exists>r2. load_nvram r0 ((ram r)[i := v]) = (False, r2) \<and> time r2 = time r0
         \<and> stored_checksum (ram r2) = checksum_for (ram r2) \<and> ram r2 ! REG_DIAGNOSTIC = 0x40"
  proof -
    have d: "(ram r)[i := v] ! REG_D = ram r ! REG_D" using i by (simp add: reg_numbers)
    define b where "b = set_ram (r0\<lparr>periodic_phase := phase_default\<rparr>) REG_DIAGNOSTIC 0x40"
    define e where "e = set_ram b REG_B (ram b ! REG_B OR 0x06)"
    define f where "f = set_ram e REG_D (ram e ! REG_D OR 0x80)"
    have lenf: "length (ram f) = 64" and timef: "time f = time r0"
      using len by (simp_all add: b_def e_def f_def set_ram_def)
    have "load_nvram r0 ((ram r)[i := v]) = (False, (refresh_checksum f)\<lparr>nvram_dirty := True\<rparr>)"
      unfolding load_nvram_def Let_def using bad r(8) by (simp add: d b_def e_def f_def)
    moreover have "ram (refresh_checksum f) ! REG_DIAGNOSTIC = 0x40"
      using len by (simp add: refresh_checksum_def Let_def b_def e_def f_def set_ram_def reg_numbers)
    moreover have "time (refresh_checksum f) = time r0" using timef by (simp add: refresh_checksum_def Let_def)
    ultimately show ?thesis using stored_refresh [OF lenf] by simp
  qed
qed

lemma image_new: "image_ok rtc_new"
proof -
  let ?r = "\<lparr>ram = (replicate 64 0)[REG_A := 0x26, REG_B := REG_B_DEFAULT, REG_C := 0, REG_D := 0x80,
                 REG_CENTURY := CENTURY_DEFAULT, REG_CENTURY_ALT := CENTURY_DEFAULT], index = 0, nmi_disabled = False,
           time = \<lparr>year = 2026, month = 1, day = 1, weekday = 1, hour = 0, minute = 0, second = 0\<rparr>,
           seeded = False, nvram_dirty = False, periodic_phase = phase_default\<rparr>"
  have new: "rtc_new = refresh_checksum (write_time_registers ?r)" by (simp add: rtc_new_def Let_def)
  have "write_time_registers (refresh_checksum (write_time_registers ?r)) = refresh_checksum (write_time_registers ?r)"
    by (simp add: write_time_registers_def refresh_checksum_def Let_def reg_numbers list_update_swap)
  moreover have "stored_checksum (ram rtc_new) = checksum_for (ram rtc_new)"
    unfolding new by (rule stored_refresh) (simp add: write_time_registers_def Let_def)
  moreover have "ram rtc_new ! REG_B = 6" "ram rtc_new ! REG_D = 0x80" "ram rtc_new ! REG_DIAGNOSTIC = 0"
    by (simp_all add: rtc_new_def Let_def refresh_checksum_def write_time_registers_def reg_numbers rtc_masks)
  ultimately show ?thesis
    using rtc_new_ok rtc_new_regs unfolding image_ok_def rtc_ok_def new [symmetric] by (simp add: test_def)
qed

lemma nvram_restore_witness:
  "\<exists>r1. load_nvram rtc_new (ram rtc_new) = (True, r1) \<and> ram r1 = ram rtc_new \<and> time r1 = time rtc_new"
proof -
  have "ram rtc_new ! 0x20 = 0"
    by (simp add: rtc_new_def Let_def refresh_checksum_def write_time_registers_def reg_numbers rtc_masks)
  then show ?thesis
    using nvram_restore [OF image_new rtc_new_regs(5), of "0x20" 1] by (simp add: reg_numbers)
qed

end
