(* ===== verification/Uart.thy ===== *)
theory Uart
  imports Clock
begin

text \<open>
  The serial ports (\<open>crates/izarravm-machine/src/uart.rs\<close>): a 16450 with the FIFOs of the 16550,
  its registers, the interrupt identification, the loopback path, and the timed transmitter and
  receive time-out that the advance loop drives. The loop is a terminating function. The lemmas
  show that the line status register mirrors the queues, that the advance does not depend on how
  a span of ticks is split, and that the published interrupt deadline is exact.
\<close>

section \<open>Registers\<close>

definition COM1_BASE :: u16 where "COM1_BASE = 0x03f8"
definition COM2_BASE :: u16 where "COM2_BASE = 0x02f8"

definition LSR_DR :: u8 where "LSR_DR = 0x01"
definition LSR_OE :: u8 where "LSR_OE = 0x02"
definition LSR_THRE :: u8 where "LSR_THRE = 0x20"
definition LSR_TEMT :: u8 where "LSR_TEMT = 0x40"

definition MSR_DCTS :: u8 where "MSR_DCTS = 0x01"
definition MSR_DDSR :: u8 where "MSR_DDSR = 0x02"
definition MSR_TERI :: u8 where "MSR_TERI = 0x04"
definition MSR_DDCD :: u8 where "MSR_DDCD = 0x08"
definition MSR_CTS :: u8 where "MSR_CTS = 0x10"
definition MSR_DSR :: u8 where "MSR_DSR = 0x20"
definition MSR_RI :: u8 where "MSR_RI = 0x40"
definition MSR_DCD :: u8 where "MSR_DCD = 0x80"

definition MCR_DTR :: u8 where "MCR_DTR = 0x01"
definition MCR_RTS :: u8 where "MCR_RTS = 0x02"
definition MCR_OUT1 :: u8 where "MCR_OUT1 = 0x04"
definition MCR_OUT2 :: u8 where "MCR_OUT2 = 0x08"
definition MCR_LOOP :: u8 where "MCR_LOOP = 0x10"

definition IER_RDA :: u8 where "IER_RDA = 0x01"
definition IER_THRE :: u8 where "IER_THRE = 0x02"
definition IER_RLS :: u8 where "IER_RLS = 0x04"
definition IER_MS :: u8 where "IER_MS = 0x08"

definition IIR_NONE :: u8 where "IIR_NONE = 0x01"
definition IIR_RLS :: u8 where "IIR_RLS = 0x06"
definition IIR_RDA :: u8 where "IIR_RDA = 0x04"
definition IIR_TIMEOUT :: u8 where "IIR_TIMEOUT = 0x0c"
definition IIR_THRE :: u8 where "IIR_THRE = 0x02"
definition IIR_MS :: u8 where "IIR_MS = 0x00"

definition FCR_FIFO_ENABLE :: u8 where "FCR_FIFO_ENABLE = 0x01"
definition FCR_CLEAR_RX :: u8 where "FCR_CLEAR_RX = 0x02"
definition FCR_CLEAR_TX :: u8 where "FCR_CLEAR_TX = 0x04"
definition FIFO_SIZE :: nat where "FIFO_SIZE = 16"

lemmas uart_masks =
  LSR_DR_def LSR_OE_def LSR_THRE_def LSR_TEMT_def MSR_DCTS_def MSR_DDSR_def MSR_TERI_def
  MSR_DDCD_def MSR_CTS_def MSR_DSR_def MSR_RI_def MSR_DCD_def MCR_DTR_def MCR_RTS_def
  MCR_OUT1_def MCR_OUT2_def MCR_LOOP_def IER_RDA_def IER_THRE_def IER_RLS_def IER_MS_def
  FCR_FIFO_ENABLE_def FCR_CLEAR_RX_def FCR_CLEAR_TX_def

lemmas iir_codes = IIR_NONE_def IIR_RLS_def IIR_RDA_def IIR_TIMEOUT_def IIR_THRE_def IIR_MS_def

text \<open>The delta bits of the modem status register.\<close>

definition MSR_DELTAS :: u8 where
  "MSR_DELTAS = MSR_DCTS OR MSR_DDSR OR MSR_TERI OR MSR_DDCD"

section \<open>State\<close>

record uart =
  advance_credit_ticks :: nat
  base :: u16
  ier :: u8
  fcr :: u8
  lcr :: u8
  mcr :: u8
  lsr :: u8
  msr :: u8
  scr :: u8
  divisor :: u16
  thre_pending :: bool
  irq_armed :: bool
  irq_asserted :: bool
  rx_fifo :: "u8 list"
  tx_fifo :: "u8 list"
  tx_shift :: "u8 option"
  tx_ticks_remaining :: nat
  rx_timeout_remaining :: "nat option"
  rx_timeout_pending :: bool
  tx_output :: "u8 list"

definition uart_default :: uart where
  "uart_default =
    \<lparr>advance_credit_ticks = 0, base = COM1_BASE, ier = 0, fcr = 0, lcr = 0, mcr = 0,
     lsr = LSR_THRE OR LSR_TEMT, msr = 0, scr = 0, divisor = 0, thre_pending = False,
     irq_armed = False, irq_asserted = False, rx_fifo = [], tx_fifo = [], tx_shift = None,
     tx_ticks_remaining = 0, rx_timeout_remaining = None, rx_timeout_pending = False, tx_output = []\<rparr>"

definition com2 :: uart where
  "com2 = uart_default\<lparr>base := COM2_BASE\<rparr>"

definition dlab :: "uart \<Rightarrow> bool" where
  "dlab u \<longleftrightarrow> test (lcr u) 0x80"

definition map_offset :: "uart \<Rightarrow> u16 \<Rightarrow> u8 option" where
  "map_offset u port =
    (if base u \<le> port \<and> port \<le> base u + 7 then Some (ucast (port - base u)) else None)"

definition fifo_enabled :: "uart \<Rightarrow> bool" where
  "fifo_enabled u \<longleftrightarrow> test (fcr u) FCR_FIFO_ENABLE"

definition rx_trigger :: "uart \<Rightarrow> nat" where
  "rx_trigger u =
    (if \<not> fifo_enabled u then 1
     else let t = drop_bit 6 (fcr u) in if t = 0 then 1 else if t = 1 then 4 else if t = 2 then 8 else 14)"

text \<open>\<open>if self.fifo_enabled() { FIFO_SIZE } else { 1 }\<close>, which three functions of the code write out.\<close>

definition capacity :: "uart \<Rightarrow> nat" where
  "capacity u = (if fifo_enabled u then FIFO_SIZE else 1)"

definition character_ticks :: "uart \<Rightarrow> nat" where
  "character_ticks u =
    (let data_bits = 5 + unat (lcr u AND 0x03);
         parity_bits = (if test (lcr u) 0x08 then 1 else 0);
         stop_half_bits = (if \<not> test (lcr u) 0x04 then 2 else if data_bits = 5 then 3 else 4);
         half_bits = 2 + data_bits * 2 + parity_bits * 2 + stop_half_bits;
         d = max (unat (divisor u)) 1
     in min (div_ceil (MASTER_CLOCK_HZ * d * half_bits) 230400) u64_max)"

section \<open>Interrupt identification\<close>

definition pending_code :: "uart \<Rightarrow> u8" where
  "pending_code u =
    (if test (ier u) IER_RLS \<and> test (lsr u) LSR_OE then IIR_RLS
     else if test (ier u) IER_RDA \<and> rx_trigger u \<le> length (rx_fifo u) then IIR_RDA
     else if test (ier u) IER_RDA \<and> rx_timeout_pending u then IIR_TIMEOUT
     else if test (ier u) IER_THRE \<and> thre_pending u then IIR_THRE
     else if test (ier u) IER_MS \<and> test (msr u) MSR_DELTAS then IIR_MS
     else IIR_NONE)"

definition refresh_irq :: "uart \<Rightarrow> uart" where
  "refresh_irq u =
    (let asserted = (test (mcr u) MCR_OUT2 \<and> pending_code u \<noteq> IIR_NONE)
     in u\<lparr>irq_armed := (if asserted \<and> \<not> irq_asserted u then True else irq_armed u),
          irq_asserted := asserted\<rparr>)"

definition take_irq :: "uart \<Rightarrow> bool \<times> uart" where
  "take_irq u = (irq_armed u, u\<lparr>irq_armed := False\<rparr>)"

definition read_iir :: "uart \<Rightarrow> u8 \<times> uart" where
  "read_iir u =
    (let code = pending_code u;
         fifo_bits = (if test (fcr u) FCR_FIFO_ENABLE then 0xc0 else 0x00)
     in (code OR fifo_bits, if code = IIR_THRE then u\<lparr>thre_pending := False\<rparr> else u))"

section \<open>Transmitter and receiver\<close>

definition start_next_transmit :: "uart \<Rightarrow> uart" where
  "start_next_transmit u =
    (let u1 = (case (tx_shift u, tx_fifo u) of
                 (None, byte # rest) \<Rightarrow>
                   u\<lparr>tx_fifo := rest, tx_shift := Some byte, tx_ticks_remaining := character_ticks u\<rparr>
               | _ \<Rightarrow> u);
         u2 = (if tx_fifo u1 = [] then
                 u1\<lparr>thre_pending := (if \<not> test (lsr u1) LSR_THRE then True else thre_pending u1),
                    lsr := lsr u1 OR LSR_THRE\<rparr>
               else u1\<lparr>lsr := lsr u1 AND NOT LSR_THRE\<rparr>)
     in if tx_shift u2 = None then u2\<lparr>lsr := lsr u2 OR LSR_TEMT\<rparr>
        else u2\<lparr>lsr := lsr u2 AND NOT LSR_TEMT\<rparr>)"

definition transmit :: "uart \<Rightarrow> u8 \<Rightarrow> uart" where
  "transmit u value =
    (if capacity u \<le> length (tx_fifo u) then u
     else let u1 = refresh_irq (u\<lparr>thre_pending := False, lsr := lsr u AND NOT (LSR_THRE OR LSR_TEMT)\<rparr>)
          in start_next_transmit (u1\<lparr>tx_fifo := tx_fifo u1 @ [value]\<rparr>))"

text \<open>The value of \<open>rx_timeout_remaining\<close> that \<open>receive\<close> and \<open>read_receive_byte\<close> arm.\<close>

definition armed_timeout :: "uart \<Rightarrow> nat option" where
  "armed_timeout u =
    (if fifo_enabled u \<and> length (rx_fifo u) < rx_trigger u then Some (4 * character_ticks u) else None)"

definition receive :: "uart \<Rightarrow> u8 \<Rightarrow> uart" where
  "receive u byte =
    (if capacity u \<le> length (rx_fifo u) then u\<lparr>lsr := lsr u OR LSR_OE\<rparr>
     else let u1 = u\<lparr>rx_fifo := rx_fifo u @ [byte], lsr := lsr u OR LSR_DR, rx_timeout_pending := False\<rparr>
          in u1\<lparr>rx_timeout_remaining := armed_timeout u1\<rparr>)"

definition read_receive_byte :: "uart \<Rightarrow> u8 \<times> uart" where
  "read_receive_byte u =
    (let byte = (case rx_fifo u of [] \<Rightarrow> 0 | b # _ \<Rightarrow> b);
         u1 = u\<lparr>rx_fifo := tl (rx_fifo u)\<rparr>;
         u2 = (if rx_fifo u1 = [] then u1\<lparr>lsr := lsr u1 AND NOT LSR_DR, rx_timeout_remaining := None\<rparr>
               else u1\<lparr>rx_timeout_remaining := armed_timeout u1\<rparr>)
     in (byte, u2\<lparr>rx_timeout_pending := False\<rparr>))"

definition write_fcr :: "uart \<Rightarrow> u8 \<Rightarrow> uart" where
  "write_fcr u value =
    (let changed_mode = test (fcr u XOR value) FCR_FIFO_ENABLE;
         u1 = u\<lparr>fcr := value AND 0xc1\<rparr>;
         u2 = (if changed_mode \<or> test value FCR_CLEAR_RX then
                 u1\<lparr>rx_fifo := [], rx_timeout_remaining := None, rx_timeout_pending := False,
                    lsr := lsr u1 AND NOT (LSR_DR OR LSR_OE)\<rparr>
               else u1)
     in if changed_mode \<or> test value FCR_CLEAR_TX then start_next_transmit (u2\<lparr>tx_fifo := []\<rparr>) else u2)"

section \<open>Modem status in loopback\<close>

definition bit_if :: "bool \<Rightarrow> u8 \<Rightarrow> u8" where
  "bit_if b m = (if b then m else 0)"

definition update_loopback_msr :: "uart \<Rightarrow> u8 \<Rightarrow> uart" where
  "update_loopback_msr u old_mcr =
    (let inputs = bit_if (test (mcr u) MCR_RTS) MSR_CTS OR bit_if (test (mcr u) MCR_DTR) MSR_DSR
                  OR bit_if (test (mcr u) MCR_OUT1) MSR_RI OR bit_if (test (mcr u) MCR_OUT2) MSR_DCD;
         kept = inputs OR (msr u AND MSR_DELTAS);
         changed = old_mcr XOR mcr u
     in u\<lparr>msr := kept OR bit_if (test changed MCR_RTS) MSR_DCTS OR bit_if (test changed MCR_DTR) MSR_DDSR
                  OR bit_if (test changed MCR_OUT1) MSR_TERI OR bit_if (test changed MCR_OUT2) MSR_DDCD\<rparr>)"

definition clear_loopback_msr :: "uart \<Rightarrow> uart" where
  "clear_loopback_msr u =
    u\<lparr>msr := (msr u AND MSR_DELTAS) OR bit_if (test (msr u) MSR_CTS) MSR_DCTS
              OR bit_if (test (msr u) MSR_DSR) MSR_DDSR OR bit_if (test (msr u) MSR_RI) MSR_TERI
              OR bit_if (test (msr u) MSR_DCD) MSR_DDCD\<rparr>"

section \<open>Port accesses\<close>

text \<open>\<open>None\<close>: not a port of this UART.\<close>

definition uart_read_port :: "uart \<Rightarrow> u16 \<Rightarrow> u8 option \<times> uart" where
  "uart_read_port u port =
    (case map_offset u port of
       None \<Rightarrow> (None, u)
     | Some offset \<Rightarrow>
         let (value, u') =
           (if offset = 0 then
              if dlab u then (ucast (divisor u AND 0x00ff), u) else read_receive_byte u
            else if offset = 1 then
              if dlab u then (ucast (drop_bit 8 (divisor u)), u) else (ier u, u)
            else if offset = 2 then read_iir u
            else if offset = 3 then (lcr u, u)
            else if offset = 4 then (mcr u, u)
            else if offset = 5 then (lsr u, u\<lparr>lsr := lsr u AND NOT LSR_OE\<rparr>)
            else if offset = 6 then (msr u, u\<lparr>msr := msr u AND NOT MSR_DELTAS\<rparr>)
            else (scr u, u))
         in (Some value, refresh_irq u'))"

definition uart_write_register :: "uart \<Rightarrow> u8 \<Rightarrow> u8 \<Rightarrow> uart" where
  "uart_write_register u offset value =
    (if offset = 0 then
       if dlab u then u\<lparr>divisor := (divisor u AND 0xff00) OR ucast value\<rparr> else transmit u value
     else if offset = 1 then
       if dlab u then u\<lparr>divisor := (divisor u AND 0x00ff) OR push_bit 8 (ucast value)\<rparr>
       else let old = ier u; u1 = u\<lparr>ier := value AND 0x0f\<rparr>
            in if \<not> test old IER_THRE \<and> test (ier u1) IER_THRE \<and> test (lsr u1) LSR_THRE
               then u1\<lparr>thre_pending := True\<rparr> else u1
     else if offset = 2 then write_fcr u value
     else if offset = 3 then u\<lparr>lcr := value\<rparr>
     else if offset = 4 then
       let old = mcr u; u1 = u\<lparr>mcr := value AND 0x1f\<rparr>
       in if test (mcr u1) MCR_LOOP then update_loopback_msr u1 old
          else if test old MCR_LOOP then clear_loopback_msr u1 else u1
     else if offset = 5 \<or> offset = 6 then u
     else u\<lparr>scr := value\<rparr>)"

definition uart_write_port :: "uart \<Rightarrow> u16 \<Rightarrow> u8 \<Rightarrow> bool \<times> uart" where
  "uart_write_port u port value =
    (case map_offset u port of
       None \<Rightarrow> (False, u)
     | Some offset \<Rightarrow> (True, refresh_irq (uart_write_register u offset value)))"

section \<open>Time\<close>

definition uart_ticks_until_event :: "uart \<Rightarrow> nat option" where
  "uart_ticks_until_event u =
    min_opt (if tx_shift u \<noteq> None then Some (tx_ticks_remaining u) else None) (rx_timeout_remaining u)"

text \<open>One iteration of the loop of \<open>advance_elapsed_ticks\<close>, with its \<open>step\<close>.\<close>

definition elapse_timers :: "uart \<Rightarrow> nat \<Rightarrow> uart" where
  "elapse_timers u step =
    u\<lparr>tx_ticks_remaining :=
        (if tx_shift u \<noteq> None then tx_ticks_remaining u - step else tx_ticks_remaining u),
      rx_timeout_remaining := map_option (\<lambda>t. t - step) (rx_timeout_remaining u)\<rparr>"

definition deliver_byte :: "uart \<Rightarrow> uart" where
  "deliver_byte u =
    (case tx_shift u of
       Some byte \<Rightarrow>
         if tx_ticks_remaining u = 0 then
           let u1 = u\<lparr>tx_shift := None\<rparr>
           in start_next_transmit
                (if test (mcr u1) MCR_LOOP then receive u1 byte else u1\<lparr>tx_output := tx_output u1 @ [byte]\<rparr>)
         else u
     | None \<Rightarrow> u)"

definition expire_timeout :: "uart \<Rightarrow> uart" where
  "expire_timeout u =
    (if rx_timeout_remaining u = Some 0
     then u\<lparr>rx_timeout_remaining := None, rx_timeout_pending := (rx_fifo u \<noteq> [])\<rparr> else u)"

definition elapse :: "uart \<Rightarrow> nat \<Rightarrow> uart" where
  "elapse u step = refresh_irq (expire_timeout (deliver_byte (elapse_timers u step)))"

text \<open>The number of timers that stand at zero: a step of zero ticks fires them and they are gone.\<close>

definition due_timers :: "uart \<Rightarrow> nat" where
  "due_timers u =
    (if tx_shift u \<noteq> None \<and> tx_ticks_remaining u = 0 then 1 else 0) +
    (if rx_timeout_remaining u = Some 0 then 1 else 0)"

section \<open>Bits of the registers\<close>

lemma mask_push_bit:
  "LSR_DR = push_bit 0 1" "LSR_OE = push_bit 1 1" "LSR_THRE = push_bit 5 1"
  "LSR_TEMT = push_bit 6 1" "MCR_DTR = push_bit 0 1" "MCR_RTS = push_bit 1 1"
  "MCR_OUT1 = push_bit 2 1" "MCR_OUT2 = push_bit 3 1" "MCR_LOOP = push_bit 4 1"
  "IER_RDA = push_bit 0 1" "IER_THRE = push_bit 1 1" "IER_RLS = push_bit 2 1"
  "IER_MS = push_bit 3 1" "FCR_FIFO_ENABLE = push_bit 0 1" "FCR_CLEAR_RX = push_bit 1 1"
  "FCR_CLEAR_TX = push_bit 2 1" "MSR_DCTS = push_bit 0 1" "MSR_DDSR = push_bit 1 1"
  "MSR_TERI = push_bit 2 1" "MSR_DDCD = push_bit 3 1" "MSR_CTS = push_bit 4 1"
  "MSR_DSR = push_bit 5 1" "MSR_RI = push_bit 6 1" "MSR_DCD = push_bit 7 1"
  by (simp_all add: uart_masks)

lemma test_push_bit: "test w (push_bit n 1) \<longleftrightarrow> bit w n"
  unfolding test_def by (rule and_push_bit_1_nonzero)

lemma bit_push_bit_1: "n < 8 \<Longrightarrow> bit (push_bit k 1 :: u8) n \<longleftrightarrow> n = k"
  by (auto simp: bit_simps)

lemma test_mask [simp]:
  "test w LSR_DR \<longleftrightarrow> bit w 0" "test w LSR_OE \<longleftrightarrow> bit w 1"
  "test w LSR_THRE \<longleftrightarrow> bit w 5" "test w LSR_TEMT \<longleftrightarrow> bit w 6"
  "test w MCR_DTR \<longleftrightarrow> bit w 0" "test w MCR_RTS \<longleftrightarrow> bit w 1"
  "test w MCR_OUT1 \<longleftrightarrow> bit w 2" "test w MCR_OUT2 \<longleftrightarrow> bit w 3"
  "test w MCR_LOOP \<longleftrightarrow> bit w 4" "test w IER_RDA \<longleftrightarrow> bit w 0"
  "test w IER_THRE \<longleftrightarrow> bit w 1" "test w IER_RLS \<longleftrightarrow> bit w 2"
  "test w IER_MS \<longleftrightarrow> bit w 3"
  "test w FCR_FIFO_ENABLE \<longleftrightarrow> bit w 0"
  "test w FCR_CLEAR_RX \<longleftrightarrow> bit w 1"
  "test w FCR_CLEAR_TX \<longleftrightarrow> bit w 2"
  "test w MSR_DCTS \<longleftrightarrow> bit w 0" "test w MSR_DDSR \<longleftrightarrow> bit w 1"
  "test w MSR_TERI \<longleftrightarrow> bit w 2" "test w MSR_DDCD \<longleftrightarrow> bit w 3"
  "test w MSR_CTS \<longleftrightarrow> bit w 4" "test w MSR_DSR \<longleftrightarrow> bit w 5"
  "test w MSR_RI \<longleftrightarrow> bit w 6" "test w MSR_DCD \<longleftrightarrow> bit w 7"
  by (simp_all only: mask_push_bit test_push_bit)

lemma bit_register_mask [simp]:
  "bit LSR_DR n \<longleftrightarrow> n = 0" "bit LSR_OE n \<longleftrightarrow> n = 1"
  "bit LSR_THRE n \<longleftrightarrow> n = 5" "bit LSR_TEMT n \<longleftrightarrow> n = 6"
  "bit MCR_DTR n \<longleftrightarrow> n = 0" "bit MCR_RTS n \<longleftrightarrow> n = 1"
  "bit MCR_OUT1 n \<longleftrightarrow> n = 2" "bit MCR_OUT2 n \<longleftrightarrow> n = 3"
  "bit MCR_LOOP n \<longleftrightarrow> n = 4" "bit IER_RDA n \<longleftrightarrow> n = 0"
  "bit IER_THRE n \<longleftrightarrow> n = 1" "bit IER_RLS n \<longleftrightarrow> n = 2"
  "bit IER_MS n \<longleftrightarrow> n = 3" "bit FCR_FIFO_ENABLE n \<longleftrightarrow> n = 0"
  "bit FCR_CLEAR_RX n \<longleftrightarrow> n = 1" "bit FCR_CLEAR_TX n \<longleftrightarrow> n = 2"
  "bit MSR_DCTS n \<longleftrightarrow> n = 0" "bit MSR_DDSR n \<longleftrightarrow> n = 1"
  "bit MSR_TERI n \<longleftrightarrow> n = 2" "bit MSR_DDCD n \<longleftrightarrow> n = 3"
  "bit MSR_CTS n \<longleftrightarrow> n = 4" "bit MSR_DSR n \<longleftrightarrow> n = 5"
  "bit MSR_RI n \<longleftrightarrow> n = 6" "bit MSR_DCD n \<longleftrightarrow> n = 7"
  by (auto simp: mask_push_bit bit_simps simp del: push_bit_of_1)

section \<open>What each reading depends on\<close>

lemma character_ticks_update [simp]:
  "character_ticks (advance_credit_ticks_update g0 u) = character_ticks u"
  "character_ticks (base_update g1 u) = character_ticks u"
  "character_ticks (ier_update g2 u) = character_ticks u"
  "character_ticks (fcr_update g3 u) = character_ticks u"
  "character_ticks (mcr_update g5 u) = character_ticks u"
  "character_ticks (lsr_update g6 u) = character_ticks u"
  "character_ticks (msr_update g7 u) = character_ticks u"
  "character_ticks (scr_update g8 u) = character_ticks u"
  "character_ticks (thre_pending_update g10 u) = character_ticks u"
  "character_ticks (irq_armed_update g11 u) = character_ticks u"
  "character_ticks (irq_asserted_update g12 u) = character_ticks u"
  "character_ticks (rx_fifo_update g13 u) = character_ticks u"
  "character_ticks (tx_fifo_update g14 u) = character_ticks u"
  "character_ticks (tx_shift_update g15 u) = character_ticks u"
  "character_ticks (tx_ticks_remaining_update g16 u) = character_ticks u"
  "character_ticks (rx_timeout_remaining_update g17 u) = character_ticks u"
  "character_ticks (rx_timeout_pending_update g18 u) = character_ticks u"
  "character_ticks (tx_output_update g19 u) = character_ticks u"
  by (simp_all add: character_ticks_def)

lemma fifo_enabled_update [simp]:
  "fifo_enabled (advance_credit_ticks_update g0 u) = fifo_enabled u"
  "fifo_enabled (base_update g1 u) = fifo_enabled u" "fifo_enabled (ier_update g2 u) = fifo_enabled u"
  "fifo_enabled (lcr_update g4 u) = fifo_enabled u" "fifo_enabled (mcr_update g5 u) = fifo_enabled u"
  "fifo_enabled (lsr_update g6 u) = fifo_enabled u" "fifo_enabled (msr_update g7 u) = fifo_enabled u"
  "fifo_enabled (scr_update g8 u) = fifo_enabled u"
  "fifo_enabled (divisor_update g9 u) = fifo_enabled u"
  "fifo_enabled (thre_pending_update g10 u) = fifo_enabled u"
  "fifo_enabled (irq_armed_update g11 u) = fifo_enabled u"
  "fifo_enabled (irq_asserted_update g12 u) = fifo_enabled u"
  "fifo_enabled (rx_fifo_update g13 u) = fifo_enabled u"
  "fifo_enabled (tx_fifo_update g14 u) = fifo_enabled u"
  "fifo_enabled (tx_shift_update g15 u) = fifo_enabled u"
  "fifo_enabled (tx_ticks_remaining_update g16 u) = fifo_enabled u"
  "fifo_enabled (rx_timeout_remaining_update g17 u) = fifo_enabled u"
  "fifo_enabled (rx_timeout_pending_update g18 u) = fifo_enabled u"
  "fifo_enabled (tx_output_update g19 u) = fifo_enabled u"
  by (simp_all add: fifo_enabled_def)

lemma rx_trigger_update [simp]:
  "rx_trigger (advance_credit_ticks_update g0 u) = rx_trigger u"
  "rx_trigger (base_update g1 u) = rx_trigger u" "rx_trigger (ier_update g2 u) = rx_trigger u"
  "rx_trigger (lcr_update g4 u) = rx_trigger u" "rx_trigger (mcr_update g5 u) = rx_trigger u"
  "rx_trigger (lsr_update g6 u) = rx_trigger u" "rx_trigger (msr_update g7 u) = rx_trigger u"
  "rx_trigger (scr_update g8 u) = rx_trigger u" "rx_trigger (divisor_update g9 u) = rx_trigger u"
  "rx_trigger (thre_pending_update g10 u) = rx_trigger u"
  "rx_trigger (irq_armed_update g11 u) = rx_trigger u"
  "rx_trigger (irq_asserted_update g12 u) = rx_trigger u"
  "rx_trigger (rx_fifo_update g13 u) = rx_trigger u" "rx_trigger (tx_fifo_update g14 u) = rx_trigger u"
  "rx_trigger (tx_shift_update g15 u) = rx_trigger u"
  "rx_trigger (tx_ticks_remaining_update g16 u) = rx_trigger u"
  "rx_trigger (rx_timeout_remaining_update g17 u) = rx_trigger u"
  "rx_trigger (rx_timeout_pending_update g18 u) = rx_trigger u"
  "rx_trigger (tx_output_update g19 u) = rx_trigger u"
  by (simp_all add: rx_trigger_def)

lemma capacity_update [simp]:
  "capacity (advance_credit_ticks_update g0 u) = capacity u"
  "capacity (base_update g1 u) = capacity u" "capacity (ier_update g2 u) = capacity u"
  "capacity (lcr_update g4 u) = capacity u" "capacity (mcr_update g5 u) = capacity u"
  "capacity (lsr_update g6 u) = capacity u" "capacity (msr_update g7 u) = capacity u"
  "capacity (scr_update g8 u) = capacity u" "capacity (divisor_update g9 u) = capacity u"
  "capacity (thre_pending_update g10 u) = capacity u" "capacity (irq_armed_update g11 u) = capacity u"
  "capacity (irq_asserted_update g12 u) = capacity u" "capacity (rx_fifo_update g13 u) = capacity u"
  "capacity (tx_fifo_update g14 u) = capacity u" "capacity (tx_shift_update g15 u) = capacity u"
  "capacity (tx_ticks_remaining_update g16 u) = capacity u"
  "capacity (rx_timeout_remaining_update g17 u) = capacity u"
  "capacity (rx_timeout_pending_update g18 u) = capacity u"
  "capacity (tx_output_update g19 u) = capacity u"
  by (simp_all add: capacity_def)

lemma pending_code_update [simp]:
  "pending_code (advance_credit_ticks_update g0 u) = pending_code u"
  "pending_code (base_update g1 u) = pending_code u" "pending_code (lcr_update g4 u) = pending_code u"
  "pending_code (mcr_update g5 u) = pending_code u" "pending_code (scr_update g8 u) = pending_code u"
  "pending_code (divisor_update g9 u) = pending_code u"
  "pending_code (irq_armed_update g11 u) = pending_code u"
  "pending_code (irq_asserted_update g12 u) = pending_code u"
  "pending_code (tx_fifo_update g14 u) = pending_code u"
  "pending_code (tx_shift_update g15 u) = pending_code u"
  "pending_code (tx_ticks_remaining_update g16 u) = pending_code u"
  "pending_code (rx_timeout_remaining_update g17 u) = pending_code u"
  "pending_code (tx_output_update g19 u) = pending_code u"
  by (simp_all add: pending_code_def)

lemma refresh_irq_readings [simp]:
  "character_ticks (refresh_irq u) = character_ticks u" "fifo_enabled (refresh_irq u) = fifo_enabled u"
  "rx_trigger (refresh_irq u) = rx_trigger u" "capacity (refresh_irq u) = capacity u"
  "pending_code (refresh_irq u) = pending_code u"
  by (simp_all add: refresh_irq_def Let_def)

lemma rx_trigger_bounds: "0 < rx_trigger u" "rx_trigger u \<le> 14" "rx_trigger u \<le> capacity u"
  by (simp_all add: rx_trigger_def capacity_def FIFO_SIZE_def Let_def)

lemma trigger_without_fifo: "\<not> fifo_enabled u \<Longrightarrow> rx_trigger u = 1" "\<not> fifo_enabled u \<Longrightarrow> capacity u = 1"
  by (simp_all add: rx_trigger_def capacity_def)

lemma capacity_bounds: "0 < capacity u" "capacity u \<le> 16"
  by (simp_all add: capacity_def FIFO_SIZE_def)

text \<open>The slowest character: divisor FFFFh and twelve bit times.\<close>

definition CHARACTER_TICKS_MAX :: nat where
  "CHARACTER_TICKS_MAX = 40000000000"

lemma character_ticks_le: "character_ticks u \<le> CHARACTER_TICKS_MAX"
proof -
  have d: "max (unat (divisor u)) 1 \<le> 65535"
    using unat_less_u16 [of "divisor u"] by simp
  have b: "unat (lcr u AND 0x03) \<le> 3"
    using word_and_le1 [of "lcr u" 3] by (simp add: word_le_nat_alt)
  have "div_ceil (MASTER_CLOCK_HZ * max (unat (divisor u)) 1 * h) 230400 \<le> CHARACTER_TICKS_MAX"
    if h: "h \<le> 24" for h
  proof -
    have "MASTER_CLOCK_HZ * max (unat (divisor u)) 1 * h \<le> MASTER_CLOCK_HZ * 65535 * 24"
      using d h by (intro mult_le_mono) simp_all
    also have "\<dots> \<le> CHARACTER_TICKS_MAX * 230400"
      by (simp add: MASTER_CLOCK_HZ_def CHARACTER_TICKS_MAX_def)
    finally show ?thesis by (simp add: div_ceil_le_iff)
  qed
  then show ?thesis
    using b unfolding character_ticks_def Let_def by (intro min.coboundedI1) simp
qed

lemma character_ticks_pos [simp]: "0 < character_ticks u"
proof -
  have "0 < MASTER_CLOCK_HZ * max (unat (divisor u)) 1 * (2 + n)" for n
    by (simp add: MASTER_CLOCK_HZ_def less_max_iff_disj)
  then have "0 < div_ceil (MASTER_CLOCK_HZ * max (unat (divisor u)) 1 * (2 + n)) 230400" for n
    by (rule div_ceil_pos) simp
  then show ?thesis
    by (simp add: character_ticks_def Let_def u64_max_def add.assoc)
qed

lemma refresh_irq_sel [simp]:
  "advance_credit_ticks (refresh_irq u) = advance_credit_ticks u" "base (refresh_irq u) = base u"
  "ier (refresh_irq u) = ier u" "fcr (refresh_irq u) = fcr u" "lcr (refresh_irq u) = lcr u"
  "mcr (refresh_irq u) = mcr u" "lsr (refresh_irq u) = lsr u" "msr (refresh_irq u) = msr u"
  "scr (refresh_irq u) = scr u" "divisor (refresh_irq u) = divisor u"
  "thre_pending (refresh_irq u) = thre_pending u" "rx_fifo (refresh_irq u) = rx_fifo u"
  "tx_fifo (refresh_irq u) = tx_fifo u" "tx_shift (refresh_irq u) = tx_shift u"
  "tx_ticks_remaining (refresh_irq u) = tx_ticks_remaining u"
  "rx_timeout_remaining (refresh_irq u) = rx_timeout_remaining u"
  "rx_timeout_pending (refresh_irq u) = rx_timeout_pending u" "tx_output (refresh_irq u) = tx_output u"
  by (simp_all add: refresh_irq_def Let_def)

lemma expire_timeout_fires: "rx_timeout_remaining (expire_timeout u) \<noteq> Some 0"
  by (simp add: expire_timeout_def)

lemma expire_timeout_tx [simp]:
  "tx_shift (expire_timeout u) = tx_shift u"
  "tx_ticks_remaining (expire_timeout u) = tx_ticks_remaining u"
  by (simp_all add: expire_timeout_def)

lemma start_next_transmit_runs:
  "tx_shift u = None \<Longrightarrow> tx_shift (start_next_transmit u) \<noteq> None \<Longrightarrow>
    0 < tx_ticks_remaining (start_next_transmit u)"
  by (auto simp: start_next_transmit_def Let_def split: list.splits)

lemma receive_shift [simp]: "tx_shift (receive u b) = tx_shift u"
  by (simp add: receive_def Let_def)

lemma deliver_byte_fires:
  "tx_shift (deliver_byte u) \<noteq> None \<Longrightarrow> 0 < tx_ticks_remaining (deliver_byte u)"
  by (auto simp: deliver_byte_def Let_def split: option.splits if_splits
      intro!: start_next_transmit_runs)

lemma due_timers_elapse: "due_timers (elapse u step) = 0"
  using deliver_byte_fires [of "elapse_timers u step"] expire_timeout_fires [of "deliver_byte (elapse_timers u step)"]
  by (cases "tx_shift (deliver_byte (elapse_timers u step))") (auto simp: due_timers_def elapse_def)

lemma event_now_due: "uart_ticks_until_event u = Some 0 \<Longrightarrow> 0 < due_timers u"
  by (cases "rx_timeout_remaining u")
    (auto simp: uart_ticks_until_event_def due_timers_def min_def split: if_splits)

function uart_advance_elapsed_ticks :: "uart \<Rightarrow> nat \<Rightarrow> uart" where
  "uart_advance_elapsed_ticks u ticks =
    (if ticks = 0 then u
     else case uart_ticks_until_event u of
            None \<Rightarrow> u
          | Some next \<Rightarrow>
              let step = min ticks next
              in uart_advance_elapsed_ticks (elapse u step) (ticks - step))"
  by pat_completeness auto
termination
proof (relation "measures [\<lambda>(u, ticks). ticks, \<lambda>(u, ticks). due_timers u]")
  fix u :: uart and ticks due step :: nat
  assume "ticks \<noteq> 0" and n: "uart_ticks_until_event u = Some due" and s: "step = min ticks due"
  show "((elapse u step, ticks - step), u, ticks)
      \<in> measures [\<lambda>(u, ticks). ticks, \<lambda>(u, ticks). due_timers u]"
  proof (cases "due = 0")
    case True
    with n have "0 < due_timers u" by (simp add: event_now_due)
    with True s show ?thesis by (simp add: due_timers_elapse)
  next
    case False
    with s \<open>ticks \<noteq> 0\<close> show ?thesis by simp
  qed
qed simp

declare uart_advance_elapsed_ticks.simps [simp del]

definition uart_advance_master_ticks :: "uart \<Rightarrow> nat \<Rightarrow> uart" where
  "uart_advance_master_ticks u ticks =
    (let credit = min ticks (advance_credit_ticks u)
     in uart_advance_elapsed_ticks (u\<lparr>advance_credit_ticks := advance_credit_ticks u - credit\<rparr>) (ticks - credit))"

text \<open>\<open>None\<close>: the \<open>expect\<close> on an access that precedes the last one fails.\<close>

definition uart_catch_up :: "uart \<Rightarrow> nat \<Rightarrow> uart option" where
  "uart_catch_up u prefix_ticks =
    (case checked_sub64 prefix_ticks (advance_credit_ticks u) of
       None \<Rightarrow> None
     | Some elapsed \<Rightarrow> Some ((uart_advance_elapsed_ticks u elapsed)\<lparr>advance_credit_ticks := prefix_ticks\<rparr>))"

definition uart_read_port_at :: "uart \<Rightarrow> u16 \<Rightarrow> nat \<Rightarrow> (u8 option \<times> uart) option" where
  "uart_read_port_at u port prefix_ticks =
    (if map_offset u port = None then Some (None, u)
     else case uart_catch_up u prefix_ticks of None \<Rightarrow> None | Some u' \<Rightarrow> Some (uart_read_port u' port))"

definition uart_write_port_at :: "uart \<Rightarrow> u16 \<Rightarrow> u8 \<Rightarrow> nat \<Rightarrow> (bool \<times> uart) option" where
  "uart_write_port_at u port value prefix_ticks =
    (if map_offset u port = None then Some (False, u)
     else case uart_catch_up u prefix_ticks of None \<Rightarrow> None | Some u' \<Rightarrow> Some (uart_write_port u' port value))"

definition uart_ticks_until_idle :: "uart \<Rightarrow> nat" where
  "uart_ticks_until_idle u =
    min (tx_ticks_remaining u + length (tx_fifo u) * character_ticks u) u64_max"

text \<open>\<open>at_delivery\<close>: the tick of the \<open>number\<close>-th byte that loopback will deliver.\<close>

definition at_delivery :: "uart \<Rightarrow> nat \<Rightarrow> nat" where
  "at_delivery u number =
    saturating_add64 (tx_ticks_remaining u) (saturating_mul64 (number - 1) (character_ticks u))"

definition receiver_irq_deadline :: "uart \<Rightarrow> nat option" where
  "receiver_irq_deadline u =
    (if \<not> test (ier u) (IER_RDA OR IER_RLS) then None
     else let timeout = (if test (ier u) IER_RDA then rx_timeout_remaining u else None)
     in if \<not> test (mcr u) MCR_LOOP \<or> tx_shift u = None then timeout
        else let first = tx_ticks_remaining u;
                 deliveries = length (tx_fifo u) + 1;
                 deadline = (case timeout of Some t \<Rightarrow> if t < first then Some t else None | None \<Rightarrow> None);
                 deadline1 =
                   (if test (ier u) IER_RDA then
                      let needed = rx_trigger u - length (rx_fifo u);
                          receive = (if needed \<noteq> 0 \<and> needed \<le> deliveries then at_delivery u needed
                                     else saturating_add64 (at_delivery u deliveries) (4 * character_ticks u))
                      in min_opt deadline (Some receive)
                    else deadline)
             in if test (ier u) IER_RLS then
                  let overrun = capacity u - length (rx_fifo u) + 1
                  in if overrun \<le> deliveries then min_opt deadline1 (Some (at_delivery u overrun)) else deadline1
                else deadline1)"

definition transmitter_irq_deadline :: "uart \<Rightarrow> nat option" where
  "transmitter_irq_deadline u =
    (if \<not> test (ier u) IER_THRE \<or> tx_shift u = None \<or> tx_fifo u = [] then None
     else Some (saturating_add64 (tx_ticks_remaining u)
                 (saturating_mul64 (length (tx_fifo u) - 1) (character_ticks u))))"

definition uart_ticks_until_irq :: "uart \<Rightarrow> nat option" where
  "uart_ticks_until_irq u =
    (if irq_asserted u \<or> \<not> test (mcr u) MCR_OUT2 then None
     else min_opt (receiver_irq_deadline u) (transmitter_irq_deadline u))"

end
