(* ===== verification/Uart_Facts.thy ===== *)
theory Uart_Facts
  imports Uart
begin

text \<open>
  Facts about the serial ports: the well-formedness that every operation keeps, the independence
  of the advance from how a span is split, and the exactness of the interrupt deadline.
\<close>

section \<open>Well-formedness\<close>

definition rx_queue_ok :: "uart \<Rightarrow> bool" where
  "rx_queue_ok u \<longleftrightarrow>
    length (rx_fifo u) \<le> capacity u \<and>
    (case rx_timeout_remaining u of None \<Rightarrow> True | Some t \<Rightarrow> t \<le> 4 * CHARACTER_TICKS_MAX) \<and>
    (rx_timeout_remaining u \<noteq> None \<longrightarrow> rx_fifo u \<noteq> []) \<and>
    (bit (lsr u) 0 \<longleftrightarrow> rx_fifo u \<noteq> [])"

definition rx_ok :: "uart \<Rightarrow> bool" where
  "rx_ok u \<longleftrightarrow> rx_queue_ok u \<and> rx_timeout_remaining u \<noteq> Some 0"

definition tx_ok :: "uart \<Rightarrow> bool" where
  "tx_ok u \<longleftrightarrow>
    length (tx_fifo u) \<le> capacity u \<and>
    (tx_shift u = None \<longrightarrow> tx_fifo u = []) \<and>
    (tx_shift u \<noteq> None \<longrightarrow> 0 < tx_ticks_remaining u) \<and>
    tx_ticks_remaining u \<le> CHARACTER_TICKS_MAX \<and>
    (bit (lsr u) 5 \<longleftrightarrow> tx_fifo u = []) \<and>
    (bit (lsr u) 6 \<longleftrightarrow> tx_shift u = None)"

definition irq_ok :: "uart \<Rightarrow> bool" where
  "irq_ok u \<longleftrightarrow> (irq_asserted u \<longleftrightarrow> bit (mcr u) 3 \<and> pending_code u \<noteq> IIR_NONE)"

definition uart_ok :: "uart \<Rightarrow> bool" where
  "uart_ok u \<longleftrightarrow> rx_ok u \<and> tx_ok u \<and> irq_ok u"

lemma uart_default_ok: "uart_ok uart_default" "uart_ok com2"
  by (simp_all add: uart_ok_def rx_ok_def rx_queue_ok_def tx_ok_def irq_ok_def uart_default_def com2_def capacity_def
      bit_simps pending_code_def test_def)

lemma refresh_irq_ok [simp]:
  "rx_ok (refresh_irq u) = rx_ok u" "tx_ok (refresh_irq u) = tx_ok u" "irq_ok (refresh_irq u)"
  by (simp_all add: rx_ok_def rx_queue_ok_def tx_ok_def) (simp add: irq_ok_def refresh_irq_def Let_def)

lemma refresh_irq_uart_ok [simp]: "uart_ok (refresh_irq u) \<longleftrightarrow> rx_ok u \<and> tx_ok u"
  by (simp add: uart_ok_def)

lemma refresh_irq_idem: "irq_ok u \<Longrightarrow> refresh_irq u = u"
  by (rule uart.equality) (auto simp: refresh_irq_def irq_ok_def Let_def)

lemma start_next_transmit_rx [simp]: "rx_ok (start_next_transmit u) = rx_ok u"
  by (auto simp: rx_ok_def rx_queue_ok_def start_next_transmit_def Let_def bit_simps split: list.splits option.splits)

lemma start_next_transmit_tx:
  "length (tx_fifo u) \<le> capacity u \<Longrightarrow> tx_ticks_remaining u \<le> CHARACTER_TICKS_MAX \<Longrightarrow>
    (tx_shift u \<noteq> None \<longrightarrow> 0 < tx_ticks_remaining u) \<Longrightarrow> tx_ok (start_next_transmit u)"
  using character_ticks_le [of u]
  by (auto simp: tx_ok_def start_next_transmit_def Let_def bit_simps split: list.splits option.splits)

lemma transmit_ok: "rx_ok u \<Longrightarrow> tx_ok u \<Longrightarrow> rx_ok (transmit u v) \<and> tx_ok (transmit u v)"
  by (auto simp: transmit_def Let_def intro!: start_next_transmit_tx)
    (auto simp: rx_ok_def rx_queue_ok_def tx_ok_def bit_simps split: option.splits)

lemma start_next_transmit_rx_queue [simp]: "rx_queue_ok (start_next_transmit u) = rx_queue_ok u"
  by (auto simp: rx_queue_ok_def start_next_transmit_def Let_def bit_simps split: list.splits option.splits)

lemma armed_timeout_ok: "armed_timeout u = Some t \<Longrightarrow> 0 < t \<and> t \<le> 4 * CHARACTER_TICKS_MAX"
  using character_ticks_le [of u] by (auto simp: armed_timeout_def split: if_splits)

lemma receive_rx: "rx_ok u \<Longrightarrow> rx_ok (receive u b)"
  by (auto simp: rx_ok_def rx_queue_ok_def receive_def Let_def bit_simps split: option.splits dest!: armed_timeout_ok)

lemma receive_rx_queue: "rx_queue_ok u \<Longrightarrow> rx_queue_ok (receive u b)"
  by (auto simp: rx_queue_ok_def receive_def Let_def bit_simps split: option.splits dest!: armed_timeout_ok)

lemma receive_tx [simp]: "tx_ok (receive u b) = tx_ok u"
  by (auto simp: tx_ok_def receive_def Let_def bit_simps)

lemma read_receive_byte_ok:
  "rx_ok u \<Longrightarrow> rx_ok (snd (read_receive_byte u))" "tx_ok (snd (read_receive_byte u)) = tx_ok u"
  by (auto simp: rx_ok_def rx_queue_ok_def read_receive_byte_def Let_def bit_simps split: option.splits dest!: armed_timeout_ok)
    (auto simp: tx_ok_def read_receive_byte_def Let_def bit_simps)

lemma write_fcr_ok: "rx_ok u \<Longrightarrow> tx_ok u \<Longrightarrow> rx_ok (write_fcr u v) \<and> tx_ok (write_fcr u v)"
proof -
  assume rx: "rx_ok u" and tx: "tx_ok u"
  define u1 where "u1 = u\<lparr>fcr := v AND 0xc1\<rparr>"
  define u2 where "u2 = (if bit (fcr u XOR v) 0 \<or> bit v 1 then
      u1\<lparr>rx_fifo := [], rx_timeout_remaining := None, rx_timeout_pending := False,
         lsr := lsr u1 AND NOT (LSR_DR OR LSR_OE)\<rparr> else u1)"
  have w: "write_fcr u v = (if bit (fcr u XOR v) 0 \<or> bit v 2 then start_next_transmit (u2\<lparr>tx_fifo := []\<rparr>) else u2)"
    by (simp add: write_fcr_def u1_def u2_def Let_def)
  have cap: "capacity u2 = capacity u" if "\<not> bit (fcr u XOR v) 0"
    using that by (auto simp: u2_def u1_def capacity_def fifo_enabled_def bit_simps bit_numeral_rec)
  have rx2: "rx_ok u2"
  proof (cases "bit (fcr u XOR v) 0 \<or> bit v 1")
    case True
    then show ?thesis by (simp add: u2_def u1_def rx_ok_def rx_queue_ok_def bit_simps)
  next
    case False
    then have "rx_ok u2 = rx_ok u"
      using cap by (simp add: rx_ok_def rx_queue_ok_def) (simp add: u2_def u1_def)
    with rx show ?thesis by simp
  qed
  have sel: "tx_fifo u2 = tx_fifo u" "tx_shift u2 = tx_shift u" "tx_ticks_remaining u2 = tx_ticks_remaining u"
    "bit (lsr u2) 5 = bit (lsr u) 5" "bit (lsr u2) 6 = bit (lsr u) 6"
    by (simp_all add: u2_def u1_def bit_simps)
  have "tx_ok u2" if "\<not> bit (fcr u XOR v) 0"
    using tx cap [OF that] by (simp add: tx_ok_def sel)
  moreover have "rx_ok (u2\<lparr>tx_fifo := []\<rparr>)"
    using rx2 by (simp add: rx_ok_def rx_queue_ok_def)
  moreover have "tx_ok (start_next_transmit (u2\<lparr>tx_fifo := []\<rparr>))"
    using tx by (intro start_next_transmit_tx) (simp_all add: tx_ok_def sel)
  ultimately show ?thesis
    using rx2 by (simp add: w)
qed

lemma uart_ok_update_plain:
  "rx_ok (u\<lparr>ier := a\<rparr>) = rx_ok u" "tx_ok (u\<lparr>ier := a\<rparr>) = tx_ok u"
  "rx_ok (u\<lparr>lcr := b\<rparr>) = rx_ok u" "tx_ok (u\<lparr>lcr := b\<rparr>) = tx_ok u"
  "rx_ok (u\<lparr>mcr := c\<rparr>) = rx_ok u" "tx_ok (u\<lparr>mcr := c\<rparr>) = tx_ok u"
  "rx_ok (u\<lparr>msr := d\<rparr>) = rx_ok u" "tx_ok (u\<lparr>msr := d\<rparr>) = tx_ok u"
  "rx_ok (u\<lparr>scr := e\<rparr>) = rx_ok u" "tx_ok (u\<lparr>scr := e\<rparr>) = tx_ok u"
  "rx_ok (u\<lparr>divisor := f\<rparr>) = rx_ok u" "tx_ok (u\<lparr>divisor := f\<rparr>) = tx_ok u"
  "rx_ok (u\<lparr>thre_pending := g\<rparr>) = rx_ok u" "tx_ok (u\<lparr>thre_pending := g\<rparr>) = tx_ok u"
  "rx_ok (u\<lparr>lsr := lsr u AND NOT LSR_OE\<rparr>) = rx_ok u" "tx_ok (u\<lparr>lsr := lsr u AND NOT LSR_OE\<rparr>) = tx_ok u"
  "rx_ok (u\<lparr>irq_armed := h\<rparr>) = rx_ok u" "tx_ok (u\<lparr>irq_armed := h\<rparr>) = tx_ok u"
  "rx_ok (u\<lparr>advance_credit_ticks := k\<rparr>) = rx_ok u" "tx_ok (u\<lparr>advance_credit_ticks := k\<rparr>) = tx_ok u"
  "irq_ok (u\<lparr>irq_armed := h\<rparr>) = irq_ok u" "irq_ok (u\<lparr>advance_credit_ticks := k\<rparr>) = irq_ok u"
  by (simp_all add: rx_ok_def rx_queue_ok_def tx_ok_def irq_ok_def bit_simps)

lemma uart_write_register_ok:
  "rx_ok u \<Longrightarrow> tx_ok u \<Longrightarrow> rx_ok (uart_write_register u r v) \<and> tx_ok (uart_write_register u r v)"
  by (simp add: uart_write_register_def Let_def transmit_ok write_fcr_ok uart_ok_update_plain
      update_loopback_msr_def clear_loopback_msr_def)

lemma uart_write_port_ok: "uart_ok u \<Longrightarrow> uart_ok (snd (uart_write_port u port v))"
  by (auto simp: uart_write_port_def uart_ok_def uart_write_register_ok split: option.splits)

lemma uart_read_port_ok: "uart_ok u \<Longrightarrow> uart_ok (snd (uart_read_port u port))"
  by (auto simp: uart_read_port_def uart_ok_def Let_def split_beta read_receive_byte_ok read_iir_def
      uart_ok_update_plain split: option.splits)

lemma take_irq_ok: "uart_ok u \<Longrightarrow> uart_ok (snd (take_irq u))"
  by (simp add: take_irq_def uart_ok_def uart_ok_update_plain)

section \<open>One iteration of the advance loop\<close>

lemma event_le_timers:
  assumes "uart_ticks_until_event u = Some k"
  shows "tx_shift u \<noteq> None \<Longrightarrow> k \<le> tx_ticks_remaining u" "rx_timeout_remaining u = Some t \<Longrightarrow> k \<le> t"
  using assms by (auto simp: uart_ticks_until_event_def dest: min_opt_le)

lemma event_pos: "uart_ok u \<Longrightarrow> uart_ticks_until_event u = Some k \<Longrightarrow> 0 < k"
  by (cases "rx_timeout_remaining u")
    (auto simp: uart_ticks_until_event_def uart_ok_def rx_ok_def rx_queue_ok_def tx_ok_def split: if_splits)

text \<open>Between events a step only moves the two timers.\<close>

lemma elapse_before_event:
  assumes ok: "uart_ok u" and k: "uart_ticks_until_event u = Some k" and s: "s < k"
  shows "elapse u s = elapse_timers u s"
proof -
  let ?v = "elapse_timers u s"
  have t: "0 < tx_ticks_remaining ?v" if "tx_shift u \<noteq> None"
    using event_le_timers (1) [OF k that] s that by (simp add: elapse_timers_def)
  then have d: "deliver_byte ?v = ?v"
    by (cases "tx_shift u") (auto simp: deliver_byte_def elapse_timers_def)
  have "rx_timeout_remaining ?v \<noteq> Some 0"
    using event_le_timers (2) [OF k] s by (force simp: elapse_timers_def)
  then have x: "expire_timeout ?v = ?v"
    by (simp add: expire_timeout_def)
  have "irq_ok ?v"
    using ok by (simp add: irq_ok_def uart_ok_def elapse_timers_def)
  then show ?thesis
    by (simp add: elapse_def d x refresh_irq_idem)
qed

lemma elapse_timers_add: "elapse_timers (elapse_timers u a) b = elapse_timers u (a + b)"
  by (cases "rx_timeout_remaining u") (auto simp: elapse_timers_def)

lemma elapse_timers_event:
  assumes "uart_ticks_until_event u = Some k"
  shows "uart_ticks_until_event (elapse_timers u s) = Some (k - s)"
  using assms
  by (cases "rx_timeout_remaining u") (auto simp: uart_ticks_until_event_def elapse_timers_def min_def split: if_splits)

lemma elapse_split:
  assumes "uart_ok u" and "uart_ticks_until_event u = Some k" and "a < k"
  shows "elapse (elapse u a) b = elapse u (a + b)"
  using elapse_before_event [OF assms] by (simp add: elapse_def elapse_timers_add)

lemma elapse_timers_rx_queue: "rx_queue_ok u \<Longrightarrow> rx_queue_ok (elapse_timers u s)"
  by (auto simp: rx_queue_ok_def elapse_timers_def split: option.splits)

lemma deliver_byte_rx_queue: "rx_queue_ok u \<Longrightarrow> rx_queue_ok (deliver_byte u)"
proof -
  assume ok: "rx_queue_ok u"
  have "rx_queue_ok (u\<lparr>tx_shift := None\<rparr>)" "rx_queue_ok (u\<lparr>tx_shift := None, tx_output := out\<rparr>)" for out
    using ok by (simp_all add: rx_queue_ok_def)
  with ok show ?thesis
    by (auto simp: deliver_byte_def Let_def intro!: receive_rx_queue split: option.splits)
qed

lemma expire_timeout_rx: "rx_queue_ok u \<Longrightarrow> rx_ok (expire_timeout u)"
  by (auto simp: rx_ok_def rx_queue_ok_def expire_timeout_def split: option.splits)

lemma expire_timeout_tx_ok [simp]: "tx_ok (expire_timeout u) = tx_ok u"
  by (simp add: tx_ok_def expire_timeout_def)

lemma receive_sel [simp]:
  "tx_fifo (receive u b) = tx_fifo u" "tx_ticks_remaining (receive u b) = tx_ticks_remaining u"
  "capacity (receive u b) = capacity u" "character_ticks (receive u b) = character_ticks u"
  "fifo_enabled (receive u b) = fifo_enabled u" "rx_trigger (receive u b) = rx_trigger u"
  "ier (receive u b) = ier u" "mcr (receive u b) = mcr u" "fcr (receive u b) = fcr u"
  "msr (receive u b) = msr u" "thre_pending (receive u b) = thre_pending u"
  "irq_asserted (receive u b) = irq_asserted u" "irq_armed (receive u b) = irq_armed u"
  "tx_output (receive u b) = tx_output u" "lcr (receive u b) = lcr u" "divisor (receive u b) = divisor u"
  by (simp_all add: receive_def Let_def)

lemma deliver_byte_tx:
  assumes tx: "tx_ok u"
  shows "tx_ok (deliver_byte (elapse_timers u s))"
proof (cases "tx_shift u")
  case None
  with tx show ?thesis by (simp add: deliver_byte_def elapse_timers_def tx_ok_def)
next
  case (Some b)
  with tx show ?thesis
    by (auto simp: deliver_byte_def elapse_timers_def Let_def tx_ok_def [of u] intro!: start_next_transmit_tx)
      (simp_all add: tx_ok_def)
qed

lemma elapse_ok:
  assumes "uart_ok u"
  shows "uart_ok (elapse u s)"
proof -
  have "rx_queue_ok (deliver_byte (elapse_timers u s))"
    using assms by (intro deliver_byte_rx_queue elapse_timers_rx_queue) (simp add: uart_ok_def rx_ok_def)
  then have "rx_ok (expire_timeout (deliver_byte (elapse_timers u s)))"
    by (rule expire_timeout_rx)
  moreover have "tx_ok (deliver_byte (elapse_timers u s))"
    using assms by (intro deliver_byte_tx) (simp add: uart_ok_def)
  ultimately show ?thesis by (simp add: elapse_def)
qed

section \<open>The advance loop\<close>

lemmas advance_simps = uart_advance_elapsed_ticks.simps

lemma advance_0 [simp]: "uart_advance_elapsed_ticks u 0 = u"
  by (subst advance_simps) simp

lemma advance_idle: "uart_ticks_until_event u = None \<Longrightarrow> uart_advance_elapsed_ticks u n = u"
  by (subst advance_simps) simp

lemma advance_event:
  "uart_ticks_until_event u = Some k \<Longrightarrow> 0 < n \<Longrightarrow> k \<le> n \<Longrightarrow>
    uart_advance_elapsed_ticks u n = uart_advance_elapsed_ticks (elapse u k) (n - k)"
  by (subst advance_simps) (simp add: Let_def min_def)

lemma advance_before_event:
  "uart_ticks_until_event u = Some k \<Longrightarrow> 0 < n \<Longrightarrow> n < k \<Longrightarrow> uart_advance_elapsed_ticks u n = elapse u n"
  by (subst advance_simps) (simp add: Let_def min_def)

lemma advance_ok: "uart_ok u \<Longrightarrow> uart_ok (uart_advance_elapsed_ticks u n)"
proof (induction u n rule: uart_advance_elapsed_ticks.induct)
  case (1 u n)
  then show ?case
    by (subst advance_simps) (auto simp: Let_def elapse_ok split: option.splits)
qed

lemma advance_add:
  "uart_ok u \<Longrightarrow> uart_advance_elapsed_ticks u (m + n) =
    uart_advance_elapsed_ticks (uart_advance_elapsed_ticks u m) n"
proof (induction u m rule: uart_advance_elapsed_ticks.induct)
  case (1 u m)
  note ok = 1 (2)
  consider "m = 0 \<or> n = 0" | "uart_ticks_until_event u = None" "0 < m" "0 < n"
    | k where "uart_ticks_until_event u = Some k" "0 < m" "0 < n"
    by (cases "uart_ticks_until_event u") auto
  then show ?case
  proof cases
    case (3 k)
    then have k: "0 < k" using event_pos ok by blast
    show ?thesis
    proof (cases "k \<le> m")
      case True
      have "uart_advance_elapsed_ticks (elapse u k) (m - k + n) =
          uart_advance_elapsed_ticks (uart_advance_elapsed_ticks (elapse u k) (m - k)) n"
        using 1 (1) [of k k] 3 True elapse_ok [OF ok] by simp
      then show ?thesis using 3 True by (simp add: advance_event)
    next
      case False
      then have m: "m < k" by simp
      let ?v = "elapse u m"
      have v: "uart_ticks_until_event ?v = Some (k - m)"
        using elapse_before_event [OF ok 3 (1) m] elapse_timers_event [OF 3 (1)] by simp
      have s: "elapse ?v b = elapse u (m + b)" for b
        by (rule elapse_split [OF ok 3 (1) m])
      have "uart_advance_elapsed_ticks u (m + n) = uart_advance_elapsed_ticks ?v n"
      proof (cases "k \<le> m + n")
        case True
        then have "uart_advance_elapsed_ticks ?v n = uart_advance_elapsed_ticks (elapse ?v (k - m)) (n - (k - m))"
          using v 3 by (intro advance_event) auto
        also have "elapse ?v (k - m) = elapse u k" using s [of "k - m"] m by simp
        also have "n - (k - m) = m + n - k" using m True by simp
        finally show ?thesis using 3 True by (simp add: advance_event)
      next
        case False
        then show ?thesis using 3 v s [of n] by (simp add: advance_before_event)
      qed
      then show ?thesis using 3 m by (simp add: advance_before_event)
    qed
  qed (auto simp: advance_idle)
qed

interpretation uart_time: tick_device uart_ok "\<lambda>n u. uart_advance_elapsed_ticks u n"
  by unfold_locales (simp_all add: advance_ok advance_add)

section \<open>Accesses inside a batch\<close>

definition uart_io :: "io_access \<Rightarrow> uart \<Rightarrow> u8 option \<times> uart" where
  "uart_io a u = (case a of In port \<Rightarrow> uart_read_port u port
                  | Out port v \<Rightarrow> (None, snd (uart_write_port u port v)))"

definition uart_decodes :: "uart \<Rightarrow> io_access \<Rightarrow> bool" where
  "uart_decodes u a = (case a of In port \<Rightarrow> map_offset u port \<noteq> None | Out port v \<Rightarrow> map_offset u port \<noteq> None)"

definition uart_io_at :: "uart \<Rightarrow> nat \<Rightarrow> io_access \<Rightarrow> (u8 option \<times> uart) option" where
  "uart_io_at u prefix a =
    (case a of In port \<Rightarrow> uart_read_port_at u port prefix
     | Out port v \<Rightarrow> map_option (\<lambda>(_, u'). (None, u')) (uart_write_port_at u port v prefix))"

abbreviation set_credit :: "nat \<Rightarrow> uart \<Rightarrow> uart" where
  "set_credit c u \<equiv> u\<lparr>advance_credit_ticks := c\<rparr>"

lemma set_credit_parts:
  "refresh_irq (set_credit c u) = set_credit c (refresh_irq u)"
  "start_next_transmit (set_credit c u) = set_credit c (start_next_transmit u)"
  "receive (set_credit c u) b = set_credit c (receive u b)"
  "elapse_timers (set_credit c u) n = set_credit c (elapse_timers u n)"
  "expire_timeout (set_credit c u) = set_credit c (expire_timeout u)"
  by (simp_all add: refresh_irq_def start_next_transmit_def receive_def armed_timeout_def elapse_timers_def
      expire_timeout_def Let_def split: list.splits option.splits)

lemma set_credit_update:
  "(set_credit c u)\<lparr>ier := x0\<rparr> = set_credit c (u\<lparr>ier := x0\<rparr>)"
  "(set_credit c u)\<lparr>fcr := x1\<rparr> = set_credit c (u\<lparr>fcr := x1\<rparr>)"
  "(set_credit c u)\<lparr>lcr := x2\<rparr> = set_credit c (u\<lparr>lcr := x2\<rparr>)"
  "(set_credit c u)\<lparr>mcr := x3\<rparr> = set_credit c (u\<lparr>mcr := x3\<rparr>)"
  "(set_credit c u)\<lparr>lsr := x4\<rparr> = set_credit c (u\<lparr>lsr := x4\<rparr>)"
  "(set_credit c u)\<lparr>msr := x5\<rparr> = set_credit c (u\<lparr>msr := x5\<rparr>)"
  "(set_credit c u)\<lparr>scr := x6\<rparr> = set_credit c (u\<lparr>scr := x6\<rparr>)"
  "(set_credit c u)\<lparr>divisor := x7\<rparr> = set_credit c (u\<lparr>divisor := x7\<rparr>)"
  "(set_credit c u)\<lparr>thre_pending := x8\<rparr> = set_credit c (u\<lparr>thre_pending := x8\<rparr>)"
  "(set_credit c u)\<lparr>rx_fifo := x9\<rparr> = set_credit c (u\<lparr>rx_fifo := x9\<rparr>)"
  "(set_credit c u)\<lparr>tx_fifo := x10\<rparr> = set_credit c (u\<lparr>tx_fifo := x10\<rparr>)"
  "(set_credit c u)\<lparr>tx_shift := x11\<rparr> = set_credit c (u\<lparr>tx_shift := x11\<rparr>)"
  "(set_credit c u)\<lparr>rx_timeout_remaining := x12\<rparr> = set_credit c (u\<lparr>rx_timeout_remaining := x12\<rparr>)"
  "(set_credit c u)\<lparr>rx_timeout_pending := x13\<rparr> = set_credit c (u\<lparr>rx_timeout_pending := x13\<rparr>)"
  "(set_credit c u)\<lparr>tx_output := x14\<rparr> = set_credit c (u\<lparr>tx_output := x14\<rparr>)"
  by (cases u; simp)+

lemma set_credit_deliver: "deliver_byte (set_credit c u) = set_credit c (deliver_byte u)"
  by (cases "tx_shift u") (simp_all add: deliver_byte_def Let_def set_credit_update set_credit_parts)

lemma set_credit_elapse: "elapse (set_credit c u) n = set_credit c (elapse u n)"
  by (simp add: elapse_def set_credit_parts set_credit_deliver)

lemma set_credit_event: "uart_ticks_until_event (set_credit c u) = uart_ticks_until_event u"
  by (simp add: uart_ticks_until_event_def)

lemma set_credit_advance:
  "uart_advance_elapsed_ticks (set_credit c u) n = set_credit c (uart_advance_elapsed_ticks u n)"
proof (induction u n rule: uart_advance_elapsed_ticks.induct)
  case (1 u n)
  then show ?case
    by (subst (1 2) advance_simps)
      (auto simp: set_credit_event set_credit_elapse Let_def split: option.splits)
qed

lemma elapse_base: "base (elapse u n) = base u"
  by (auto simp: elapse_def expire_timeout_def deliver_byte_def elapse_timers_def start_next_transmit_def
      receive_def Let_def split: option.splits list.splits)

lemma advance_base: "base (uart_advance_elapsed_ticks u n) = base u"
proof (induction u n rule: uart_advance_elapsed_ticks.induct)
  case (1 u n)
  then show ?case
    by (subst advance_simps) (auto simp: elapse_base Let_def split: option.splits)
qed

lemma set_credit_offset: "map_offset (set_credit c u) port = map_offset u port"
  by (simp add: map_offset_def)

lemma set_credit_regs:
  "transmit (set_credit c u) v = set_credit c (transmit u v)"
  "write_fcr (set_credit c u) v = set_credit c (write_fcr u v)"
  "read_receive_byte (set_credit c u) = apsnd (set_credit c) (read_receive_byte u)"
  "read_iir (set_credit c u) = apsnd (set_credit c) (read_iir u)"
  by (simp_all add: transmit_def write_fcr_def read_receive_byte_def read_iir_def armed_timeout_def Let_def
      set_credit_update set_credit_parts)

lemma set_credit_write_register:
  "uart_write_register (set_credit c u) r v = set_credit c (uart_write_register u r v)"
  by (simp add: uart_write_register_def Let_def dlab_def set_credit_update set_credit_regs
      update_loopback_msr_def clear_loopback_msr_def)

lemma set_credit_io: "uart_io a (set_credit c u) = apsnd (set_credit c) (uart_io a u)"
  by (auto simp: uart_io_def uart_write_port_def uart_read_port_def set_credit_offset set_credit_parts
      set_credit_write_register set_credit_regs set_credit_update dlab_def apsnd_def map_prod_def
      split: io_access.splits option.splits prod.splits)

lemma uart_io_foreign: "\<not> uart_decodes u a \<Longrightarrow> uart_io a u = (None, u)"
  by (auto simp: uart_decodes_def uart_io_def uart_read_port_def uart_write_port_def split: io_access.splits)

lemma uart_decodes_advance: "uart_decodes (uart_advance_elapsed_ticks u n) a = uart_decodes u a"
  by (auto simp: uart_decodes_def map_offset_def advance_base split: io_access.splits)

lemma uart_io_ok: "uart_ok u \<Longrightarrow> uart_ok (snd (uart_io a u))"
  by (auto simp: uart_io_def uart_read_port_ok uart_write_port_ok split: io_access.splits)

lemma uart_io_at_credit:
  "uart_io_at u p a =
    (if \<not> uart_decodes u a then Some (uart_io a u)
     else if advance_credit_ticks u \<le> p
     then Some (uart_io a (set_credit p (uart_advance_elapsed_ticks u (p - advance_credit_ticks u)))) else None)"
proof (cases "uart_decodes u a")
  case True
  then show ?thesis
    by (cases a) (auto simp: uart_io_at_def uart_io_def uart_decodes_def uart_read_port_at_def
        uart_write_port_at_def uart_catch_up_def checked_sub64_def prod_eq_iff)
next
  case False
  then show ?thesis
    by (cases a) (simp_all add: uart_io_foreign, simp_all add: uart_io_at_def uart_decodes_def
        uart_read_port_at_def uart_write_port_at_def)
qed

interpretation uart_batch: credit_device uart_ok "\<lambda>n u. uart_advance_elapsed_ticks u n"
  advance_credit_ticks set_credit uart_io uart_decodes uart_io_at uart_advance_master_ticks
proof unfold_locales
  fix u :: uart and a :: io_access and c n p :: nat
  show "uart_ok (set_credit c u) = uart_ok u"
    by (simp add: uart_ok_def uart_ok_update_plain)
  show "uart_advance_master_ticks u n =
      uart_advance_elapsed_ticks (set_credit (advance_credit_ticks u - n) u) (n - advance_credit_ticks u)"
    by (simp add: uart_advance_master_ticks_def Let_def min_def)
qed (simp_all add: set_credit_advance set_credit_io uart_io_ok uart_io_foreign uart_decodes_advance uart_io_at_credit)

end
