(* ===== verification/Uart_Irq.thy ===== *)
theory Uart_Irq
  imports Uart_Facts
begin

text \<open>
  Exactness of the interrupt deadline of the serial ports. The deadline of the code is the
  earliest of three sources (received data, overrun, transmitter empty); each source is shown to
  move with the clock one event at a time.
\<close>

section \<open>The three sources\<close>

definition rda_deadline :: "uart \<Rightarrow> nat option" where
  "rda_deadline u =
    (if \<not> bit (ier u) 0 then None
     else if \<not> bit (mcr u) 4 \<or> tx_shift u = None then rx_timeout_remaining u
     else let needed = rx_trigger u - length (rx_fifo u); deliveries = length (tx_fifo u) + 1
          in min_opt (case rx_timeout_remaining u of
                        Some t \<Rightarrow> if t < tx_ticks_remaining u then Some t else None | None \<Rightarrow> None)
               (Some (if needed \<le> deliveries then tx_ticks_remaining u + (needed - 1) * character_ticks u
                      else tx_ticks_remaining u + (deliveries - 1) * character_ticks u + 4 * character_ticks u)))"

definition rls_deadline :: "uart \<Rightarrow> nat option" where
  "rls_deadline u =
    (if \<not> bit (ier u) 2 \<or> \<not> bit (mcr u) 4 \<or> tx_shift u = None then None
     else let overrun = capacity u - length (rx_fifo u) + 1
          in if overrun \<le> length (tx_fifo u) + 1
             then Some (tx_ticks_remaining u + (overrun - 1) * character_ticks u) else None)"

definition thre_deadline :: "uart \<Rightarrow> nat option" where
  "thre_deadline u =
    (if \<not> bit (ier u) 1 \<or> tx_shift u = None \<or> tx_fifo u = [] then None
     else Some (tx_ticks_remaining u + (length (tx_fifo u) - 1) * character_ticks u))"

definition rda_cond :: "uart \<Rightarrow> bool" where
  "rda_cond u \<longleftrightarrow> bit (ier u) 0 \<and> (rx_trigger u \<le> length (rx_fifo u) \<or> rx_timeout_pending u)"

definition rls_cond :: "uart \<Rightarrow> bool" where
  "rls_cond u \<longleftrightarrow> bit (ier u) 2 \<and> bit (lsr u) 1"

definition thre_cond :: "uart \<Rightarrow> bool" where
  "thre_cond u \<longleftrightarrow> bit (ier u) 1 \<and> thre_pending u"

definition ms_cond :: "uart \<Rightarrow> bool" where
  "ms_cond u \<longleftrightarrow> bit (ier u) 3 \<and> test (msr u) MSR_DELTAS"

lemma pending_code_None:
  "pending_code u = IIR_NONE \<longleftrightarrow> \<not> rda_cond u \<and> \<not> rls_cond u \<and> \<not> thre_cond u \<and> \<not> ms_cond u"
  by (simp add: pending_code_def rda_cond_def rls_cond_def thre_cond_def ms_cond_def iir_codes)

lemma delivery_fits:
  assumes "uart_ok u" and "n \<le> 17"
  shows "tx_ticks_remaining u + (n - 1) * character_ticks u + 4 * character_ticks u \<le> u64_max"
proof -
  have "(n - 1) * character_ticks u \<le> 16 * CHARACTER_TICKS_MAX"
    using assms character_ticks_le by (intro mult_le_mono) simp_all
  moreover have "tx_ticks_remaining u \<le> CHARACTER_TICKS_MAX"
    using assms by (simp add: uart_ok_def tx_ok_def)
  ultimately show ?thesis
    using character_ticks_le [of u] by (simp add: CHARACTER_TICKS_MAX_def u64_max_def)
qed

lemma at_delivery_exact:
  assumes "uart_ok u" and "n \<le> 17"
  shows "at_delivery u n = tx_ticks_remaining u + (n - 1) * character_ticks u"
  using delivery_fits [OF assms] by (simp add: at_delivery_def saturating_add64_def saturating_mul64_def)

lemma tx_fifo_bound: "uart_ok u \<Longrightarrow> length (tx_fifo u) \<le> 16"
  using capacity_bounds [of u] by (simp add: uart_ok_def tx_ok_def)

lemma receiver_sources:
  assumes ok: "uart_ok u" and rda: "bit (ier u) 0 \<longrightarrow> length (rx_fifo u) < rx_trigger u"
  shows "receiver_irq_deadline u = min_opt (rda_deadline u) (rls_deadline u)"
proof (cases "bit (mcr u) 4 \<and> tx_shift u \<noteq> None \<and> (bit (ier u) 0 \<or> bit (ier u) 2)")
  case True
  have d: "length (tx_fifo u) + 1 \<le> 17" using tx_fifo_bound [OF ok] by simp
  have n: "at_delivery u n = tx_ticks_remaining u + (n - 1) * character_ticks u" if "n \<le> length (tx_fifo u) + 1" for n
    using that d by (intro at_delivery_exact [OF ok]) simp
  have l: "saturating_add64 (tx_ticks_remaining u + length (tx_fifo u) * character_ticks u) (4 * character_ticks u)
      = tx_ticks_remaining u + length (tx_fifo u) * character_ticks u + 4 * character_ticks u"
    using delivery_fits [OF ok d] by (simp add: saturating_add64_def)
  have m: "bit (ier u) 0 \<longrightarrow> rx_trigger u - length (rx_fifo u) \<noteq> 0" using rda by auto
  show ?thesis
    using True m
    by (auto simp: receiver_irq_deadline_def rda_deadline_def rls_deadline_def Let_def test_or
        n l)
next
  case False
  then show ?thesis
    by (auto simp: receiver_irq_deadline_def rda_deadline_def rls_deadline_def Let_def test_or)
qed

lemma sources_refresh [simp]:
  "rda_deadline (refresh_irq u) = rda_deadline u" "rls_deadline (refresh_irq u) = rls_deadline u"
  "thre_deadline (refresh_irq u) = thre_deadline u" "rda_cond (refresh_irq u) = rda_cond u"
  "rls_cond (refresh_irq u) = rls_cond u" "thre_cond (refresh_irq u) = thre_cond u"
  "ms_cond (refresh_irq u) = ms_cond u"
  by (simp_all add: rda_deadline_def rls_deadline_def thre_deadline_def rda_cond_def rls_cond_def
      thre_cond_def ms_cond_def Let_def cong: option.case_cong)

section \<open>What an event does\<close>

lemma elapse_timeout:
  assumes ok: "uart_ok u" and t: "rx_timeout_remaining u = Some t"
    and "tx_shift u \<noteq> None \<longrightarrow> t < tx_ticks_remaining u"
  shows "elapse u t = refresh_irq (u\<lparr>tx_ticks_remaining :=
      (if tx_shift u \<noteq> None then tx_ticks_remaining u - t else tx_ticks_remaining u),
      rx_timeout_remaining := None, rx_timeout_pending := True\<rparr>)"
proof -
  have "rx_fifo u \<noteq> []" using ok t by (simp add: uart_ok_def rx_ok_def rx_queue_ok_def)
  with assms show ?thesis
    by (cases "tx_shift u") (auto simp: elapse_def elapse_timers_def deliver_byte_def expire_timeout_def)
qed

text \<open>The state in which the shift register has handed over its byte.\<close>

definition shifted_out :: "uart \<Rightarrow> uart" where
  "shifted_out u = u\<lparr>tx_ticks_remaining := 0,
     rx_timeout_remaining := map_option (\<lambda>t. t - tx_ticks_remaining u) (rx_timeout_remaining u),
     tx_shift := None\<rparr>"

lemma elapse_delivery:
  assumes "tx_shift u = Some b"
  shows "elapse u (tx_ticks_remaining u) = refresh_irq (expire_timeout (start_next_transmit
     (if bit (mcr u) 4 then receive (shifted_out u) b
      else (shifted_out u)\<lparr>tx_output := tx_output u @ [b]\<rparr>)))"
  using assms by (simp add: elapse_def elapse_timers_def deliver_byte_def shifted_out_def)

lemma start_next_empty:
  "tx_shift u = None \<Longrightarrow> tx_fifo u = [] \<Longrightarrow> start_next_transmit u =
    u\<lparr>thre_pending := (if \<not> bit (lsr u) 5 then True else thre_pending u), lsr := lsr u OR LSR_THRE OR LSR_TEMT\<rparr>"
  by (simp add: start_next_transmit_def or.assoc)

lemma start_next_last:
  "tx_shift u = None \<Longrightarrow> tx_fifo u = [b] \<Longrightarrow> start_next_transmit u =
    u\<lparr>tx_fifo := [], tx_shift := Some b, tx_ticks_remaining := character_ticks u,
      thre_pending := (if \<not> bit (lsr u) 5 then True else thre_pending u),
      lsr := (lsr u OR LSR_THRE) AND NOT LSR_TEMT\<rparr>"
  by (simp add: start_next_transmit_def)

lemma start_next_more:
  "tx_shift u = None \<Longrightarrow> tx_fifo u = b # c # bs \<Longrightarrow> start_next_transmit u =
    u\<lparr>tx_fifo := c # bs, tx_shift := Some b, tx_ticks_remaining := character_ticks u,
      lsr := (lsr u AND NOT LSR_THRE) AND NOT LSR_TEMT\<rparr>"
  by (simp add: start_next_transmit_def)

text \<open>The state before \<open>start_next_transmit\<close> at a delivery.\<close>

definition handed_over :: "uart \<Rightarrow> u8 \<Rightarrow> uart" where
  "handed_over u b =
    (if bit (mcr u) 4 then receive (shifted_out u) b
     else (shifted_out u)\<lparr>tx_output := tx_output u @ [b]\<rparr>)"

lemma handed_over_sel [simp]:
  "tx_shift (handed_over u b) = None" "tx_fifo (handed_over u b) = tx_fifo u"
  "ier (handed_over u b) = ier u" "mcr (handed_over u b) = mcr u"
  "thre_pending (handed_over u b) = thre_pending u" "character_ticks (handed_over u b) = character_ticks u"
  "capacity (handed_over u b) = capacity u" "rx_trigger (handed_over u b) = rx_trigger u"
  "fifo_enabled (handed_over u b) = fifo_enabled u" "msr (handed_over u b) = msr u"
  "bit (lsr (handed_over u b)) 5 = bit (lsr u) 5"
  by (simp_all add: handed_over_def shifted_out_def receive_def Let_def bit_simps)

lemma event_cases:
  assumes ok: "uart_ok u" and k: "uart_ticks_until_event u = Some k"
  obtains (timeout) "rx_timeout_remaining u = Some k" "tx_shift u \<noteq> None \<longrightarrow> k < tx_ticks_remaining u"
        "elapse u k = refresh_irq (u\<lparr>tx_ticks_remaining :=
          (if tx_shift u \<noteq> None then tx_ticks_remaining u - k else tx_ticks_remaining u),
          rx_timeout_remaining := None, rx_timeout_pending := True\<rparr>)"
    | (delivery) b where "tx_shift u = Some b" "k = tx_ticks_remaining u"
        "\<forall>t. rx_timeout_remaining u = Some t \<longrightarrow> k \<le> t"
        "elapse u k = refresh_irq (expire_timeout (start_next_transmit (handed_over u b)))"
proof (cases "\<exists>t. rx_timeout_remaining u = Some t \<and> (tx_shift u \<noteq> None \<longrightarrow> t < tx_ticks_remaining u)")
  case True
  then obtain t where t: "rx_timeout_remaining u = Some t" "tx_shift u \<noteq> None \<longrightarrow> t < tx_ticks_remaining u"
    by blast
  with k have "k = t" by (auto simp: uart_ticks_until_event_def split: if_splits)
  with t elapse_timeout [OF ok t] show thesis by (intro timeout) simp_all
next
  case False
  then obtain b where b: "tx_shift u = Some b"
    using k by (cases "tx_shift u") (auto simp: uart_ticks_until_event_def)
  have "k = tx_ticks_remaining u"
    using k b False by (cases "rx_timeout_remaining u") (auto simp: uart_ticks_until_event_def)
  then show thesis
    using False b elapse_delivery [OF b] by (intro delivery [of b]) (auto simp: handed_over_def)
qed

lemma fifo_cases:
  obtains (empty) "tx_fifo u = []" | (last) c where "tx_fifo u = [c]" | (more) c d cs where "tx_fifo u = c # d # cs"
  by (metis list.exhaust)

lemmas start_next = start_next_empty start_next_last start_next_more

section \<open>Each source moves with the clock\<close>

text \<open>
  \<open>moves deadline cond u k\<close>: over the event at \<open>k\<close> the source either becomes pending, and its
  deadline was \<open>k\<close>, or its deadline is the deadline after the event, \<open>k\<close> ticks later.
\<close>

definition moves :: "(uart \<Rightarrow> nat option) \<Rightarrow> (uart \<Rightarrow> bool) \<Rightarrow> uart \<Rightarrow> nat \<Rightarrow> bool" where
  "moves d c u k \<longleftrightarrow>
    (if c (elapse u k) then d u = Some k else d u = map_option ((+) k) (d (elapse u k)))"

lemma expire_timeout_sources [simp]:
  "thre_cond (expire_timeout v) = thre_cond v" "thre_deadline (expire_timeout v) = thre_deadline v"
  "rls_cond (expire_timeout v) = rls_cond v" "rls_deadline (expire_timeout v) = rls_deadline v"
  by (simp_all add: expire_timeout_def thre_cond_def thre_deadline_def rls_cond_def rls_deadline_def)

lemma thre_event:
  assumes ok: "uart_ok u" and k: "uart_ticks_until_event u = Some k" and n: "\<not> thre_cond u"
  shows "moves thre_deadline thre_cond u k"
  using ok k
proof (cases rule: event_cases)
  case timeout
  with n show ?thesis unfolding moves_def timeout (3)
    by (auto simp: thre_cond_def thre_deadline_def)
next
  case (delivery b)
  have b5: "bit (lsr u) 5 \<longleftrightarrow> tx_fifo u = []" using ok by (simp add: uart_ok_def tx_ok_def)
  from n b5 delivery (1,2) show ?thesis unfolding moves_def delivery (4)
    by (cases u rule: fifo_cases) (simp add: start_next, simp add: thre_cond_def thre_deadline_def)+
qed

lemma handed_over_rx:
  "rx_fifo (handed_over u b) =
    (if bit (mcr u) 4 \<and> length (rx_fifo u) < capacity u then rx_fifo u @ [b] else rx_fifo u)"
  "bit (lsr (handed_over u b)) (Suc 0) \<longleftrightarrow> bit (lsr u) (Suc 0) \<or> bit (mcr u) 4 \<and> capacity u \<le> length (rx_fifo u)"
  "rx_timeout_pending (handed_over u b) \<longleftrightarrow>
    \<not> (bit (mcr u) 4 \<and> length (rx_fifo u) < capacity u) \<and> rx_timeout_pending u"
  "rx_timeout_remaining (handed_over u b) =
    (if bit (mcr u) 4 \<and> length (rx_fifo u) < capacity u
     then if fifo_enabled u \<and> Suc (length (rx_fifo u)) < rx_trigger u then Some (4 * character_ticks u) else None
     else map_option (\<lambda>t. t - tx_ticks_remaining u) (rx_timeout_remaining u))"
  by (simp_all add: handed_over_def shifted_out_def receive_def armed_timeout_def Let_def bit_simps)

text \<open>The sources after the transmitter has been restarted, over the state before.\<close>

lemma start_next_sel [simp]:
  "ier (start_next_transmit w) = ier w" "mcr (start_next_transmit w) = mcr w"
  "msr (start_next_transmit w) = msr w" "rx_fifo (start_next_transmit w) = rx_fifo w"
  "rx_timeout_remaining (start_next_transmit w) = rx_timeout_remaining w"
  "rx_timeout_pending (start_next_transmit w) = rx_timeout_pending w"
  "character_ticks (start_next_transmit w) = character_ticks w" "capacity (start_next_transmit w) = capacity w"
  "rx_trigger (start_next_transmit w) = rx_trigger w" "fifo_enabled (start_next_transmit w) = fifo_enabled w"
  "bit (lsr (start_next_transmit w)) (Suc 0) = bit (lsr w) (Suc 0)"
  "irq_asserted (start_next_transmit w) = irq_asserted w" "irq_armed (start_next_transmit w) = irq_armed w"
  by (auto simp: start_next_transmit_def Let_def bit_simps split: list.splits option.splits)

lemma start_next_tx:
  assumes "tx_shift w = None"
  shows "tx_shift (start_next_transmit w) = None \<longleftrightarrow> tx_fifo w = []"
    "tx_fifo w \<noteq> [] \<Longrightarrow> tx_ticks_remaining (start_next_transmit w) = character_ticks w"
    "tx_fifo w \<noteq> [] \<Longrightarrow> Suc (length (tx_fifo (start_next_transmit w))) = length (tx_fifo w)"
  using assms by (cases w rule: fifo_cases; simp add: start_next)+

lemma rls_start_next:
  assumes "tx_shift w = None"
  shows "rls_cond (start_next_transmit w) = rls_cond w"
    "rls_deadline (start_next_transmit w) =
      (if \<not> bit (ier w) 2 \<or> \<not> bit (mcr w) 4 \<or> tx_fifo w = [] then None
       else if capacity w - length (rx_fifo w) + 1 \<le> length (tx_fifo w)
       then Some ((capacity w - length (rx_fifo w) + 1) * character_ticks w) else None)"
  by (simp add: rls_cond_def) (simp add: rls_deadline_def Let_def start_next_tx [OF assms])

lemma rls_event:
  assumes ok: "uart_ok u" and k: "uart_ticks_until_event u = Some k" and n: "\<not> rls_cond u"
  shows "moves rls_deadline rls_cond u k"
  using ok k
proof (cases rule: event_cases)
  case timeout
  with n show ?thesis unfolding moves_def timeout (3)
    by (auto simp: rls_cond_def rls_deadline_def Let_def)
next
  case (delivery b)
  have "length (rx_fifo u) \<le> capacity u" using ok by (simp add: uart_ok_def rx_ok_def rx_queue_ok_def)
  then obtain m where m: "capacity u = length (rx_fifo u) + m" by (auto simp: le_iff_add)
  from n delivery (1,2) m show ?thesis
    unfolding moves_def delivery (4) sources_refresh expire_timeout_sources rls_start_next [OF handed_over_sel (1)]
    by (cases m) (auto simp: rls_cond_def rls_deadline_def handed_over_rx Let_def Suc_le_eq)
qed

lemma expire_timeout_sel [simp]:
  "ier (expire_timeout w) = ier w" "mcr (expire_timeout w) = mcr w" "rx_fifo (expire_timeout w) = rx_fifo w"
  "tx_fifo (expire_timeout w) = tx_fifo w" "rx_trigger (expire_timeout w) = rx_trigger w"
  "character_ticks (expire_timeout w) = character_ticks w"
  "rx_timeout_remaining (expire_timeout w) = (if rx_timeout_remaining w = Some 0 then None else rx_timeout_remaining w)"
  "rx_timeout_pending (expire_timeout w) = (if rx_timeout_remaining w = Some 0 then rx_fifo w \<noteq> [] else rx_timeout_pending w)"
  "msr (expire_timeout w) = msr w" "irq_asserted (expire_timeout w) = irq_asserted w"
  "irq_armed (expire_timeout w) = irq_armed w"
  by (simp_all add: expire_timeout_def)

definition due_timeout :: "uart \<Rightarrow> nat option" where
  "due_timeout w = (if rx_timeout_remaining w = Some 0 then None else rx_timeout_remaining w)"

lemma rda_cond_restart:
  "rda_cond (expire_timeout (start_next_transmit w)) \<longleftrightarrow> bit (ier w) 0 \<and>
    (rx_trigger w \<le> length (rx_fifo w) \<or>
     (if rx_timeout_remaining w = Some 0 then rx_fifo w \<noteq> [] else rx_timeout_pending w))"
  by (simp add: rda_cond_def)

lemma rda_deadline_restart:
  assumes "tx_shift w = None"
  shows "rda_deadline (expire_timeout (start_next_transmit w)) =
      (if \<not> bit (ier w) 0 then None
       else if \<not> bit (mcr w) 4 \<or> tx_fifo w = [] then due_timeout w
       else min_opt (case due_timeout w of Some t \<Rightarrow> if t < character_ticks w then Some t else None | None \<Rightarrow> None)
         (Some (if rx_trigger w - length (rx_fifo w) \<le> length (tx_fifo w)
                then character_ticks w + (rx_trigger w - length (rx_fifo w) - 1) * character_ticks w
                else length (tx_fifo w) * character_ticks w + 4 * character_ticks w)))"
proof (cases "tx_fifo w")
  case Nil
  then show ?thesis using start_next_tx (1) [OF assms] by (simp add: rda_deadline_def due_timeout_def)
next
  case (Cons c cs)
  then obtain d where "tx_shift (start_next_transmit w) = Some d" "tx_ticks_remaining (start_next_transmit w) = character_ticks w"
    "length (tx_fifo (start_next_transmit w)) = length cs"
    using start_next_tx [OF assms] by auto
  with Cons show ?thesis
    by (simp add: rda_deadline_def due_timeout_def Let_def cong: option.case_cong)
qed

lemma rda_event:
  assumes ok: "uart_ok u" and k: "uart_ticks_until_event u = Some k" and n: "\<not> rda_cond u"
  shows "moves rda_deadline rda_cond u k"
  using ok k
proof (cases rule: event_cases)
  case timeout
  then show ?thesis unfolding moves_def timeout (3)
    by (auto simp: rda_cond_def rda_deadline_def Let_def min_def)
next
  case (delivery b)
  show ?thesis
  proof (cases "bit (ier u) 0 \<and> bit (mcr u) 4")
    case False
    have "rx_timeout_remaining u = Some t \<Longrightarrow> rx_fifo u \<noteq> []" for t
      using ok by (simp add: uart_ok_def rx_ok_def rx_queue_ok_def)
    with False n delivery (1-3) show ?thesis
      unfolding moves_def delivery (4) sources_refresh rda_cond_restart rda_deadline_restart [OF handed_over_sel (1)]
      by (cases "rx_timeout_remaining u") (auto simp: handed_over_rx rda_cond_def rda_deadline_def due_timeout_def)
  next
    case True
    then obtain m where m: "rx_trigger u = length (rx_fifo u) + Suc m"
      using n by (auto simp: rda_cond_def dest!: less_imp_Suc_add simp: not_le)
    then have room: "length (rx_fifo u) < capacity u" and fifo: "m \<noteq> 0 \<Longrightarrow> fifo_enabled u"
      using rx_trigger_bounds [of u] trigger_without_fifo [of u] by auto
    have "(case rx_timeout_remaining u of None \<Rightarrow> None | Some t \<Rightarrow> if t < tx_ticks_remaining u then Some t else None) = None"
      using delivery (2,3) by (auto split: option.splits)
    with True room fifo n delivery (1,2) m show ?thesis
      unfolding moves_def delivery (4) sources_refresh rda_cond_restart rda_deadline_restart [OF handed_over_sel (1)]
      by (cases m; cases "tx_fifo u") (auto simp: handed_over_rx rda_cond_def rda_deadline_def due_timeout_def Let_def)
  qed
qed

section \<open>The deadline over the whole advance\<close>

lemma irq_deadline_sources:
  assumes "uart_ok u" and "\<not> irq_asserted u" and "bit (mcr u) 3"
  shows "uart_ticks_until_irq u = min_opt (rda_deadline u) (min_opt (rls_deadline u) (thre_deadline u))"
proof -
  have q: "pending_code u = IIR_NONE" using assms by (simp add: uart_ok_def irq_ok_def)
  then have "bit (ier u) 0 \<longrightarrow> length (rx_fifo u) < rx_trigger u"
    by (auto simp: pending_code_None rda_cond_def)
  then have r: "receiver_irq_deadline u = min_opt (rda_deadline u) (rls_deadline u)"
    by (rule receiver_sources [OF assms (1)])
  have "length (tx_fifo u) \<le> 17" using tx_fifo_bound [OF assms (1)] by simp
  then have "transmitter_irq_deadline u = thre_deadline u"
    using delivery_fits [OF assms (1), of "length (tx_fifo u)"]
    by (simp add: transmitter_irq_deadline_def thre_deadline_def saturating_add64_def saturating_mul64_def)
  with assms r show ?thesis by (simp add: uart_ticks_until_irq_def min_opt_assoc)
qed

lemma elapse_frame:
  "mcr (elapse u k) = mcr u" "ms_cond (elapse u k) = ms_cond u"
  "irq_armed (elapse u k) \<longleftrightarrow> irq_armed u \<or> irq_asserted (elapse u k) \<and> \<not> irq_asserted u"
proof -
  have d: "mcr (deliver_byte v) = mcr v" "ms_cond (deliver_byte v) = ms_cond v"
    "irq_armed (deliver_byte v) = irq_armed v" "irq_asserted (deliver_byte v) = irq_asserted v" for v
    by (auto simp: deliver_byte_def ms_cond_def Let_def split: option.splits)
  have e: "mcr (elapse_timers u k) = mcr u" "ms_cond (elapse_timers u k) = ms_cond u"
    "irq_armed (elapse_timers u k) = irq_armed u" "irq_asserted (elapse_timers u k) = irq_asserted u"
    by (simp_all add: elapse_timers_def ms_cond_def)
  have x: "ms_cond (expire_timeout v) = ms_cond v" for v
    by (simp add: ms_cond_def)
  show "mcr (elapse u k) = mcr u" "ms_cond (elapse u k) = ms_cond u"
    by (simp_all add: elapse_def d e x)
  show "irq_armed (elapse u k) \<longleftrightarrow> irq_armed u \<or> irq_asserted (elapse u k) \<and> \<not> irq_asserted u"
    by (auto simp: elapse_def refresh_irq_def Let_def d e)
qed

lemma moves_earliest:
  assumes "moves d c u k" and "moves d' c' u k"
  shows "moves (\<lambda>u. min_opt (d u) (d' u)) (\<lambda>u. c u \<or> c' u) u k"
  using assms
  by (cases "d (elapse u k)"; cases "d' (elapse u k)") (auto simp: moves_def split: if_splits)

lemma irq_event:
  assumes ok: "uart_ok u" and k: "uart_ticks_until_event u = Some k"
    and n: "\<not> irq_asserted u" and out2: "bit (mcr u) 3"
  shows "irq_asserted (elapse u k) \<Longrightarrow> uart_ticks_until_irq u = Some k"
    and "\<not> irq_asserted (elapse u k) \<Longrightarrow> uart_ticks_until_irq u = map_option ((+) k) (uart_ticks_until_irq (elapse u k))"
proof -
  let ?d = "\<lambda>u. min_opt (rda_deadline u) (min_opt (rls_deadline u) (thre_deadline u))"
  have q: "\<not> rda_cond u" "\<not> rls_cond u" "\<not> thre_cond u" "\<not> ms_cond u"
    using ok n out2 pending_code_None [of u] by (auto simp: uart_ok_def irq_ok_def)
  have m: "moves ?d (\<lambda>u. rda_cond u \<or> rls_cond u \<or> thre_cond u) u k"
    using q rda_event [OF ok k] rls_event [OF ok k] thre_event [OF ok k] by (intro moves_earliest) simp_all
  have ok': "uart_ok (elapse u k)" by (rule elapse_ok [OF ok])
  then have a: "irq_asserted (elapse u k) \<longleftrightarrow> rda_cond (elapse u k) \<or> rls_cond (elapse u k) \<or> thre_cond (elapse u k)"
    using q out2 pending_code_None [of "elapse u k"] by (auto simp: uart_ok_def irq_ok_def elapse_frame)
  note s = irq_deadline_sources [OF ok n out2]
  show "irq_asserted (elapse u k) \<Longrightarrow> uart_ticks_until_irq u = Some k"
    using m a s by (simp add: moves_def)
  show "\<not> irq_asserted (elapse u k) \<Longrightarrow> uart_ticks_until_irq u = map_option ((+) k) (uart_ticks_until_irq (elapse u k))"
    using m a s irq_deadline_sources [OF ok'] out2 by (simp add: moves_def elapse_frame)
qed

lemma armed_sticky: "irq_armed u \<Longrightarrow> irq_armed (uart_advance_elapsed_ticks u n)"
proof (induction u n rule: uart_advance_elapsed_ticks.induct)
  case (1 u n)
  then show ?case
    by (subst advance_simps) (auto simp: elapse_frame Let_def split: option.splits)
qed

definition reached :: "nat option \<Rightarrow> nat \<Rightarrow> bool" where
  "reached d n = (case d of None \<Rightarrow> False | Some t \<Rightarrow> t \<le> n)"

lemma irq_deadline_exact:
  "uart_ok u \<Longrightarrow> \<not> irq_asserted u \<Longrightarrow>
    irq_armed (uart_advance_elapsed_ticks u n) \<longleftrightarrow> irq_armed u \<or> reached (uart_ticks_until_irq u) n"
proof (induction u n rule: uart_advance_elapsed_ticks.induct)
  case (1 u n)
  note ok = 1 (2) and na = 1 (3)
  have na': "\<not> irq_asserted (elapse u k)" if "\<not> bit (mcr u) 3" for k
    using that elapse_ok [OF ok, of k] by (simp add: uart_ok_def irq_ok_def elapse_frame)
  have off: "uart_ticks_until_irq v = None" if "\<not> bit (mcr v) 3" for v
    using that by (simp add: uart_ticks_until_irq_def)
  show ?case
  proof (cases "uart_ticks_until_event u")
    case None
    then have "tx_shift u = None" "rx_timeout_remaining u = None"
      by (auto simp: uart_ticks_until_event_def split: if_splits)
    then have "rda_deadline u = None" "rls_deadline u = None" "thre_deadline u = None"
      by (simp_all add: rda_deadline_def rls_deadline_def thre_deadline_def)
    then have "uart_ticks_until_irq u = None"
      using irq_deadline_sources [OF ok na] off [of u] by (cases "bit (mcr u) 3") auto
    with None show ?thesis by (simp add: advance_idle reached_def)
  next
    case (Some k)
    have k: "0 < k" using event_pos ok Some by blast
    have ge: "k \<le> d" if "uart_ticks_until_irq u = Some d" for d
    proof (cases "bit (mcr u) 3")
      case True
      then show ?thesis using that irq_event [OF ok Some na True] by (cases "irq_asserted (elapse u k)") auto
    next
      case False
      then show ?thesis using that off by simp
    qed
    show ?thesis
    proof (cases "k \<le> n")
      case False
      then have "uart_advance_elapsed_ticks u n = elapse_timers u n"
        using Some elapse_before_event [OF ok Some, of n] advance_before_event [OF Some, of n]
        by (cases "n = 0") (auto simp: elapse_timers_def map_option_idI)
      moreover have "\<not> reached (uart_ticks_until_irq u) n"
        using ge False by (fastforce simp: reached_def split: option.splits)
      ultimately show ?thesis by (simp add: elapse_timers_def)
    next
      case True
      then have a: "uart_advance_elapsed_ticks u n = uart_advance_elapsed_ticks (elapse u k) (n - k)"
        using Some k by (intro advance_event) auto
      show ?thesis
      proof (cases "irq_asserted (elapse u k)")
        case asserted: True
        then have "bit (mcr u) 3" using na' by blast
        then have "uart_ticks_until_irq u = Some k" using irq_event (1) [OF ok Some na] asserted by simp
        moreover have "irq_armed (elapse u k)" using asserted na by (simp add: elapse_frame)
        ultimately show ?thesis using a armed_sticky True by (simp add: reached_def)
      next
        case quiet: False
        have "irq_armed (uart_advance_elapsed_ticks (elapse u k) (n - k)) \<longleftrightarrow>
            irq_armed (elapse u k) \<or> reached (uart_ticks_until_irq (elapse u k)) (n - k)"
          using 1 (1) [of k k] Some True k elapse_ok [OF ok] quiet by simp
        moreover have "uart_ticks_until_irq u = map_option ((+) k) (uart_ticks_until_irq (elapse u k))"
          using irq_event (2) [OF ok Some na _ quiet] off [of u] off [of "elapse u k"]
          by (cases "bit (mcr u) 3") (auto simp: elapse_frame)
        ultimately show ?thesis
          using a quiet na True by (auto simp: elapse_frame reached_def split: option.splits)
      qed
    qed
  qed
qed

section \<open>The transmit queue\<close>

definition queued :: "uart \<Rightarrow> u8 list" where
  "queued u = (case tx_shift u of None \<Rightarrow> [] | Some b \<Rightarrow> [b]) @ tx_fifo u"

definition drain_ticks :: "uart \<Rightarrow> nat" where
  "drain_ticks u = (if tx_shift u = None then 0 else tx_ticks_remaining u + length (tx_fifo u) * character_ticks u)"

lemma queued_restart:
  assumes "tx_shift w = None"
  shows "queued (expire_timeout (start_next_transmit w)) = tx_fifo w"
    "drain_ticks (expire_timeout (start_next_transmit w)) = length (tx_fifo w) * character_ticks w"
    "tx_output (expire_timeout (start_next_transmit w)) = tx_output w"
  using assms
  by (cases w rule: fifo_cases; simp add: queued_def drain_ticks_def start_next; simp add: expire_timeout_def)+

lemma drain_event:
  assumes ok: "uart_ok u" and k: "uart_ticks_until_event u = Some k" and noloop: "\<not> bit (mcr u) 4"
  shows "tx_output (elapse u k) @ queued (elapse u k) = tx_output u @ queued u"
    and "drain_ticks (elapse u k) = drain_ticks u - k"
  using ok k
proof (atomize (full), cases rule: event_cases)
  case timeout
  then show "tx_output (elapse u k) @ queued (elapse u k) = tx_output u @ queued u \<and>
      drain_ticks (elapse u k) = drain_ticks u - k" unfolding timeout (3)
    by (auto simp: queued_def drain_ticks_def)
next
  case (delivery b)
  have q: "queued (refresh_irq v) = queued v" "drain_ticks (refresh_irq v) = drain_ticks v" for v
    by (simp_all add: queued_def drain_ticks_def)
  from noloop delivery (1,2) show "tx_output (elapse u k) @ queued (elapse u k) = tx_output u @ queued u \<and>
      drain_ticks (elapse u k) = drain_ticks u - k" unfolding delivery (4) q refresh_irq_sel
    by (simp add: queued_restart) (simp add: handed_over_def shifted_out_def queued_def drain_ticks_def)
qed

lemma drain_zero: "uart_ok u \<Longrightarrow> drain_ticks u = 0 \<longleftrightarrow> tx_shift u = None"
  by (auto simp: drain_ticks_def uart_ok_def tx_ok_def)

lemma drain_exact:
  "uart_ok u \<Longrightarrow> \<not> bit (mcr u) 4 \<Longrightarrow>
    tx_output (uart_advance_elapsed_ticks u n) @ queued (uart_advance_elapsed_ticks u n) = tx_output u @ queued u \<and>
    drain_ticks (uart_advance_elapsed_ticks u n) = drain_ticks u - n"
proof (induction u n rule: uart_advance_elapsed_ticks.induct)
  case (1 u n)
  note ok = 1 (2) and noloop = 1 (3)
  show ?case
  proof (cases "uart_ticks_until_event u")
    case None
    then have "tx_shift u = None" by (auto simp: uart_ticks_until_event_def split: if_splits)
    with None show ?thesis by (simp add: advance_idle drain_ticks_def)
  next
    case (Some k)
    have k: "0 < k" using event_pos ok Some by blast
    show ?thesis
    proof (cases "k \<le> n")
      case True
      have "uart_advance_elapsed_ticks u n = uart_advance_elapsed_ticks (elapse u k) (n - k)"
        using Some k True by (intro advance_event) auto
      then show ?thesis
        using 1 (1) [of k k] Some True k elapse_ok [OF ok] noloop drain_event [OF ok Some noloop]
        by (simp add: elapse_frame)
    next
      case False
      then have "uart_advance_elapsed_ticks u n = elapse_timers u n"
        using Some elapse_before_event [OF ok Some, of n] advance_before_event [OF Some, of n]
        by (cases "n = 0") (auto simp: elapse_timers_def map_option_idI)
      moreover have "tx_shift u \<noteq> None \<Longrightarrow> n < tx_ticks_remaining u"
        using event_le_timers (1) [OF Some] False by simp
      ultimately show ?thesis
        by (cases "tx_shift u") (auto simp: elapse_timers_def queued_def drain_ticks_def)
    qed
  qed
qed

section \<open>Reachable states\<close>

inductive uart_reachable :: "uart \<Rightarrow> bool" where
  com1: "uart_reachable uart_default"
| com2: "uart_reachable com2"
| port_read: "uart_reachable u \<Longrightarrow> uart_reachable (snd (uart_read_port u port))"
| port_write: "uart_reachable u \<Longrightarrow> uart_reachable (snd (uart_write_port u port v))"
| take_irq: "uart_reachable u \<Longrightarrow> uart_reachable (snd (take_irq u))"
| advance: "uart_reachable u \<Longrightarrow> uart_reachable (uart_advance_master_ticks u n)"
| catch_up: "uart_reachable u \<Longrightarrow> uart_catch_up u p = Some u' \<Longrightarrow> uart_reachable u'"

lemma set_credit_ok: "uart_ok (set_credit c u) = uart_ok u"
  by (simp add: uart_ok_def uart_ok_update_plain)

lemma uart_reachable_ok: "uart_reachable u \<Longrightarrow> uart_ok u"
proof (induction rule: uart_reachable.induct)
  case (advance u n)
  then show ?case by (simp add: uart_advance_master_ticks_def Let_def advance_ok set_credit_ok)
next
  case (catch_up u p u')
  then show ?case
    by (auto simp: uart_catch_up_def advance_ok set_credit_ok checked_sub64_def split: if_splits)
qed (simp_all add: uart_default_ok uart_read_port_ok uart_write_port_ok take_irq_ok)

section \<open>Properties\<close>

text \<open>C31: In every state a guest and the run loop can bring a serial port into, the line status
  register mirrors the queues (data ready, holding register empty, transmitter empty), no queue
  exceeds its capacity, nothing waits behind an idle shift register, and the interrupt line is
  the gated identification register.\<close>

theorem uart_line_status:
  assumes "uart_reachable u"
  shows "(test (lsr u) LSR_DR \<longleftrightarrow> rx_fifo u \<noteq> []) \<and> (test (lsr u) LSR_THRE \<longleftrightarrow> tx_fifo u = []) \<and>
    (test (lsr u) LSR_TEMT \<longleftrightarrow> tx_shift u = None) \<and>
    length (rx_fifo u) \<le> capacity u \<and> length (tx_fifo u) \<le> capacity u \<and>
    (tx_shift u = None \<longrightarrow> tx_fifo u = []) \<and>
    (irq_asserted u \<longleftrightarrow> test (mcr u) MCR_OUT2 \<and> pending_code u \<noteq> IIR_NONE)"
  using uart_reachable_ok [OF assms]
  by (simp add: uart_ok_def rx_ok_def rx_queue_ok_def tx_ok_def irq_ok_def)

text \<open>Two characters written to a port whose transmitter interrupt is enabled.\<close>

definition out_bytes :: "(u16 \<times> u8) list \<Rightarrow> uart \<Rightarrow> uart" where
  "out_bytes ws u = foldl (\<lambda>u (port, v). snd (uart_write_port u port v)) u ws"

definition busy_uart :: uart where
  "busy_uart = out_bytes [(0x3fc, 0x08), (0x3f8, 0x41), (0x3f8, 0x42), (0x3f9, 0x02)] uart_default"

lemma out_bytes_simps [simp]:
  "out_bytes [] u = u" "out_bytes ((port, v) # ws) u = out_bytes ws (snd (uart_write_port u port v))"
  by (simp_all add: out_bytes_def)

lemma out_bytes_reachable: "uart_reachable u \<Longrightarrow> uart_reachable (out_bytes ws u)"
  by (induction ws arbitrary: u) (auto simp: uart_reachable.port_write)

lemma default_character_ticks [simp]: "character_ticks uart_default = 332865"
  by (simp add: character_ticks_def uart_default_def MASTER_CLOCK_HZ_def div_ceil_def u64_max_def test_def)

lemma default_capacity [simp]: "capacity uart_default = 1" "rx_trigger uart_default = 1" "\<not> fifo_enabled uart_default"
  by (simp_all add: capacity_def rx_trigger_def fifo_enabled_def uart_default_def)

lemma default_sel [simp]:
  "base uart_default = 0x3f8" "ier uart_default = 0" "fcr uart_default = 0" "lcr uart_default = 0"
  "mcr uart_default = 0" "lsr uart_default = 0x60" "msr uart_default = 0" "thre_pending uart_default = False"
  "irq_armed uart_default = False" "irq_asserted uart_default = False" "rx_fifo uart_default = []"
  "tx_fifo uart_default = []" "tx_shift uart_default = None" "rx_timeout_pending uart_default = False"
  "advance_credit_ticks uart_default = 0" "rx_timeout_remaining uart_default = None"
  "tx_ticks_remaining uart_default = 0" "tx_output uart_default = []"
  by (simp_all add: uart_default_def COM1_BASE_def LSR_THRE_def LSR_TEMT_def)

lemmas uart_eval = uart_write_port_def map_offset_def uart_write_register_def dlab_def transmit_def
  refresh_irq_def pending_code_def start_next_transmit_def test_def uart_masks iir_codes

lemma busy_uart_value:
  "busy_uart = uart_default\<lparr>mcr := 0x08, ier := 0x02, lsr := 0, tx_shift := Some 0x41, tx_fifo := [0x42],
     tx_ticks_remaining := 332865\<rparr>"
  by (simp add: busy_uart_def uart_eval Let_def del: test_mask)

lemma busy_uart_reachable: "uart_reachable busy_uart"
  unfolding busy_uart_def by (intro out_bytes_reachable uart_reachable.com1)

theorem uart_line_status_witness: "uart_reachable busy_uart \<and> tx_fifo busy_uart = [0x42] \<and> \<not> test (lsr busy_uart) LSR_THRE"
  using uart_line_status [OF busy_uart_reachable] busy_uart_reachable by (simp add: busy_uart_value)

text \<open>C16: Accesses in the middle of a batch are exact. When the guest reads and writes the ports of
  a serial port at any non-decreasing ticks of a batch, the device that catches up at each access
  and deducts its credit at the end of the batch returns to every read the value, and ends in the
  state, that it would have if time had simply passed between the accesses; no access fails.\<close>

theorem uart_batch_exact:
  assumes "uart_reachable u" and "advance_credit_ticks u = 0" and "prefixes_ok 0 span xs"
  shows "\<exists>vs u'. run_at uart_io_at xs u = Some (vs, u') \<and>
    (vs, uart_advance_master_ticks u' span) =
      run_live (\<lambda>n u. uart_advance_elapsed_ticks u n) uart_io 0 span xs u"
proof -
  have c: "u\<lparr>advance_credit_ticks := 0\<rparr> = u" using assms (2) by (cases u) simp
  show ?thesis
    using uart_batch.batch_live [OF uart_reachable_ok [OF assms (1)] _ assms (3)] assms (2)
      uart_batch.run_live_set [of 0 span xs 0 u]
    by (simp add: c)
qed

theorem uart_batch_exact_witness:
  "\<exists>vs u'. run_at uart_io_at [(10, In 0x3fd), (332865, In 0x3fd), (332865, Out 0x3f8 0x43)] busy_uart = Some (vs, u') \<and>
    (vs, uart_advance_master_ticks u' 400000) =
      run_live (\<lambda>n u. uart_advance_elapsed_ticks u n) uart_io 0 400000
        [(10, In 0x3fd), (332865, In 0x3fd), (332865, Out 0x3f8 0x43)] busy_uart"
  using busy_uart_reachable by (intro uart_batch_exact) (simp_all add: busy_uart_value)

text \<open>C13: The interrupt deadline a serial port publishes is exact: while its line is not asserted,
  an advance arms a new interrupt edge if and only if it reaches the deadline.\<close>

theorem uart_irq_deadline_exact:
  assumes "uart_reachable u" and "\<not> irq_asserted u"
  shows "irq_armed (uart_advance_elapsed_ticks u n) \<longleftrightarrow>
    irq_armed u \<or> (case uart_ticks_until_irq u of None \<Rightarrow> False | Some d \<Rightarrow> d \<le> n)"
  using irq_deadline_exact [OF uart_reachable_ok [OF assms (1)] assms (2)] by (simp add: reached_def)

lemma busy_uart_deadline: "uart_ticks_until_irq busy_uart = Some 332865"
  by (simp add: uart_ticks_until_irq_def receiver_irq_deadline_def transmitter_irq_deadline_def busy_uart_value
      test_or saturating_add64_def saturating_mul64_def u64_max_def bit_numeral_rec)

theorem uart_irq_deadline_exact_witness:
  "\<not> irq_armed (uart_advance_elapsed_ticks busy_uart 332864) \<and> irq_armed (uart_advance_elapsed_ticks busy_uart 332865)"
  using uart_irq_deadline_exact [OF busy_uart_reachable, of 332864] uart_irq_deadline_exact [OF busy_uart_reachable, of 332865]
    busy_uart_deadline by (simp add: busy_uart_value)

text \<open>C32: Outside loopback every byte written to a serial port leaves it, in order and exactly
  when \<open>ticks_until_idle\<close> says: no byte is lost or reordered by an advance, and the transmitter
  is empty after \<open>n\<close> ticks if and only if \<open>n\<close> is at least that bound, with the whole queue sent.\<close>

theorem uart_drains:
  assumes "uart_reachable u" and "\<not> test (mcr u) MCR_LOOP" and "tx_shift u = Some b"
  shows "tx_output (uart_advance_elapsed_ticks u n) @ queued (uart_advance_elapsed_ticks u n) = tx_output u @ b # tx_fifo u \<and>
    (tx_shift (uart_advance_elapsed_ticks u n) = None \<longleftrightarrow> uart_ticks_until_idle u \<le> n) \<and>
    (uart_ticks_until_idle u \<le> n \<longrightarrow> tx_output (uart_advance_elapsed_ticks u n) = tx_output u @ b # tx_fifo u)"
proof -
  let ?v = "uart_advance_elapsed_ticks u n"
  have ok: "uart_ok u" by (rule uart_reachable_ok [OF assms (1)])
  have l: "length (tx_fifo u) + 1 \<le> 17" using tx_fifo_bound [OF ok] by simp
  have idle: "uart_ticks_until_idle u = drain_ticks u"
    using delivery_fits [OF ok l] assms (3) by (simp add: uart_ticks_until_idle_def drain_ticks_def)
  have d: "tx_output ?v @ queued ?v = tx_output u @ queued u" "drain_ticks ?v = drain_ticks u - n"
    using drain_exact [OF ok, of n] assms (2) by simp_all
  have z: "tx_shift ?v = None \<longleftrightarrow> drain_ticks u \<le> n"
    using drain_zero [OF advance_ok [OF ok], of n] d by simp
  have "queued ?v = []" if "tx_shift ?v = None"
    using that advance_ok [OF ok, of n] by (simp add: queued_def uart_ok_def tx_ok_def)
  moreover have "queued u = b # tx_fifo u" using assms (3) by (simp add: queued_def)
  ultimately show ?thesis using d z idle by auto
qed

theorem uart_drains_witness:
  "tx_shift (uart_advance_elapsed_ticks busy_uart 665729) \<noteq> None \<and>
    tx_output (uart_advance_elapsed_ticks busy_uart 665730) = [0x41, 0x42]"
proof -
  have "uart_ticks_until_idle busy_uart = 665730" "tx_shift busy_uart = Some 0x41" "\<not> test (mcr busy_uart) MCR_LOOP"
    "tx_output busy_uart = []" "tx_fifo busy_uart = [0x42]"
    by (simp_all add: uart_ticks_until_idle_def busy_uart_value u64_max_def bit_numeral_rec)
  then show ?thesis
    using uart_drains [OF busy_uart_reachable, of "0x41" 665729] uart_drains [OF busy_uart_reachable, of "0x41" 665730]
    by simp
qed

text \<open>
  A port in loopback with its FIFOs on: one character has been received and timed out, its edge
  has been taken, and a second character is under way.
\<close>

definition loop_uart :: uart where
  "loop_uart = out_bytes [(0x3fa, 0xc1), (0x3fc, 0x18), (0x3f9, 0x01), (0x3f8, 0x41)] uart_default"

definition timed_out_uart :: uart where
  "timed_out_uart = out_bytes [(0x3f8, 0x42)] (snd (take_irq (uart_advance_master_ticks loop_uart 1664325)))"

definition fifo_uart :: uart where
  "fifo_uart = uart_default\<lparr>fcr := 0xc1, mcr := 0x18, msr := 0x88, ier := 0x01, thre_pending := True\<rparr>"

lemma fifo_uart_sel [simp]:
  "character_ticks fifo_uart = 332865" "capacity fifo_uart = 16" "rx_trigger fifo_uart = 14" "fifo_enabled fifo_uart"
  "base fifo_uart = 0x3f8" "fcr fifo_uart = 0xc1" "mcr fifo_uart = 0x18" "msr fifo_uart = 0x88"
  "ier fifo_uart = 0x01" "thre_pending fifo_uart" "lcr fifo_uart = 0" "lsr fifo_uart = 0x60"
  "rx_fifo fifo_uart = []" "tx_fifo fifo_uart = []" "tx_shift fifo_uart = None"
  "rx_timeout_pending fifo_uart = False" "rx_timeout_remaining fifo_uart = None" "tx_ticks_remaining fifo_uart = 0"
  "irq_asserted fifo_uart = False" "irq_armed fifo_uart = False" "advance_credit_ticks fifo_uart = 0"
  by (simp_all add: fifo_uart_def)
    (simp_all add: capacity_def rx_trigger_def fifo_enabled_def FIFO_SIZE_def bit_numeral_rec)

lemma loop_uart_value:
  "loop_uart = fifo_uart\<lparr>lsr := 0x20, tx_shift := Some 0x41, tx_ticks_remaining := 332865\<rparr>"
  by (simp add: loop_uart_def fifo_uart_def uart_eval write_fcr_def update_loopback_msr_def MSR_DELTAS_def bit_if_def
      Let_def capacity_def fifo_enabled_def rx_trigger_def FIFO_SIZE_def del: test_mask)

lemmas elapse_eval = elapse_def elapse_timers_def deliver_byte_def receive_def armed_timeout_def
  start_next_transmit_def expire_timeout_def refresh_irq_def pending_code_def test_def uart_masks iir_codes Let_def

lemma loop_uart_advance:
  "uart_advance_elapsed_ticks loop_uart 1664325 =
    fifo_uart\<lparr>lsr := 0x61, rx_fifo := [0x41], rx_timeout_pending := True, irq_armed := True, irq_asserted := True\<rparr>"
proof -
  let ?v = "fifo_uart\<lparr>lsr := 0x61, rx_fifo := [0x41], rx_timeout_remaining := Some 1331460\<rparr>"
  have "uart_advance_elapsed_ticks loop_uart 1664325 = uart_advance_elapsed_ticks (elapse loop_uart 332865) 1331460"
    by (subst advance_event [of _ 332865]) (simp_all add: loop_uart_value uart_ticks_until_event_def)
  also have "elapse loop_uart 332865 = ?v"
    by (simp add: loop_uart_value elapse_eval del: test_mask)
  also have "uart_advance_elapsed_ticks ?v 1331460 = elapse ?v 1331460"
    by (subst advance_event [of _ 1331460]) (simp_all add: uart_ticks_until_event_def)
  also have "\<dots> = fifo_uart\<lparr>lsr := 0x61, rx_fifo := [0x41], rx_timeout_pending := True, irq_armed := True, irq_asserted := True\<rparr>"
    by (simp add: elapse_eval del: test_mask)
  finally show ?thesis .
qed

lemma timed_out_uart_value:
  "timed_out_uart = fifo_uart\<lparr>lsr := 0x21, tx_shift := Some 0x42, tx_ticks_remaining := 332865, rx_fifo := [0x41],
     rx_timeout_pending := True, irq_asserted := True\<rparr>"
proof -
  have c: "loop_uart\<lparr>advance_credit_ticks := 0\<rparr> = loop_uart"
    by (simp add: loop_uart_value fifo_uart_def uart_default_def)
  have "advance_credit_ticks loop_uart = 0"
    by (simp add: loop_uart_value)
  then have "uart_advance_master_ticks loop_uart 1664325 = uart_advance_elapsed_ticks loop_uart 1664325"
    by (simp add: uart_advance_master_ticks_def c)
  then show ?thesis
    by (simp add: timed_out_uart_def loop_uart_advance take_irq_def uart_eval Let_def del: test_mask)
qed

lemma timed_out_uart_edge: "irq_armed (uart_advance_elapsed_ticks timed_out_uart 1664325)"
proof -
  let ?v = "fifo_uart\<lparr>lsr := 0x61, rx_fifo := [0x41, 0x42], rx_timeout_remaining := Some 1331460\<rparr>"
  have "uart_advance_elapsed_ticks timed_out_uart 1664325 = uart_advance_elapsed_ticks (elapse timed_out_uart 332865) 1331460"
    by (subst advance_event [of _ 332865]) (simp_all add: timed_out_uart_value uart_ticks_until_event_def)
  also have "elapse timed_out_uart 332865 = ?v"
    by (simp add: timed_out_uart_value elapse_eval del: test_mask)
  also have "uart_advance_elapsed_ticks ?v 1331460 = elapse ?v 1331460"
    by (subst advance_event [of _ 1331460]) (simp_all add: uart_ticks_until_event_def)
  finally show ?thesis
    by (simp add: elapse_eval del: test_mask)
qed

text \<open>C37: The deadline has a gap. In a reachable state whose line is asserted for a receive time-out
  while a loopback character is under way, the port publishes no deadline and has no edge armed;
  yet that character withdraws the time-out, and the next time-out arms a new edge.\<close>

theorem uart_asserted_deadline_gap:
  "uart_reachable timed_out_uart \<and> uart_ticks_until_irq timed_out_uart = None \<and> \<not> irq_armed timed_out_uart \<and>
    irq_armed (uart_advance_elapsed_ticks timed_out_uart 1664325)"
proof (intro conjI)
  show "uart_reachable timed_out_uart"
    unfolding timed_out_uart_def loop_uart_def
    by (intro out_bytes_reachable uart_reachable.intros)
qed (simp_all add: timed_out_uart_edge, simp_all add: timed_out_uart_value uart_ticks_until_irq_def)

end
