(* ===== verification/Lpt.thy ===== *)
theory Lpt
  imports Clock
begin

text \<open>
  The parallel printer ports (\<open>crates/izarravm-machine/src/lpt.rs\<close>): the data, status and control
  registers, the strobe edge that starts a timed transfer, and the advance loop over the BUSY and
  ACK phases. The lemmas show the exact times of the handshake and discharge the contracts of the
  timed devices for the port.
\<close>

section \<open>Registers and state\<close>

definition LPT1_BASE :: u16 where "LPT1_BASE = 0x0378"
definition LPT2_BASE :: u16 where "LPT2_BASE = 0x0278"

definition STATUS_NOT_BUSY :: u8 where "STATUS_NOT_BUSY = 0x80"
definition STATUS_NOT_ACK :: u8 where "STATUS_NOT_ACK = 0x40"
definition STATUS_SELECT :: u8 where "STATUS_SELECT = 0x10"
definition STATUS_NOT_ERROR :: u8 where "STATUS_NOT_ERROR = 0x08"
definition STATUS_RESERVED :: u8 where "STATUS_RESERVED = 0x07"

definition STATUS_IDLE :: u8 where
  "STATUS_IDLE = STATUS_NOT_BUSY OR STATUS_NOT_ACK OR STATUS_SELECT OR STATUS_NOT_ERROR OR STATUS_RESERVED"

definition CONTROL_STROBE :: u8 where "CONTROL_STROBE = 0x01"
definition CONTROL_IRQ_ENABLE :: u8 where "CONTROL_IRQ_ENABLE = 0x10"
definition CONTROL_RESERVED :: u8 where "CONTROL_RESERVED = 0xC0"

definition BUSY_TICKS :: nat where "BUSY_TICKS = MASTER_CLOCK_HZ div 100000"
definition ACK_TICKS :: nat where "ACK_TICKS = MASTER_CLOCK_HZ div 200000"

lemmas lpt_consts = LPT1_BASE_def LPT2_BASE_def STATUS_NOT_BUSY_def STATUS_NOT_ACK_def STATUS_SELECT_def
  STATUS_NOT_ERROR_def STATUS_RESERVED_def STATUS_IDLE_def CONTROL_STROBE_def CONTROL_IRQ_ENABLE_def
  CONTROL_RESERVED_def

datatype printer_phase = Idle | Busy nat u8 | Ack nat

record lpt =
  lpt_credit :: nat
  lpt_base :: u16
  lpt_data :: u8
  lpt_control :: u8
  strobe_asserted :: bool
  lpt_output :: "u8 list"
  lpt_irq_armed :: bool
  phase :: printer_phase

definition lpt_default :: lpt where
  "lpt_default = \<lparr>lpt_credit = 0, lpt_base = LPT1_BASE, lpt_data = 0, lpt_control = 0, strobe_asserted = False,
     lpt_output = [], lpt_irq_armed = False, phase = Idle\<rparr>"

definition lpt2 :: lpt where
  "lpt2 = lpt_default\<lparr>lpt_base := LPT2_BASE\<rparr>"

definition lpt_take_irq :: "lpt \<Rightarrow> bool \<times> lpt" where
  "lpt_take_irq l = (lpt_irq_armed l, l\<lparr>lpt_irq_armed := False\<rparr>)"

section \<open>Port accesses\<close>

text \<open>\<open>port.checked_sub(self.base)\<close>.\<close>

definition lpt_offset :: "lpt \<Rightarrow> u16 \<Rightarrow> u16 option" where
  "lpt_offset l port = (if lpt_base l \<le> port then Some (port - lpt_base l) else None)"

definition lpt_mapped :: "lpt \<Rightarrow> u16 \<Rightarrow> bool" where
  "lpt_mapped l port = (case lpt_offset l port of None \<Rightarrow> False | Some r \<Rightarrow> r \<le> 2)"

definition lpt_status :: "lpt \<Rightarrow> u8" where
  "lpt_status l =
    (case phase l of
       Idle \<Rightarrow> STATUS_IDLE
     | Busy _ _ \<Rightarrow> STATUS_IDLE AND NOT STATUS_NOT_BUSY
     | Ack _ \<Rightarrow> STATUS_IDLE AND NOT STATUS_NOT_ACK)"

definition lpt_read_port :: "lpt \<Rightarrow> u16 \<Rightarrow> u8 option" where
  "lpt_read_port l port =
    (case lpt_offset l port of
       None \<Rightarrow> None
     | Some r \<Rightarrow> if r = 0 then Some (lpt_data l) else if r = 1 then Some (lpt_status l)
                 else if r = 2 then Some (lpt_control l OR CONTROL_RESERVED) else None)"

definition lpt_write_port :: "lpt \<Rightarrow> u16 \<Rightarrow> u8 \<Rightarrow> bool \<times> lpt" where
  "lpt_write_port l port value =
    (case lpt_offset l port of
       None \<Rightarrow> (False, l)
     | Some r \<Rightarrow>
         if r = 0 then (True, l\<lparr>lpt_data := value\<rparr>)
         else if r = 2 then
           let strobe_now = test value CONTROL_STROBE;
               l1 = l\<lparr>lpt_control := value\<rparr>;
               l2 = (if strobe_now \<and> \<not> strobe_asserted l1 \<and> phase l1 = Idle
                     then l1\<lparr>phase := Busy BUSY_TICKS (lpt_data l1)\<rparr> else l1)
           in (True, l2\<lparr>strobe_asserted := strobe_now\<rparr>)
         else if r = 1 then (True, l) else (False, l))"

section \<open>Time\<close>

definition lpt_ticks_until_event :: "lpt \<Rightarrow> nat option" where
  "lpt_ticks_until_event l =
    (case phase l of Idle \<Rightarrow> None | Busy ticks _ \<Rightarrow> Some ticks | Ack ticks \<Rightarrow> Some ticks)"

definition lpt_ticks_until_idle :: "lpt \<Rightarrow> nat" where
  "lpt_ticks_until_idle l =
    (case phase l of Idle \<Rightarrow> 0 | Busy ticks _ \<Rightarrow> saturating_add64 ticks ACK_TICKS | Ack ticks \<Rightarrow> ticks)"

definition lpt_ticks_until_irq :: "lpt \<Rightarrow> nat option" where
  "lpt_ticks_until_irq l =
    (case phase l of
       Busy ticks _ \<Rightarrow> if test (lpt_control l) CONTROL_IRQ_ENABLE then Some ticks else None
     | _ \<Rightarrow> None)"

text \<open>The \<open>match\<close> of one iteration of the advance loop, with its \<open>step\<close>.\<close>

definition lpt_elapse :: "lpt \<Rightarrow> nat \<Rightarrow> lpt" where
  "lpt_elapse l step =
    (case phase l of
       Busy ticks byte \<Rightarrow>
         if ticks - step = 0 then
           l\<lparr>lpt_output := lpt_output l @ [byte],
             lpt_irq_armed := (if test (lpt_control l) CONTROL_IRQ_ENABLE then True else lpt_irq_armed l),
             phase := Ack ACK_TICKS\<rparr>
         else l\<lparr>phase := Busy (ticks - step) byte\<rparr>
     | Ack ticks \<Rightarrow> if ticks - step = 0 then l\<lparr>phase := Idle\<rparr> else l\<lparr>phase := Ack (ticks - step)\<rparr>
     | Idle \<Rightarrow> l)"

text \<open>How many phases lie ahead: a step of zero ticks leaves one of them.\<close>

fun phases_left :: "printer_phase \<Rightarrow> nat" where
  "phases_left Idle = 0"
| "phases_left (Busy _ _) = 2"
| "phases_left (Ack _) = 1"

function lpt_advance_elapsed_ticks :: "lpt \<Rightarrow> nat \<Rightarrow> lpt" where
  "lpt_advance_elapsed_ticks l ticks =
    (if ticks = 0 then l
     else case lpt_ticks_until_event l of
            None \<Rightarrow> l
          | Some deadline \<Rightarrow>
              let step = min ticks deadline
              in lpt_advance_elapsed_ticks (lpt_elapse l step) (ticks - step))"
  by pat_completeness auto
termination
  by (relation "measures [\<lambda>(l, ticks). ticks, \<lambda>(l, ticks). phases_left (phase l)]")
    (auto simp: lpt_ticks_until_event_def lpt_elapse_def split: printer_phase.splits)

declare lpt_advance_elapsed_ticks.simps [simp del]

definition lpt_advance_master_ticks :: "lpt \<Rightarrow> nat \<Rightarrow> lpt" where
  "lpt_advance_master_ticks l ticks =
    (let credit = min ticks (lpt_credit l)
     in lpt_advance_elapsed_ticks (l\<lparr>lpt_credit := lpt_credit l - credit\<rparr>) (ticks - credit))"

definition lpt_catch_up :: "lpt \<Rightarrow> nat \<Rightarrow> lpt option" where
  "lpt_catch_up l prefix_ticks =
    (case checked_sub64 prefix_ticks (lpt_credit l) of
       None \<Rightarrow> None
     | Some elapsed \<Rightarrow> Some ((lpt_advance_elapsed_ticks l elapsed)\<lparr>lpt_credit := prefix_ticks\<rparr>))"

definition lpt_read_port_at :: "lpt \<Rightarrow> u16 \<Rightarrow> nat \<Rightarrow> (u8 option \<times> lpt) option" where
  "lpt_read_port_at l port prefix_ticks =
    (if \<not> lpt_mapped l port then Some (None, l)
     else case lpt_catch_up l prefix_ticks of None \<Rightarrow> None | Some l' \<Rightarrow> Some (lpt_read_port l' port, l'))"

definition lpt_write_port_at :: "lpt \<Rightarrow> u16 \<Rightarrow> u8 \<Rightarrow> nat \<Rightarrow> (bool \<times> lpt) option" where
  "lpt_write_port_at l port value prefix_ticks =
    (if \<not> lpt_mapped l port then Some (False, l)
     else case lpt_catch_up l prefix_ticks of None \<Rightarrow> None | Some l' \<Rightarrow> Some (lpt_write_port l' port value))"

section \<open>The phases in closed form\<close>

definition lpt_ok :: "lpt \<Rightarrow> bool" where
  "lpt_ok l = (case phase l of
     Idle \<Rightarrow> True | Busy t _ \<Rightarrow> 0 < t \<and> t \<le> BUSY_TICKS | Ack t \<Rightarrow> 0 < t \<and> t \<le> ACK_TICKS)"

lemma phase_ticks [simp]: "0 < BUSY_TICKS" "0 < ACK_TICKS"
  by (simp_all add: BUSY_TICKS_def ACK_TICKS_def MASTER_CLOCK_HZ_def)

lemma lpt_advance_0 [simp]: "lpt_advance_elapsed_ticks l 0 = l"
  by (subst lpt_advance_elapsed_ticks.simps) simp

lemma lpt_advance_idle: "phase l = Idle \<Longrightarrow> lpt_advance_elapsed_ticks l n = l"
  by (subst lpt_advance_elapsed_ticks.simps) (simp add: lpt_ticks_until_event_def)

lemma lpt_advance_ack:
  assumes "phase l = Ack t" and "0 < t"
  shows "lpt_advance_elapsed_ticks l n = l\<lparr>phase := (if t \<le> n then Idle else Ack (t - n))\<rparr>"
proof (cases "n = 0")
  case True
  with assms show ?thesis by (cases l) simp
next
  case False
  with assms show ?thesis
    by (subst lpt_advance_elapsed_ticks.simps)
      (auto simp: lpt_ticks_until_event_def lpt_elapse_def Let_def min_def lpt_advance_idle)
qed

text \<open>The state right after the acknowledge edge of a byte.\<close>

definition acknowledged :: "lpt \<Rightarrow> u8 \<Rightarrow> lpt" where
  "acknowledged l b = l\<lparr>lpt_output := lpt_output l @ [b],
     lpt_irq_armed := (if test (lpt_control l) CONTROL_IRQ_ENABLE then True else lpt_irq_armed l),
     phase := Ack ACK_TICKS\<rparr>"

lemma acknowledged_sel [simp]:
  "lpt_output (acknowledged l b) = lpt_output l @ [b]" "phase (acknowledged l b) = Ack ACK_TICKS"
  "lpt_irq_armed (acknowledged l b) \<longleftrightarrow> lpt_irq_armed l \<or> test (lpt_control l) CONTROL_IRQ_ENABLE"
  by (simp_all add: acknowledged_def)

lemma lpt_advance_busy:
  assumes "phase l = Busy t b" and "0 < t"
  shows "lpt_advance_elapsed_ticks l n =
    (if n < t then l\<lparr>phase := Busy (t - n) b\<rparr> else lpt_advance_elapsed_ticks (acknowledged l b) (n - t))"
proof (cases "n = 0")
  case True
  with assms show ?thesis by (cases l) simp
next
  case False
  with assms show ?thesis
    by (subst lpt_advance_elapsed_ticks.simps)
      (auto simp: lpt_ticks_until_event_def lpt_elapse_def acknowledged_def Let_def min_def)
qed

lemmas lpt_advance = lpt_advance_idle lpt_advance_ack lpt_advance_busy

lemma lpt_acknowledged_advance:
  "lpt_advance_elapsed_ticks (acknowledged l b) n =
    (acknowledged l b)\<lparr>phase := (if ACK_TICKS \<le> n then Idle else Ack (ACK_TICKS - n))\<rparr>"
  by (rule lpt_advance_ack) (simp_all add: acknowledged_def)

lemma lpt_advance_ok: "lpt_ok l \<Longrightarrow> lpt_ok (lpt_advance_elapsed_ticks l n)"
  by (cases "phase l")
    (auto simp: lpt_ok_def lpt_advance_idle lpt_advance_ack lpt_advance_busy lpt_acknowledged_advance)

lemma lpt_advance_add:
  assumes "lpt_ok l"
  shows "lpt_advance_elapsed_ticks l (m + n) = lpt_advance_elapsed_ticks (lpt_advance_elapsed_ticks l m) n"
proof (cases "phase l")
  case Idle
  then show ?thesis by (simp add: lpt_advance_idle)
next
  case (Ack t)
  with assms have "0 < t" by (simp add: lpt_ok_def)
  with Ack show ?thesis by (auto simp: lpt_advance_ack lpt_advance_idle)
next
  case (Busy t b)
  with assms have t: "0 < t" by (simp add: lpt_ok_def)
  show ?thesis
  proof (cases "m < t")
    case True
    have "acknowledged (l\<lparr>phase := Busy (t - m) b\<rparr>) b = acknowledged l b"
      by (simp add: acknowledged_def)
    with True Busy t show ?thesis
      by (auto simp: lpt_advance_busy add.commute)
  next
    case False
    with Busy t show ?thesis
      by (auto simp: lpt_advance_busy lpt_acknowledged_advance lpt_advance_ack lpt_advance_idle)
  qed
qed

section \<open>The contracts of the timed devices\<close>

interpretation lpt_time: tick_device lpt_ok "\<lambda>n l. lpt_advance_elapsed_ticks l n"
  by unfold_locales (simp_all add: lpt_advance_ok lpt_advance_add)

interpretation lpt_deadline: deadline_device lpt_ok "\<lambda>n l. lpt_advance_elapsed_ticks l n"
  lpt_ticks_until_irq lpt_irq_armed
proof unfold_locales
  fix l :: lpt and n :: nat
  assume ok: "lpt_ok l" and q: "case lpt_ticks_until_irq l of None \<Rightarrow> True | Some d \<Rightarrow> n < d"
  show "lpt_irq_armed (lpt_advance_elapsed_ticks l n) = lpt_irq_armed l"
  proof (cases "phase l")
    case Idle
    then show ?thesis by (simp add: lpt_advance_idle)
  next
    case (Ack t)
    with ok show ?thesis by (simp add: lpt_ok_def lpt_advance_ack)
  next
    case (Busy t b)
    with ok q show ?thesis
      by (auto simp: lpt_ok_def lpt_ticks_until_irq_def lpt_advance_busy lpt_acknowledged_advance
          split: if_splits)
  qed
qed

definition lpt_io :: "io_access \<Rightarrow> lpt \<Rightarrow> u8 option \<times> lpt" where
  "lpt_io a l = (case a of In port \<Rightarrow> (lpt_read_port l port, l) | Out port v \<Rightarrow> (None, snd (lpt_write_port l port v)))"

definition lpt_decodes :: "lpt \<Rightarrow> io_access \<Rightarrow> bool" where
  "lpt_decodes l a = (case a of In port \<Rightarrow> lpt_mapped l port | Out port v \<Rightarrow> lpt_mapped l port)"

definition lpt_io_at :: "lpt \<Rightarrow> nat \<Rightarrow> io_access \<Rightarrow> (u8 option \<times> lpt) option" where
  "lpt_io_at l prefix a =
    (case a of In port \<Rightarrow> lpt_read_port_at l port prefix
     | Out port v \<Rightarrow> map_option (\<lambda>(_, l'). (None, l')) (lpt_write_port_at l port v prefix))"

lemma lpt_advance_credit:
  "lpt_advance_elapsed_ticks (l\<lparr>lpt_credit := c\<rparr>) n = (lpt_advance_elapsed_ticks l n)\<lparr>lpt_credit := c\<rparr>"
proof (induction l n rule: lpt_advance_elapsed_ticks.induct)
  case (1 l n)
  have e: "lpt_elapse (l\<lparr>lpt_credit := c\<rparr>) k = (lpt_elapse l k)\<lparr>lpt_credit := c\<rparr>" for k
    by (simp add: lpt_elapse_def split: printer_phase.splits)
  have t: "lpt_ticks_until_event (l\<lparr>lpt_credit := c\<rparr>) = lpt_ticks_until_event l"
    by (simp add: lpt_ticks_until_event_def)
  show ?case
    using 1 by (subst (1 2) lpt_advance_elapsed_ticks.simps) (auto simp: e t Let_def split: option.splits)
qed

lemma lpt_advance_base: "lpt_base (lpt_advance_elapsed_ticks l n) = lpt_base l"
proof (induction l n rule: lpt_advance_elapsed_ticks.induct)
  case (1 l n)
  have "lpt_base (lpt_elapse l k) = lpt_base l" for k
    by (simp add: lpt_elapse_def split: printer_phase.splits)
  with 1 show ?case
    by (subst lpt_advance_elapsed_ticks.simps) (auto simp: Let_def split: option.splits)
qed

lemma lpt_write_ok: "lpt_ok l \<Longrightarrow> lpt_ok (snd (lpt_write_port l port v))"
  by (auto simp: lpt_ok_def lpt_write_port_def Let_def split: option.splits printer_phase.splits)

lemma lpt_unmapped: "\<not> lpt_mapped l port \<Longrightarrow> lpt_read_port l port = None \<and> lpt_write_port l port v = (False, l)"
  by (auto simp: lpt_mapped_def lpt_read_port_def lpt_write_port_def split: option.splits)

interpretation lpt_batch: credit_device lpt_ok "\<lambda>n l. lpt_advance_elapsed_ticks l n"
  lpt_credit "\<lambda>c l. l\<lparr>lpt_credit := c\<rparr>" lpt_io lpt_decodes lpt_io_at lpt_advance_master_ticks
proof unfold_locales
  fix l :: lpt and a :: io_access and c n p :: nat
  show "lpt_ok (l\<lparr>lpt_credit := c\<rparr>) = lpt_ok l"
    by (simp add: lpt_ok_def)
  show "lpt_io a (l\<lparr>lpt_credit := c\<rparr>) = apsnd (\<lambda>l. l\<lparr>lpt_credit := c\<rparr>) (lpt_io a l)"
    by (cases a) (auto simp: lpt_io_def lpt_read_port_def lpt_write_port_def lpt_offset_def lpt_status_def Let_def)
  show "lpt_io_at l p a =
      (if \<not> lpt_decodes l a then Some (lpt_io a l)
       else if lpt_credit l \<le> p
       then Some (lpt_io a ((lpt_advance_elapsed_ticks l (p - lpt_credit l))\<lparr>lpt_credit := p\<rparr>)) else None)"
    by (cases a) (auto simp: lpt_io_at_def lpt_io_def lpt_decodes_def lpt_read_port_at_def lpt_write_port_at_def
        lpt_catch_up_def checked_sub64_def lpt_unmapped prod_eq_iff split_beta)
  show "lpt_advance_master_ticks l n =
      lpt_advance_elapsed_ticks (l\<lparr>lpt_credit := lpt_credit l - n\<rparr>) (n - lpt_credit l)"
    by (simp add: lpt_advance_master_ticks_def Let_def min_def)
  show "lpt_ok l \<Longrightarrow> lpt_ok (snd (lpt_io a l))"
    by (cases a) (simp_all add: lpt_io_def lpt_write_ok)
  show "\<not> lpt_decodes l a \<Longrightarrow> snd (lpt_io a l) = l"
    by (cases a) (simp_all add: lpt_io_def lpt_decodes_def lpt_unmapped)
  show "lpt_decodes (lpt_advance_elapsed_ticks l n) a = lpt_decodes l a"
    by (cases a) (simp_all add: lpt_decodes_def lpt_mapped_def lpt_offset_def lpt_advance_base)
  then show "\<not> lpt_decodes l a \<Longrightarrow> fst (lpt_io a (lpt_advance_elapsed_ticks l n)) = fst (lpt_io a l)"
    by (cases a) (simp_all add: lpt_io_def lpt_decodes_def lpt_unmapped)
qed (simp_all add: lpt_advance_credit)

section \<open>Properties\<close>

text \<open>
  The sequence a polled driver runs: latch the byte, drop the strobe, raise it. The port must be
  idle, else the edge is swallowed.
\<close>

definition print_byte :: "lpt \<Rightarrow> u8 \<Rightarrow> u8 \<Rightarrow> lpt" where
  "print_byte l byte control =
    (let l1 = snd (lpt_write_port l (lpt_base l) byte);
         l2 = snd (lpt_write_port l1 (lpt_base l + 2) (control AND NOT CONTROL_STROBE))
     in snd (lpt_write_port l2 (lpt_base l + 2) (control OR CONTROL_STROBE)))"

lemma strobe_bits: "\<not> test (c AND NOT CONTROL_STROBE) CONTROL_STROBE" "test (c OR CONTROL_STROBE) CONTROL_STROBE"
proof -
  have t: "test w CONTROL_STROBE \<longleftrightarrow> bit w 0" for w
    using and_push_bit_1_nonzero [of w 0] by (simp add: test_def CONTROL_STROBE_def)
  show "\<not> test (c AND NOT CONTROL_STROBE) CONTROL_STROBE" "test (c OR CONTROL_STROBE) CONTROL_STROBE"
    unfolding t by (simp_all add: CONTROL_STROBE_def bit_simps)
qed

lemma lpt_offsets:
  assumes "lpt_base l = LPT1_BASE \<or> lpt_base l = LPT2_BASE"
  shows "lpt_offset l (lpt_base l) = Some 0" "lpt_offset l (lpt_base l + 2) = Some 2"
  using assms by (auto simp: lpt_offset_def lpt_consts)

lemma print_byte_value:
  assumes "lpt_base l = LPT1_BASE \<or> lpt_base l = LPT2_BASE" and "phase l = Idle"
  shows "print_byte l byte control =
    l\<lparr>lpt_data := byte, lpt_control := control OR CONTROL_STROBE, phase := Busy BUSY_TICKS byte, strobe_asserted := True\<rparr>"
proof -
  have "lpt_offset (l\<lparr>lpt_data := d\<rparr>) p = lpt_offset l p"
    "lpt_offset (l\<lparr>lpt_data := d, lpt_control := c, strobe_asserted := z\<rparr>) p = lpt_offset l p" for d c z p
    by (simp_all add: lpt_offset_def)
  then show ?thesis
    using assms by (simp add: print_byte_def lpt_write_port_def lpt_offsets strobe_bits Let_def)
qed

text \<open>C33: The printer handshake has exact times. A byte strobed into an idle port is captured, and
  its interrupt armed if enabled, from \<open>BUSY_TICKS\<close> on and not before; the port reads busy until
  then, acknowledges until \<open>ticks_until_idle\<close>, and is idle and ready from that tick on.\<close>

theorem lpt_handshake:
  assumes "lpt_base l = LPT1_BASE \<or> lpt_base l = LPT2_BASE" and "phase l = Idle"
  shows "let p = print_byte l byte control; q = lpt_advance_elapsed_ticks p n in
    (lpt_output q = (if BUSY_TICKS \<le> n then lpt_output l @ [byte] else lpt_output l)) \<and>
    (lpt_irq_armed q \<longleftrightarrow> lpt_irq_armed l \<or>
       (case lpt_ticks_until_irq p of None \<Rightarrow> False | Some d \<Rightarrow> d \<le> n)) \<and>
    lpt_status q = (if n < BUSY_TICKS then 0x5f else if n < lpt_ticks_until_idle p then 0x9f else 0xdf) \<and>
    (phase q = Idle \<longleftrightarrow> lpt_ticks_until_idle p \<le> n) \<and>
    lpt_ticks_until_idle p = BUSY_TICKS + ACK_TICKS"
proof -
  let ?p = "print_byte l byte control"
  have p: "phase ?p = Busy BUSY_TICKS byte" "lpt_output ?p = lpt_output l" "lpt_irq_armed ?p = lpt_irq_armed l"
    by (simp_all add: print_byte_value [OF assms])
  have idle: "lpt_ticks_until_idle ?p = BUSY_TICKS + ACK_TICKS"
    by (simp add: lpt_ticks_until_idle_def p saturating_add64_def sat64_def)
      (simp add: BUSY_TICKS_def ACK_TICKS_def MASTER_CLOCK_HZ_def u64_max_def)
  have irq: "lpt_ticks_until_irq ?p = (if test (lpt_control ?p) CONTROL_IRQ_ENABLE then Some BUSY_TICKS else None)"
    by (simp add: lpt_ticks_until_irq_def p)
  have adv: "lpt_advance_elapsed_ticks ?p n =
      (if n < BUSY_TICKS then ?p\<lparr>phase := Busy (BUSY_TICKS - n) byte\<rparr>
       else (acknowledged ?p byte)\<lparr>phase := (if ACK_TICKS \<le> n - BUSY_TICKS then Idle else Ack (ACK_TICKS - (n - BUSY_TICKS)))\<rparr>)"
    by (simp add: lpt_advance_busy [OF p (1)] lpt_acknowledged_advance)
  show ?thesis
    unfolding Let_def idle irq adv by (auto simp: p lpt_status_def lpt_consts)
qed

theorem lpt_handshake_witness:
  "lpt_output (lpt_advance_elapsed_ticks (print_byte lpt_default 0x41 0x10) 54779) = [] \<and>
   lpt_output (lpt_advance_elapsed_ticks (print_byte lpt_default 0x41 0x10) 54780) = [0x41] \<and>
   lpt_irq_armed (lpt_advance_elapsed_ticks (print_byte lpt_default 0x41 0x10) 54780)"
proof -
  have d: "lpt_base lpt_default = LPT1_BASE \<or> lpt_base lpt_default = LPT2_BASE" "phase lpt_default = Idle"
    by (simp_all add: lpt_default_def)
  have "BUSY_TICKS = 54780" by (simp add: BUSY_TICKS_def MASTER_CLOCK_HZ_def)
  moreover have "lpt_ticks_until_irq (print_byte lpt_default 0x41 0x10) = Some BUSY_TICKS"
    by (simp add: print_byte_value [OF d] lpt_ticks_until_irq_def test_def lpt_consts)
  ultimately show ?thesis
    using lpt_handshake [OF d, of "0x41" "0x10" 54779] lpt_handshake [OF d, of "0x41" "0x10" 54780]
    by (simp add: Let_def) (simp add: lpt_default_def)
qed

end
