(* ===== verification/Mouse.thy ===== *)
theory Mouse
  imports Clock
begin

text \<open>
  The PS/2 mouse behind the keyboard controller (\<open>crates/izarravm-machine/src/mouse.rs\<close>): the host
  feeds motion into accumulators and the device samples them into three- or four-byte packets at
  its sample rate. Signed 32-bit values are integers with the saturation written out. The lemmas
  show that what the packets carry and what stays accumulated always add up to what was fed.
\<close>

section \<open>State\<close>

definition i32_max :: int where "i32_max = 2147483647"
definition i32_min :: int where "i32_min = - 2147483648"

definition saturating_add_i32 :: "int \<Rightarrow> int \<Rightarrow> int" where
  "saturating_add_i32 a b = max i32_min (min i32_max (a + b))"

definition clamp_int :: "int \<Rightarrow> int \<Rightarrow> int \<Rightarrow> int" where
  "clamp_int lo hi v = (if v < lo then lo else if hi < v then hi else v)"

record ps2_mouse =
  mqueue :: "u8 list"
  reporting :: bool
  sample_rate :: u8
  resolution :: u8
  scaling_2to1 :: bool
  buttons :: u8
  expecting_data :: "u8 option"
  device_id :: u8
  intellimouse :: bool
  rate_history :: "u8 \<times> u8 \<times> u8"
  pending_dx :: int
  pending_dy :: int
  pending_dz :: int
  host_buttons :: u8

definition mouse_default :: ps2_mouse where
  "mouse_default =
    \<lparr>mqueue = [], reporting = False, sample_rate = 100, resolution = 2, scaling_2to1 = False, buttons = 0,
     expecting_data = None, device_id = 0x00, intellimouse = False, rate_history = (0, 0, 0),
     pending_dx = 0, pending_dy = 0, pending_dz = 0, host_buttons = 0\<rparr>"

section \<open>Operations\<close>

definition host_update :: "ps2_mouse \<Rightarrow> int \<Rightarrow> int \<Rightarrow> int \<Rightarrow> u8 \<Rightarrow> ps2_mouse" where
  "host_update m dx dy dz bs =
    m\<lparr>pending_dx := saturating_add_i32 (pending_dx m) dx, pending_dy := saturating_add_i32 (pending_dy m) dy,
      pending_dz := saturating_add_i32 (pending_dz m) dz, host_buttons := bs AND 0x07\<rparr>"

definition state_pending :: "ps2_mouse \<Rightarrow> bool" where
  "state_pending m \<longleftrightarrow>
    reporting m \<and> (pending_dx m \<noteq> 0 \<or> pending_dy m \<noteq> 0 \<or> pending_dz m \<noteq> 0 \<or> host_buttons m \<noteq> buttons m)"

definition sample_period_ticks :: "ps2_mouse \<Rightarrow> nat" where
  "sample_period_ticks m = MASTER_CLOCK_HZ div max (unat (sample_rate m)) 1"

definition drop_pending :: "ps2_mouse \<Rightarrow> ps2_mouse" where
  "drop_pending m = m\<lparr>pending_dx := 0, pending_dy := 0, pending_dz := 0, buttons := host_buttons m\<rparr>"

definition set_reporting :: "ps2_mouse \<Rightarrow> bool \<Rightarrow> ps2_mouse" where
  "set_reporting m on = (let m1 = m\<lparr>reporting := on\<rparr> in if \<not> on then drop_pending m1 else m1)"

definition queue_movement :: "ps2_mouse \<Rightarrow> int \<Rightarrow> int \<Rightarrow> u8 \<Rightarrow> int \<Rightarrow> bool \<times> ps2_mouse" where
  "queue_movement m dx dy bs dz =
    (let m1 = m\<lparr>buttons := bs AND 0x07\<rparr> in
     if \<not> reporting m1 then (False, m1)
     else let cx = clamp_int (- 256) 255 dx;
              cy = clamp_int (- 256) 255 (- dy);
              byte0 = (0x08 OR (bs AND 0x07)) OR (if cx < 0 then 0x10 else 0) OR (if cy < 0 then 0x20 else 0);
              packet = [byte0, word_of_int cx, word_of_int cy]
                       @ (if intellimouse m1 then [word_of_int (clamp_int (- 8) 7 dz)] else [])
          in (True, m1\<lparr>mqueue := mqueue m1 @ packet\<rparr>))"

definition sample :: "ps2_mouse \<Rightarrow> bool \<times> ps2_mouse" where
  "sample m =
    (if \<not> reporting m then (False, drop_pending m)
     else if \<not> state_pending m \<or> mqueue m \<noteq> [] then (False, m)
     else let dx = clamp_int (- 256) 255 (pending_dx m);
              dy = clamp_int (- 255) 256 (pending_dy m);
              m1 = m\<lparr>pending_dx := pending_dx m - dx, pending_dy := pending_dy m - dy\<rparr>;
              dz = (if intellimouse m1 then clamp_int (- 8) 7 (pending_dz m1) else 0);
              m2 = m1\<lparr>pending_dz := (if intellimouse m1 then pending_dz m1 - dz else 0)\<rparr>
          in queue_movement m2 dx dy (host_buttons m2) dz)"

definition enable_wheel :: "ps2_mouse \<Rightarrow> ps2_mouse" where
  "enable_wheel m = m\<lparr>device_id := 0x03, intellimouse := True\<rparr>"

definition set_sample_rate :: "ps2_mouse \<Rightarrow> u8 \<Rightarrow> ps2_mouse" where
  "set_sample_rate m rate =
    (let (_, h1, h2) = rate_history m;
         m1 = m\<lparr>sample_rate := rate, rate_history := (h1, h2, rate)\<rparr>
     in if rate_history m1 = (200, 100, 80) then enable_wheel m1 else m1)"

definition set_sample_rate_code :: "ps2_mouse \<Rightarrow> u8 \<Rightarrow> bool \<times> ps2_mouse" where
  "set_sample_rate_code m code =
    (case map_of [(0, 10), (1, 20), (2, 40), (3, 60), (4, 80), (5, 100), (6, 200)] code of
       None \<Rightarrow> (False, m)
     | Some rate \<Rightarrow> (True, set_sample_rate m rate))"

text \<open>The queue extended by the bytes the device answers with.\<close>

definition reply :: "ps2_mouse \<Rightarrow> u8 list \<Rightarrow> ps2_mouse" where
  "reply m bs = m\<lparr>mqueue := mqueue m @ bs\<rparr>"

text \<open>The defaults that reset (\<open>0xFF\<close>) and set-defaults (\<open>0xF6\<close>) both restore.\<close>

definition restore_defaults :: "ps2_mouse \<Rightarrow> ps2_mouse" where
  "restore_defaults m =
    (set_reporting m False)\<lparr>sample_rate := 100, resolution := 2, scaling_2to1 := False, device_id := 0x00,
      intellimouse := False, rate_history := (0, 0, 0)\<rparr>"

definition mouse_write_byte :: "ps2_mouse \<Rightarrow> u8 \<Rightarrow> ps2_mouse" where
  "mouse_write_byte m v =
    (case expecting_data m of
       Some cmd \<Rightarrow>
         let m1 = m\<lparr>expecting_data := None\<rparr>;
             m2 = (if cmd = 0xF3 then set_sample_rate m1 v else if cmd = 0xE8 then m1\<lparr>resolution := v\<rparr> else m1)
         in reply m2 [0xFA]
     | None \<Rightarrow>
         if v = 0xFF then reply (restore_defaults m) [0xFA, 0xAA, 0x00]
         else if v = 0xF6 then reply (restore_defaults m) [0xFA]
         else if v = 0xF4 then reply (m\<lparr>reporting := True\<rparr>) [0xFA]
         else if v = 0xF5 then reply (set_reporting m False) [0xFA]
         else if v = 0xF3 \<or> v = 0xE8 then reply (m\<lparr>expecting_data := Some v\<rparr>) [0xFA]
         else if v = 0xE7 then reply (m\<lparr>scaling_2to1 := True\<rparr>) [0xFA]
         else if v = 0xE6 then reply (m\<lparr>scaling_2to1 := False\<rparr>) [0xFA]
         else if v = 0xE9 then
           reply m [0xFA, (if scaling_2to1 m then 0x10 else 0) OR (if reporting m then 0x20 else 0) OR (buttons m AND 0x07),
                    resolution m, sample_rate m]
         else if v = 0xF2 then reply m [0xFA, device_id m]
         else reply m [0xFA])"

section \<open>What a packet says\<close>

text \<open>The nine-bit two's complement value of a sign bit and a low byte, as a driver reads it.\<close>

definition nine_bit :: "bool \<Rightarrow> u8 \<Rightarrow> int" where
  "nine_bit neg b = int (unat b) - (if neg then 256 else 0)"

text \<open>The motion in screen sense and the buttons; the driver negates y back.\<close>

fun decode_packet :: "u8 list \<Rightarrow> int \<times> int \<times> u8" where
  "decode_packet (b0 # x # y # _) = (nine_bit (test b0 0x10) x, - nine_bit (test b0 0x20) y, b0 AND 0x07)"
| "decode_packet _ = (0, 0, 0)"

text \<open>The wheel byte is a signed byte.\<close>

fun decode_wheel :: "u8 list \<Rightarrow> int" where
  "decode_wheel [_, _, _, z] = sint z"
| "decode_wheel _ = 0"

lemma nine_bit_word: "- 256 \<le> c \<Longrightarrow> c \<le> 255 \<Longrightarrow> nine_bit (c < 0) (word_of_int c) = c"
proof -
  assume c: "- 256 \<le> c" "c \<le> 255"
  have "unat (word_of_int c :: u8) = nat (c mod 256)" by (simp add: unsigned_of_int take_bit_eq_mod)
  moreover have "(c + 256) mod 256 = c + 256" if "c < 0"
    using c that by (intro mod_pos_pos_trivial) auto
  then have "c mod 256 = (if c < 0 then c + 256 else c)"
    using c by (auto simp: mod_pos_pos_trivial)
  ultimately show ?thesis using c by (auto simp: nine_bit_def)
qed

lemma clamp_int_bounds: "lo \<le> hi \<Longrightarrow> lo \<le> clamp_int lo hi v \<and> clamp_int lo hi v \<le> hi"
  by (simp add: clamp_int_def)

lemma clamp_int_id: "lo \<le> v \<Longrightarrow> v \<le> hi \<Longrightarrow> clamp_int lo hi v = v"
  by (simp add: clamp_int_def)

lemma header_bits:
  "test (((0x08 OR (b AND 0x07)) OR (if p then 0x10 else 0) OR (if q then 0x20 else 0)) :: u8) 0x10 = p"
  "test (((0x08 OR (b AND 0x07)) OR (if p then 0x10 else 0) OR (if q then 0x20 else 0)) :: u8) 0x20 = q"
  "(((0x08 OR (b AND 0x07)) OR (if p then 0x10 else 0) OR (if q then 0x20 else 0)) :: u8) AND 0x07 = b AND 0x07"
proof -
  have t: "test w (0x10 :: u8) \<longleftrightarrow> bit w 4" "test w (0x20 :: u8) \<longleftrightarrow> bit w 5" for w
    using and_push_bit_1_nonzero [of w 4] and_push_bit_1_nonzero [of w 5] by (simp_all add: test_def)
  show "test (((0x08 OR (b AND 0x07)) OR (if p then 0x10 else 0) OR (if q then 0x20 else 0)) :: u8) 0x10 = p"
    "test (((0x08 OR (b AND 0x07)) OR (if p then 0x10 else 0) OR (if q then 0x20 else 0)) :: u8) 0x20 = q"
    unfolding t by (auto simp: bit_simps bit_numeral_rec)
  show "(((0x08 OR (b AND 0x07)) OR (if p then 0x10 else 0) OR (if q then 0x20 else 0)) :: u8) AND 0x07 = b AND 0x07"
    by (simp add: bit.conj_disj_distrib2 and.assoc)
qed

lemma sint_word_of_int_small: "- 8 \<le> z \<Longrightarrow> z \<le> 7 \<Longrightarrow> sint (word_of_int z :: u8) = z"
  by (simp add: signed_of_int signed_take_bit_int_eq_self)

lemma queue_movement_decodes:
  assumes "reporting m" and "- 256 \<le> dx" and "dx \<le> 255" and "- 255 \<le> dy" and "dy \<le> 256" and "- 8 \<le> dz" and "dz \<le> 7"
  obtains packet where "snd (queue_movement m dx dy bs dz) = m\<lparr>buttons := bs AND 0x07, mqueue := mqueue m @ packet\<rparr>"
    and "decode_packet packet = (dx, dy, bs AND 0x07)"
    and "length packet = (if intellimouse m then 4 else 3)"
    and "intellimouse m \<Longrightarrow> decode_wheel packet = dz"
    and "fst (queue_movement m dx dy bs dz)"
proof -
  define packet where "packet = [(0x08 OR (bs AND 0x07)) OR (if dx < 0 then 0x10 else 0) OR (if - dy < 0 then 0x20 else 0),
      word_of_int dx, word_of_int (- dy)] @ (if intellimouse m then [word_of_int dz] else [])"
  have c: "clamp_int (- 256) 255 dx = dx" "clamp_int (- 256) 255 (- dy) = - dy" "clamp_int (- 8) 7 dz = dz"
    using assms by (simp_all add: clamp_int_id)
  have "queue_movement m dx dy bs dz = (True, m\<lparr>buttons := bs AND 0x07, mqueue := mqueue m @ packet\<rparr>)"
    using assms (1) by (simp add: queue_movement_def Let_def c packet_def)
  moreover have "decode_packet packet = (dx, dy, bs AND 0x07)"
    unfolding packet_def append.simps decode_packet.simps header_bits
    using assms nine_bit_word [of dx] nine_bit_word [of "- dy"] by simp
  moreover have "decode_wheel packet = dz" if "intellimouse m"
    using that assms by (simp add: packet_def sint_word_of_int_small)
  ultimately show thesis by (intro that [of packet]) (simp_all add: packet_def)
qed

section \<open>Sampling rounds\<close>

text \<open>Rounds of one sample and one guest that drains the packet.\<close>

fun mouse_rounds :: "nat \<Rightarrow> ps2_mouse \<Rightarrow> u8 list list \<times> ps2_mouse" where
  "mouse_rounds 0 m = ([], m)"
| "mouse_rounds (Suc n) m =
    (let m1 = snd (sample m); (ps, m2) = mouse_rounds n (m1\<lparr>mqueue := []\<rparr>) in (mqueue m1 # ps, m2))"

definition moved :: "u8 list list \<Rightarrow> int \<times> int" where
  "moved ps = (sum_list (map (\<lambda>p. fst (decode_packet p)) ps), sum_list (map (\<lambda>p. fst (snd (decode_packet p))) ps))"

text \<open>What one sample of an idle wire does.\<close>

definition sampled :: "ps2_mouse \<Rightarrow> ps2_mouse \<Rightarrow> bool" where
  "sampled m m' \<longleftrightarrow>
    (case decode_packet (mqueue m') of (dx, dy, _) \<Rightarrow>
       dx + pending_dx m' = pending_dx m \<and> dy + pending_dy m' = pending_dy m) \<and>
    \<bar>pending_dx m'\<bar> \<le> max 0 (\<bar>pending_dx m\<bar> - 255) \<and> \<bar>pending_dy m'\<bar> \<le> max 0 (\<bar>pending_dy m\<bar> - 255) \<and>
    length (mqueue m') \<in> {0, if intellimouse m then 4 else 3} \<and>
    reporting m' \<and> host_buttons m' = host_buttons m \<and> intellimouse m' = intellimouse m \<and>
    (host_buttons m AND 0x07 = host_buttons m \<longrightarrow> buttons m' = host_buttons m)"

lemma sample_sampled:
  assumes r: "reporting m" and q: "mqueue m = []"
  shows "sampled m (snd (sample m))"
proof (cases "state_pending m")
  case False
  with r q show ?thesis by (auto simp: sample_def sampled_def state_pending_def)
next
  case True
  let ?dx = "clamp_int (- 256) 255 (pending_dx m)" and ?dy = "clamp_int (- 255) 256 (pending_dy m)"
  let ?dz = "if intellimouse m then clamp_int (- 8) 7 (pending_dz m) else 0"
  define m2 where "m2 = m\<lparr>pending_dx := pending_dx m - ?dx, pending_dy := pending_dy m - ?dy,
    pending_dz := (if intellimouse m then pending_dz m - ?dz else 0)\<rparr>"
  have e: "sample m = queue_movement m2 ?dx ?dy (host_buttons m) ?dz"
    using True r q by (simp add: sample_def m2_def Let_def)
  have "reporting m2" "- 256 \<le> ?dx" "?dx \<le> 255" "- 255 \<le> ?dy" "?dy \<le> 256" "- 8 \<le> ?dz" "?dz \<le> 7"
    using r clamp_int_bounds by (simp_all add: m2_def)
  then obtain packet where p: "snd (sample m) = m2\<lparr>buttons := host_buttons m AND 0x07, mqueue := mqueue m2 @ packet\<rparr>"
    "decode_packet packet = (?dx, ?dy, host_buttons m AND 0x07)" "length packet = (if intellimouse m2 then 4 else 3)"
    unfolding e by (rule queue_movement_decodes)
  then show ?thesis
    using r q by (simp add: sampled_def m2_def) (auto simp: clamp_int_def)
qed

lemma remaining_step:
  fixes a b c :: int
  assumes "a \<le> max 0 (b - 255 * int n)" and "b \<le> max 0 (c - 255)"
  shows "a \<le> max 0 (c - 255 * int (Suc n))"
  using assms by (cases "c \<le> 255") auto

lemma rounds_conserve:
  assumes "reporting m" and "mqueue m = []"
  shows "case mouse_rounds n m of (ps, m') \<Rightarrow>
    fst (moved ps) + pending_dx m' = pending_dx m \<and> snd (moved ps) + pending_dy m' = pending_dy m \<and>
    \<bar>pending_dx m'\<bar> \<le> max 0 (\<bar>pending_dx m\<bar> - 255 * int n) \<and> \<bar>pending_dy m'\<bar> \<le> max 0 (\<bar>pending_dy m\<bar> - 255 * int n) \<and>
    (\<forall>p \<in> set ps. length p \<in> {0, if intellimouse m then 4 else 3}) \<and>
    host_buttons m' = host_buttons m \<and>
    (0 < n \<and> host_buttons m AND 0x07 = host_buttons m \<longrightarrow> buttons m' = host_buttons m)"
  using assms
proof (induction n arbitrary: m)
  case 0
  then show ?case by (simp add: moved_def)
next
  case (Suc n)
  let ?m1 = "snd (sample m)"
  have s: "sampled m ?m1" by (rule sample_sampled [OF Suc.prems])
  obtain ps m' where r: "mouse_rounds n (?m1\<lparr>mqueue := []\<rparr>) = (ps, m')" by fastforce
  obtain dx dy b where d: "decode_packet (mqueue ?m1) = (dx, dy, b)" by (cases "decode_packet (mqueue ?m1)") auto
  have ih: "fst (moved ps) + pending_dx m' = pending_dx ?m1" "snd (moved ps) + pending_dy m' = pending_dy ?m1"
    "\<bar>pending_dx m'\<bar> \<le> max 0 (\<bar>pending_dx ?m1\<bar> - 255 * int n)" "\<bar>pending_dy m'\<bar> \<le> max 0 (\<bar>pending_dy ?m1\<bar> - 255 * int n)"
    "\<forall>p \<in> set ps. length p \<in> {0, if intellimouse ?m1 then 4 else 3}" "host_buttons m' = host_buttons ?m1"
    "0 < n \<and> host_buttons ?m1 AND 0x07 = host_buttons ?m1 \<longrightarrow> buttons m' = host_buttons ?m1"
    using Suc.IH [of "?m1\<lparr>mqueue := []\<rparr>"] s r by (auto simp: sampled_def)
  have zero: "n = 0 \<Longrightarrow> m' = ?m1\<lparr>mqueue := []\<rparr>" using r by auto
  have f: "dx + pending_dx ?m1 = pending_dx m" "dy + pending_dy ?m1 = pending_dy m"
    "\<bar>pending_dx ?m1\<bar> \<le> max 0 (\<bar>pending_dx m\<bar> - 255)" "\<bar>pending_dy ?m1\<bar> \<le> max 0 (\<bar>pending_dy m\<bar> - 255)"
    "length (mqueue ?m1) \<in> {0, if intellimouse m then 4 else 3}" "host_buttons ?m1 = host_buttons m"
    "intellimouse ?m1 = intellimouse m" "host_buttons m AND 0x07 = host_buttons m \<Longrightarrow> buttons ?m1 = host_buttons m"
    using s d by (auto simp: sampled_def)
  have "fst (moved (mqueue ?m1 # ps)) + pending_dx m' = pending_dx m" "snd (moved (mqueue ?m1 # ps)) + pending_dy m' = pending_dy m"
    using ih (1,2) f (1,2) d by (simp_all add: moved_def)
  moreover have "\<bar>pending_dx m'\<bar> \<le> max 0 (\<bar>pending_dx m\<bar> - 255 * int (Suc n))" "\<bar>pending_dy m'\<bar> \<le> max 0 (\<bar>pending_dy m\<bar> - 255 * int (Suc n))"
    by (rule remaining_step [OF ih (3) f (3)], rule remaining_step [OF ih (4) f (4)])
  moreover have "\<forall>p \<in> set (mqueue ?m1 # ps). length p \<in> {0, if intellimouse m then 4 else 3}"
    using ih (5) f (5,7) by simp
  moreover have "host_buttons m AND 0x07 = host_buttons m \<longrightarrow> buttons m' = host_buttons m"
    using ih (7) f (6,8) zero by (cases "n = 0") simp_all
  moreover have "mouse_rounds (Suc n) m = (mqueue ?m1 # ps, m')" by (simp add: r Let_def)
  ultimately show ?case using ih (6) f (6) by (simp only: prod.case) blast
qed

section \<open>Properties\<close>

text \<open>C30: Mouse motion is neither lost nor invented. Over any number of samples of a reporting mouse, with the guest
  draining each packet, the motion the packets carry and the motion still accumulated add up to what the
  host fed; the wire holds at most one packet of the device's size at a time; and once there have
  been enough samples for the nine-bit range, nothing is left over and the buttons are reported.\<close>

theorem mouse_motion_conserved:
  assumes "reporting m" and "mqueue m = []" and "mouse_rounds n m = (ps, m')"
  shows "fst (moved ps) + pending_dx m' = pending_dx m \<and> snd (moved ps) + pending_dy m' = pending_dy m \<and>
    (\<forall>p \<in> set ps. length p \<in> {0, if intellimouse m then 4 else 3}) \<and>
    (\<bar>pending_dx m\<bar> \<le> 255 * int n \<and> \<bar>pending_dy m\<bar> \<le> 255 * int n \<longrightarrow> moved ps = (pending_dx m, pending_dy m)) \<and>
    (0 < n \<and> host_buttons m AND 0x07 = host_buttons m \<longrightarrow> buttons m' = host_buttons m)"
  using rounds_conserve [OF assms (1,2), of n] assms (3) by (auto simp: prod_eq_iff)

theorem mouse_motion_conserved_witness:
  "moved (fst (mouse_rounds 2 (host_update (mouse_default\<lparr>reporting := True\<rparr>) 300 (- 400) 0 1))) = (300, - 400)"
proof -
  let ?m = "host_update (mouse_default\<lparr>reporting := True\<rparr>) 300 (- 400) 0 1"
  have "reporting ?m" "mqueue ?m = []" "pending_dx ?m = 300" "pending_dy ?m = - 400"
    by (simp_all add: host_update_def mouse_default_def saturating_add_i32_def i32_max_def i32_min_def)
  then show ?thesis
    using mouse_motion_conserved [of ?m 2 "fst (mouse_rounds 2 ?m)" "snd (mouse_rounds 2 ?m)"] by simp
qed

end
