(* ===== verification/Keyboard_Facts.thy ===== *)
theory Keyboard_Facts
  imports Keyboard
begin

text \<open>
  Facts about the keyboard controller: the state its operations keep, the split of the advance,
  the two byte streams, the delivery of a queued byte and the one way it can stall.
\<close>

section \<open>The advance loop\<close>

lemmas kbc_advance_simps = kbc_advance_master_ticks.simps

lemma kbc_advance_0 [simp]: "kbc_advance_master_ticks k 0 = k"
  by (subst kbc_advance_simps) simp

lemma kbc_advance_idle: "kbc_ticks_until_event k = None \<Longrightarrow> kbc_advance_master_ticks k n = k"
  by (subst kbc_advance_simps) simp

lemma kbc_advance_event:
  "kbc_ticks_until_event k = Some t \<Longrightarrow> 0 < t \<Longrightarrow> t \<le> n \<Longrightarrow>
    kbc_advance_master_ticks k n = kbc_advance_master_ticks (kbc_event k t) (n - t)"
  by (subst kbc_advance_simps) simp

lemma kbc_elapse_0: "kbc_elapse k 0 = k"
  by (cases k) (simp add: kbc_elapse_def map_option_idI)

lemma kbc_advance_before:
  "kbc_ticks_until_event k = Some t \<Longrightarrow> n < t \<Longrightarrow> kbc_advance_master_ticks k n = kbc_elapse k n"
  by (subst kbc_advance_simps) (simp add: kbc_elapse_0)

lemma min_opt3_le:
  assumes "min_opt (min_opt a b) c = Some t"
  shows "a = Some x \<Longrightarrow> t \<le> x" "b = Some x \<Longrightarrow> t \<le> x" "c = Some x \<Longrightarrow> t \<le> x"
  using assms by (cases a; cases b; cases c; simp)+

lemma kbc_timers_le:
  assumes "kbc_ticks_until_event k = Some t"
  shows "pending_input k \<noteq> None \<Longrightarrow> t \<le> input_ticks k" "device_byte_ticks k = Some d \<Longrightarrow> t \<le> d"
    "mouse_sample_ticks k = Some s \<Longrightarrow> t \<le> s"
  using min_opt3_le [OF assms [unfolded kbc_ticks_until_event_def]] by simp_all

lemma kbc_event_time_pos: "kbc_due k = 0 \<Longrightarrow> kbc_ticks_until_event k = Some t \<Longrightarrow> 0 < t"
  using kbc_event_now_due [of k] by (cases t) auto

lemma kbc_elapse_time: "kbc_ticks_until_event k = Some t \<Longrightarrow> kbc_ticks_until_event (kbc_elapse k n) = Some (t - n)"
  by (cases "device_byte_ticks k"; cases "mouse_sample_ticks k")
    (auto simp: kbc_ticks_until_event_def kbc_elapse_def min_def split: if_splits)

lemma kbc_elapse_add: "kbc_elapse (kbc_elapse k m) n = kbc_elapse k (m + n)"
  by (cases "device_byte_ticks k"; cases "mouse_sample_ticks k") (auto simp: kbc_elapse_def)

lemma kbc_event_elapse: "kbc_event (kbc_elapse k m) n = kbc_event k (m + n)"
  by (simp add: kbc_event_def kbc_elapse_add)

lemma kbc_elapse_due:
  assumes "kbc_due k = 0" and t: "kbc_ticks_until_event k = Some t" and "n < t"
  shows "kbc_due (kbc_elapse k n) = 0"
  using kbc_timers_le [OF t] assms (1,3)
  by (cases "device_byte_ticks k"; cases "mouse_sample_ticks k") (auto simp: kbc_due_def kbc_elapse_def)

lemma kbc_advance_due: "kbc_due k = 0 \<Longrightarrow> kbc_due (kbc_advance_master_ticks k n) = 0"
proof (induction k n rule: kbc_advance_master_ticks.induct)
  case (1 k n)
  then show ?case
    by (subst kbc_advance_simps) (auto simp: kbc_due_event kbc_elapse_due split: option.splits)
qed

lemma kbc_advance_add:
  "kbc_due k = 0 \<Longrightarrow> kbc_advance_master_ticks k (m + n) = kbc_advance_master_ticks (kbc_advance_master_ticks k m) n"
proof (induction k m rule: kbc_advance_master_ticks.induct)
  case (1 k m)
  note ok = 1 (2)
  show ?case
  proof (cases "kbc_ticks_until_event k")
    case None
    then show ?thesis by (simp add: kbc_advance_idle)
  next
    case (Some t)
    have t: "0 < t" by (rule kbc_event_time_pos [OF ok Some])
    show ?thesis
    proof (cases "t \<le> m")
      case True
      then show ?thesis
        using 1 (1) [of t] Some t by (simp add: kbc_advance_event kbc_due_event)
    next
      case False
      let ?v = "kbc_elapse k m"
      have v: "kbc_ticks_until_event ?v = Some (t - m)" by (rule kbc_elapse_time [OF Some])
      have m: "kbc_advance_master_ticks k m = ?v" using Some False by (simp add: kbc_advance_before)
      show ?thesis
      proof (cases "t \<le> m + n")
        case True
        then have "kbc_advance_master_ticks ?v n = kbc_advance_master_ticks (kbc_event ?v (t - m)) (n - (t - m))"
          using v False by (intro kbc_advance_event) auto
        also have "kbc_event ?v (t - m) = kbc_event k t" using False by (simp add: kbc_event_elapse)
        also have "n - (t - m) = m + n - t" using False True by simp
        finally show ?thesis using Some t True m by (simp add: kbc_advance_event)
      next
        case False
        then show ?thesis using Some v m \<open>\<not> t \<le> m\<close> by (simp add: kbc_advance_before kbc_elapse_add)
      qed
    qed
  qed
qed

interpretation kbc_time: tick_device "\<lambda>k. kbc_due k = 0" "\<lambda>n k. kbc_advance_master_ticks k n"
  by unfold_locales (simp_all add: kbc_advance_due kbc_advance_add)

section \<open>The status register\<close>

lemma status_masks [simp]:
  "test w STATUS_OBF \<longleftrightarrow> bit w 0" "test w STATUS_IBF \<longleftrightarrow> bit w 1" "test w STATUS_AUX \<longleftrightarrow> bit w 5"
  "test w STATUS_CMD \<longleftrightarrow> bit w 3" "test w STATUS_SYS \<longleftrightarrow> bit w 2"
  using and_push_bit_1_nonzero [of w 0] and_push_bit_1_nonzero [of w 1] and_push_bit_1_nonzero [of w 5]
    and_push_bit_1_nonzero [of w 3] and_push_bit_1_nonzero [of w 2]
  by (simp_all add: test_def STATUS_OBF_def STATUS_IBF_def STATUS_AUX_def STATUS_CMD_def STATUS_SYS_def)

lemma status_push_bit:
  "STATUS_OBF = push_bit 0 1" "STATUS_IBF = push_bit 1 1" "STATUS_AUX = push_bit 5 1"
  "STATUS_CMD = push_bit 3 1" "STATUS_SYS = push_bit 2 1"
  by (simp_all add: STATUS_OBF_def STATUS_IBF_def STATUS_AUX_def STATUS_CMD_def STATUS_SYS_def)

lemma bit_status_masks [simp]:
  "bit STATUS_OBF n \<longleftrightarrow> n = 0" "bit STATUS_IBF n \<longleftrightarrow> n = 1" "bit STATUS_AUX n \<longleftrightarrow> n = 5"
  "bit STATUS_CMD n \<longleftrightarrow> n = 3" "bit STATUS_SYS n \<longleftrightarrow> n = 2"
  by (auto simp: status_push_bit bit_simps simp del: push_bit_of_1)

definition out_ok :: "kbc \<Rightarrow> bool" where
  "out_ok k \<longleftrightarrow> (bit (status k) 5 \<longleftrightarrow> output_is_aux k) \<and> (output_is_aux k \<longrightarrow> bit (status k) 0) \<and>
    (bit (status k) 0 \<longrightarrow> kbc_output k \<noteq> None)"

definition ibf_ok :: "kbc \<Rightarrow> bool" where
  "ibf_ok k \<longleftrightarrow> (bit (status k) 1 \<longleftrightarrow> pending_input k \<noteq> None)"

lemma out_ok_schedule [simp]: "out_ok (schedule_device_byte_at k p) = out_ok k" "out_ok (schedule_device_byte k) = out_ok k"
  by (simp_all add: out_ok_def schedule_device_byte_def)

lemma out_ok_arm [simp]: "out_ok (arm_current_output k) = out_ok k"
  by (simp add: out_ok_def)

lemma out_ok_kick [simp]: "out_ok (kick_mouse_sample k) = out_ok k"
  by (simp add: out_ok_def)

lemma out_ok_latch: "out_ok k \<Longrightarrow> out_ok (latch_ready_device_byte k)"
  by (auto simp: out_ok_def latch_ready_device_byte_def Let_def bit_simps split: list.splits)

lemma out_ok_respond: "out_ok (respond_controller k r)"
  by (auto simp: out_ok_def respond_controller_def Let_def bit_simps)

lemma out_ok_update:
  "out_ok (k\<lparr>queue := a\<rparr>) = out_ok k" "out_ok (k\<lparr>command_byte := b\<rparr>) = out_ok k" "out_ok (k\<lparr>mouse := c\<rparr>) = out_ok k"
  "out_ok (k\<lparr>kbd_expecting_data := d\<rparr>) = out_ok k" "out_ok (k\<lparr>expecting_command_data := e\<rparr>) = out_ok k"
  "out_ok (k\<lparr>output_port := f\<rparr>) = out_ok k" "out_ok (k\<lparr>scan_set := g\<rparr>) = out_ok k"
  "out_ok (k\<lparr>pending_input := h\<rparr>) = out_ok k" "out_ok (k\<lparr>irq12_armed := i\<rparr>) = out_ok k"
  "out_ok (k\<lparr>device_byte_ticks := j\<rparr>) = out_ok k" "out_ok (k\<lparr>device_byte_ready := l\<rparr>) = out_ok k"
  "out_ok (k\<lparr>mouse_sample_ticks := m\<rparr>) = out_ok k" "out_ok (k\<lparr>input_ticks := n\<rparr>) = out_ok k"
  by (simp_all add: out_ok_def)

lemma out_ok_ibf: "out_ok (k\<lparr>status := status k AND NOT STATUS_IBF\<rparr>) = out_ok k"
  by (simp add: out_ok_def bit_simps)

lemma out_ok_write_keyboard: "out_ok k \<Longrightarrow> out_ok (write_keyboard_byte k v)"
  by (auto simp: write_keyboard_byte_def push_scancodes_def Let_def out_ok_update split: option.splits)

lemma out_ok_process: "out_ok k \<Longrightarrow> out_ok (process_input k i)"
  by (auto simp: process_input_def process_command_def process_data_def Let_def out_ok_respond out_ok_update
      out_ok_write_keyboard out_ok_ibf intro!: out_ok_latch split: pending_input.splits option.splits)

lemma status_bit1:
  "bit (status (latch_ready_device_byte k)) (Suc 0) = bit (status k) (Suc 0)"
  "bit (status (respond_controller k r)) (Suc 0) = bit (status k) (Suc 0)"
  by (auto simp: latch_ready_device_byte_def respond_controller_def Let_def bit_simps split: list.splits option.splits)

lemma status_write_keyboard [simp]: "status (write_keyboard_byte k v) = status k"
  by (auto simp: write_keyboard_byte_def push_scancodes_def schedule_device_byte_def Let_def split: option.splits)

lemma status_bit1_command: "bit (status (process_command k c)) (Suc 0) = bit (status k) (Suc 0)"
  by (simp add: process_command_def status_bit1)

lemma status_bit1_data: "bit (status (process_data k d)) (Suc 0) = bit (status k) (Suc 0)"
  by (auto simp: process_data_def Let_def split: option.splits)

lemma process_input_ibf: "\<not> bit (status (process_input k i)) (Suc 0)"
  by (auto simp: process_input_def schedule_device_byte_def Let_def status_bit1 status_bit1_command status_bit1_data bit_simps
      split: pending_input.splits)

section \<open>A queued byte is always on its way\<close>

definition wake_ok :: "kbc \<Rightarrow> bool" where
  "wake_ok k \<longleftrightarrow>
    (\<not> bit (status k) 0 \<and> queued_device_byte k \<and> \<not> device_byte_ready k \<longrightarrow> device_byte_ticks k \<noteq> None)"

lemma wake_ok_schedule [simp]: "wake_ok (schedule_device_byte_at k p)" "wake_ok (schedule_device_byte k)"
  by (auto simp: wake_ok_def schedule_device_byte_def schedule_device_byte_at_def queued_device_byte_def)

lemma sample_keeps_queue: "\<not> fst (sample m) \<Longrightarrow> mqueue (snd (sample m)) = mqueue m"
  by (auto simp: sample_def queue_movement_def drop_pending_def Let_def split: if_splits)

lemma wake_ok_kick: "wake_ok k \<Longrightarrow> wake_ok (kick_mouse_sample k)"
proof -
  assume ok: "wake_ok k"
  have t: "wake_ok (k\<lparr>mouse_sample_ticks := t\<rparr>) = wake_ok k" for t k
    by (simp add: wake_ok_def queued_device_byte_def)
  have "wake_ok (k\<lparr>mouse := snd (sample (mouse k))\<rparr>)" if "\<not> fst (sample (mouse k))"
    using ok sample_keeps_queue [OF that] by (simp add: wake_ok_def queued_device_byte_def)
  then show ?thesis
    using ok by (auto simp: kick_mouse_sample_def Let_def split_beta t)
qed

section \<open>Reachable states\<close>

inductive kbc_reachable :: "kbc \<Rightarrow> bool" where
  init: "kbc_reachable kbc_default"
| push: "kbc_reachable k \<Longrightarrow> kbc_reachable (push_scancodes k codes)"
| inject: "kbc_reachable k \<Longrightarrow> kbc_reachable (snd (inject_mouse k dx dy bs))"
| wheel: "kbc_reachable k \<Longrightarrow> kbc_reachable (snd (inject_mouse_wheel k dz))"
| reporting: "kbc_reachable k \<Longrightarrow> kbc_reachable (set_mouse_reporting k on)"
| enable_wheel: "kbc_reachable k \<Longrightarrow> kbc_reachable (enable_mouse_wheel k)"
| rate: "kbc_reachable k \<Longrightarrow> kbc_reachable (snd (set_mouse_sample_rate_code k code))"
| mouse_irq: "kbc_reachable k \<Longrightarrow> kbc_reachable (set_mouse_irq k on)"
| a20: "kbc_reachable k \<Longrightarrow> kbc_reachable (set_a20 k on)"
| read: "kbc_reachable k \<Longrightarrow> kbc_reachable (snd (kbc_read_port_at k port p))"
| "write": "kbc_reachable k \<Longrightarrow> kbc_reachable (snd (kbc_write_port_at k port v p))"
| advance: "kbc_reachable k \<Longrightarrow> kbc_reachable (kbc_advance_master_ticks k n)"

definition kbc_ok :: "kbc \<Rightarrow> bool" where
  "kbc_ok k \<longleftrightarrow> kbc_due k = 0 \<and> out_ok k \<and> ibf_ok k \<and> wake_ok k"

lemma due_schedule: "kbc_due k = 0 \<Longrightarrow> kbc_due (schedule_device_byte_at k p) = 0" "kbc_due k = 0 \<Longrightarrow> kbc_due (schedule_device_byte k) = 0"
  using schedule_fires [of k p] schedule_fires [of k 0]
  by (auto simp: kbc_due_def schedule_device_byte_def split: if_splits)

lemma due_kick: "kbc_due k = 0 \<Longrightarrow> kbc_due (kick_mouse_sample k) = 0"
  using kick_fires [of k] by (auto simp: kbc_due_def split: if_splits)

lemma due_latch [simp]: "kbc_due (latch_ready_device_byte k) = kbc_due k"
  by (simp add: kbc_due_def)

lemma due_update:
  "kbc_due (k\<lparr>queue := a\<rparr>) = kbc_due k" "kbc_due (k\<lparr>mouse := b\<rparr>) = kbc_due k" "kbc_due (k\<lparr>command_byte := c\<rparr>) = kbc_due k"
  "kbc_due (k\<lparr>irq12_armed := d\<rparr>) = kbc_due k" "kbc_due (k\<lparr>output_port := e\<rparr>) = kbc_due k"
  "kbc_due (k\<lparr>status := f\<rparr>) = kbc_due k" "kbc_due (k\<lparr>output_is_aux := g\<rparr>) = kbc_due k"
  "kbc_due (arm_current_output k) = kbc_due k"
  by (simp_all add: kbc_due_def)

lemma ibf_update [simp]:
  "ibf_ok (k\<lparr>queue := a\<rparr>) = ibf_ok k" "ibf_ok (k\<lparr>mouse := b\<rparr>) = ibf_ok k" "ibf_ok (k\<lparr>command_byte := c\<rparr>) = ibf_ok k"
  "ibf_ok (k\<lparr>irq12_armed := d\<rparr>) = ibf_ok k" "ibf_ok (k\<lparr>output_port := e\<rparr>) = ibf_ok k"
  "ibf_ok (k\<lparr>device_byte_ticks := f\<rparr>) = ibf_ok k" "ibf_ok (k\<lparr>device_byte_ready := g\<rparr>) = ibf_ok k"
  "ibf_ok (k\<lparr>mouse_sample_ticks := h\<rparr>) = ibf_ok k" "ibf_ok (k\<lparr>input_ticks := i\<rparr>) = ibf_ok k"
  "ibf_ok (schedule_device_byte_at k p) = ibf_ok k" "ibf_ok (schedule_device_byte k) = ibf_ok k"
  "ibf_ok (latch_ready_device_byte k) = ibf_ok k" "ibf_ok (arm_current_output k) = ibf_ok k"
  "ibf_ok (kick_mouse_sample k) = ibf_ok k"
  by (simp_all add: ibf_ok_def schedule_device_byte_def status_bit1)

lemma wake_update:
  "wake_ok (k\<lparr>output_port := e\<rparr>) = wake_ok k" "wake_ok (k\<lparr>irq12_armed := d\<rparr>) = wake_ok k"
  "mqueue m = mqueue (mouse k) \<Longrightarrow> wake_ok (k\<lparr>mouse := m\<rparr>) = wake_ok k"
  by (simp_all add: wake_ok_def queued_device_byte_def)

lemma kbc_ok_inject:
  assumes "kbc_ok k" and "mqueue m = mqueue (mouse k)"
  shows "kbc_ok (kick_mouse_sample (k\<lparr>mouse := m\<rparr>))"
  using assms wake_ok_kick [of "k\<lparr>mouse := m\<rparr>"] due_kick [of "k\<lparr>mouse := m\<rparr>"]
  by (simp add: kbc_ok_def due_update out_ok_update wake_update)

lemma kbc_ok_read: "kbc_ok k \<Longrightarrow> kbc_ok (snd (kbc_read_port_at k port p))"
proof -
  assume ok: "kbc_ok k"
  let ?k1 = "k\<lparr>status := status k AND NOT (STATUS_OBF OR STATUS_AUX), output_is_aux := False\<rparr>"
  have "kbc_due ?k1 = 0" "out_ok ?k1" "ibf_ok ?k1"
    using ok by (simp_all add: kbc_ok_def due_update out_ok_def ibf_ok_def bit_simps)
  then show ?thesis
    using ok by (auto simp: kbc_read_port_at_def Let_def kbc_ok_def intro!: due_schedule out_ok_latch)
qed

lemma kbc_ok_write: "kbc_ok k \<Longrightarrow> kbc_ok (snd (kbc_write_port_at k port v p))"
  by (auto simp: kbc_write_port_at_def Let_def kbc_ok_def kbc_due_def out_ok_def ibf_ok_def wake_ok_def
      queued_device_byte_def bit_simps split: if_splits)

lemma kbc_ok_mouse_irq: "kbc_ok k \<Longrightarrow> kbc_ok (set_mouse_irq k on)"
proof -
  assume ok: "kbc_ok k"
  have m: "test (command_byte k AND NOT 0x02) 0x10 = test (command_byte k) 0x10"
    "test (command_byte k AND NOT 0x02) 0x20 = test (command_byte k) 0x20"
    by (simp_all add: test_def and.assoc)
  show ?thesis
  proof (cases on)
    case True
    with ok show ?thesis
      by (auto simp: set_mouse_irq_def Let_def kbc_ok_def due_update out_ok_update intro!: due_schedule out_ok_latch)
  next
    case False
    have "wake_ok (k\<lparr>command_byte := command_byte k AND NOT 0x02, irq12_armed := False\<rparr>)"
      using ok m by (auto simp: wake_ok_def queued_device_byte_def kbc_ok_def)
    with False ok show ?thesis
      by (simp add: set_mouse_irq_def kbc_ok_def due_update out_ok_update)
  qed
qed

lemma kbc_ok_elapse:
  assumes "kbc_ok k" and "kbc_ticks_until_event k = Some t" and "n < t"
  shows "kbc_ok (kbc_elapse k n)"
  using assms kbc_elapse_due [OF _ assms (2,3)]
  by (auto simp: kbc_ok_def out_ok_def ibf_ok_def wake_ok_def kbc_elapse_def queued_device_byte_def)

lemma fire_input_ok: "out_ok k \<Longrightarrow> ibf_ok k \<Longrightarrow> out_ok (fire_input k) \<and> ibf_ok (fire_input k)"
  using process_input_ibf by (auto simp: fire_input_def ibf_ok_def out_ok_update intro!: out_ok_process split: option.splits)

lemma kbc_ok_event: "kbc_ok k \<Longrightarrow> kbc_ok (kbc_event k n)"
proof -
  assume "kbc_ok k"
  then have "out_ok (kbc_elapse k n)" "ibf_ok (kbc_elapse k n)"
    by (simp_all add: kbc_ok_def kbc_elapse_def out_ok_update)
  then have "out_ok (fire_input (kbc_elapse k n))" "ibf_ok (fire_input (kbc_elapse k n))"
    using fire_input_ok by blast+
  then have "out_ok (kbc_event k n)" "ibf_ok (kbc_event k n)"
    by (auto simp: kbc_event_def fire_mouse_sample_def fire_device_byte_def Let_def out_ok_update intro!: out_ok_latch)
  then show ?thesis
    using kbc_due_event [of k n] by (simp add: kbc_ok_def) (simp add: kbc_event_def)
qed

lemma kbc_ok_advance: "kbc_ok k \<Longrightarrow> kbc_ok (kbc_advance_master_ticks k n)"
proof (induction k n rule: kbc_advance_master_ticks.induct)
  case (1 k n)
  then show ?case
    by (subst kbc_advance_simps) (auto simp: kbc_ok_event kbc_ok_elapse split: option.splits)
qed

lemma kbc_reachable_ok: "kbc_reachable k \<Longrightarrow> kbc_ok k"
proof (induction rule: kbc_reachable.induct)
  case init
  then show ?case
    by (simp add: kbc_ok_def kbc_due_def out_ok_def ibf_ok_def wake_ok_def queued_device_byte_def kbc_default_def mouse_default_def)
next
  case (push k codes)
  then show ?case by (simp add: kbc_ok_def push_scancodes_def due_update out_ok_update due_schedule)
next
  case (reporting k on)
  then show ?case
    by (auto simp: set_mouse_reporting_def set_reporting_def drop_pending_def Let_def intro!: kbc_ok_inject)
next
  case (enable_wheel k)
  then show ?case
    by (simp add: enable_mouse_wheel_def enable_wheel_def kbc_ok_def due_update out_ok_update wake_update)
next
  case (rate k code)
  then show ?case
    by (auto simp: set_mouse_sample_rate_code_def set_sample_rate_code_def set_sample_rate_def enable_wheel_def Let_def
        kbc_ok_def due_update out_ok_update wake_update split: option.splits prod.splits)
next
  case (a20 k on)
  then show ?case
    by (simp add: set_a20_def kbc_ok_def due_update out_ok_update wake_update)
qed (simp_all add: inject_mouse_def inject_mouse_wheel_def host_update_def Let_def kbc_ok_inject kbc_ok_read kbc_ok_write
    kbc_ok_mouse_irq kbc_ok_advance)

end
