(* ===== verification/Keyboard_Streams.thy ===== *)
theory Keyboard_Streams
  imports Keyboard_Facts
begin

text \<open>
  The two byte streams of the keyboard controller. A stream is the unread byte in the output
  buffer, when it belongs to that device, followed by the device's queue.
\<close>

section \<open>Streams\<close>

definition latched :: "kbc \<Rightarrow> bool \<Rightarrow> u8 list" where
  "latched k aux =
    (if test (status k) STATUS_OBF \<and> output_is_aux k = aux
     then (case kbc_output k of None \<Rightarrow> [] | Some b \<Rightarrow> [b]) else [])"

definition kbd_stream :: "kbc \<Rightarrow> u8 list" where
  "kbd_stream k = latched k False @ queue k"

definition aux_stream :: "kbc \<Rightarrow> u8 list" where
  "aux_stream k = latched k True @ mqueue (mouse k)"

lemmas stream_defs = kbd_stream_def aux_stream_def latched_def

lemma streams_schedule [simp]:
  "kbd_stream (schedule_device_byte_at k p) = kbd_stream k" "aux_stream (schedule_device_byte_at k p) = aux_stream k"
  "kbd_stream (schedule_device_byte k) = kbd_stream k" "aux_stream (schedule_device_byte k) = aux_stream k"
  by (simp_all add: stream_defs schedule_device_byte_def)

lemma streams_latch [simp]:
  "kbd_stream (latch_ready_device_byte k) = kbd_stream k" "aux_stream (latch_ready_device_byte k) = aux_stream k"
  by (auto simp: stream_defs latch_ready_device_byte_def Let_def bit_simps split: list.splits)

lemma streams_respond:
  assumes "out_ok k"
  shows "kbd_stream (respond_controller k r) = r # kbd_stream k" "aux_stream (respond_controller k r) = aux_stream k"
  using assms by (auto simp: stream_defs respond_controller_def out_ok_def Let_def bit_simps split: option.splits)

lemma streams_push: "kbd_stream (push_scancodes k codes) = kbd_stream k @ codes" "aux_stream (push_scancodes k codes) = aux_stream k"
  by (simp_all add: push_scancodes_def) (simp_all add: stream_defs)

lemma streams_read:
  assumes ok: "out_ok k" and obf: "bit (status k) 0"
  obtains v k' where "kbc_read_port_at k 0x60 p = (Some v, k')"
    and "output_is_aux k \<Longrightarrow> aux_stream k = v # aux_stream k' \<and> kbd_stream k = kbd_stream k'"
    and "\<not> output_is_aux k \<Longrightarrow> kbd_stream k = v # kbd_stream k' \<and> aux_stream k = aux_stream k'"
proof -
  let ?k1 = "k\<lparr>status := status k AND NOT (STATUS_OBF OR STATUS_AUX), output_is_aux := False\<rparr>"
  let ?k2 = "if device_byte_ready ?k1 then latch_ready_device_byte ?k1 else ?k1"
  obtain v where v: "kbc_output k = Some v" using ok obf by (auto simp: out_ok_def)
  have k1: "kbd_stream ?k1 = queue k" "aux_stream ?k1 = mqueue (mouse k)"
    by (simp_all add: stream_defs bit_simps)
  have k': "kbd_stream (schedule_device_byte_at ?k2 p) = queue k" "aux_stream (schedule_device_byte_at ?k2 p) = mqueue (mouse k)"
    using k1 by (simp_all del: kbc.simps)
  have "kbc_read_port_at k 0x60 p = (Some v, schedule_device_byte_at ?k2 p)"
    by (simp add: kbc_read_port_at_def Let_def v)
  moreover have "kbd_stream k = (if output_is_aux k then [] else [v]) @ queue k"
    "aux_stream k = (if output_is_aux k then [v] else []) @ mqueue (mouse k)"
    using v obf by (simp_all add: stream_defs)
  ultimately show thesis
    using k' by (intro that) auto
qed

lemma sample_appends: "\<exists>ys. mqueue (snd (sample m)) = mqueue m @ ys"
  by (auto simp: sample_def queue_movement_def drop_pending_def Let_def)

lemma sample_appends_only_when_empty: "mqueue m \<noteq> [] \<Longrightarrow> mqueue (snd (sample m)) = mqueue m"
  by (auto simp: sample_def drop_pending_def)

lemma streams_event:
  assumes "pending_input k = None"
  shows "kbd_stream (kbc_event k n) = kbd_stream k \<and> (\<exists>ys. aux_stream (kbc_event k n) = aux_stream k @ ys)
    \<and> pending_input (kbc_event k n) = None"
proof -
  have e: "kbd_stream (kbc_elapse k n) = kbd_stream k" "aux_stream (kbc_elapse k n) = aux_stream k"
    "pending_input (kbc_elapse k n) = None"
    using assms by (simp_all add: stream_defs kbc_elapse_def)
  then have i: "fire_input (kbc_elapse k n) = kbc_elapse k n" by (simp add: fire_input_def)
  have d: "kbd_stream (fire_device_byte v) = kbd_stream v" "aux_stream (fire_device_byte v) = aux_stream v" for v
    by (simp_all add: fire_device_byte_def) (simp_all add: stream_defs)
  have m: "kbd_stream (fire_mouse_sample v) = kbd_stream v" for v
    by (auto simp: fire_mouse_sample_def stream_defs Let_def)
  have a: "\<exists>ys. aux_stream (fire_mouse_sample v) = aux_stream v @ ys" for v
    using sample_appends [of "mouse v"] by (auto simp: fire_mouse_sample_def stream_defs Let_def)
  show ?thesis
    using a [of "fire_device_byte (kbc_elapse k n)"]
    by (simp add: kbc_event_def i m d e schedule_device_byte_def)
qed

lemma streams_advance:
  "pending_input k = None \<Longrightarrow>
    kbd_stream (kbc_advance_master_ticks k n) = kbd_stream k \<and>
    (\<exists>ys. aux_stream (kbc_advance_master_ticks k n) = aux_stream k @ ys)"
proof (induction k n rule: kbc_advance_master_ticks.induct)
  case (1 k n)
  have e: "kbd_stream (kbc_elapse k n) = kbd_stream k" "aux_stream (kbc_elapse k n) = aux_stream k"
    by (simp_all add: stream_defs kbc_elapse_def)
  show ?case
  proof (cases "kbc_ticks_until_event k")
    case None
    then show ?thesis by (simp add: kbc_advance_idle)
  next
    case (Some t)
    show ?thesis
    proof (cases "n = 0 \<or> n < t")
      case True
      then show ?thesis using Some e by (cases "n = 0") (simp_all add: kbc_advance_before)
    next
      case False
      then have "kbc_advance_master_ticks k n = kbc_advance_master_ticks (kbc_event k t) (n - t)"
        using Some by (subst kbc_advance_simps) simp
      moreover obtain ys where "kbd_stream (kbc_event k t) = kbd_stream k" "aux_stream (kbc_event k t) = aux_stream k @ ys"
        "pending_input (kbc_event k t) = None"
        using streams_event [OF 1 (2), of t] by blast
      ultimately show ?thesis using 1 (1) [of t] Some False by auto
    qed
  qed
qed

section \<open>Delivery\<close>

definition next_byte :: "kbc \<Rightarrow> u8" where
  "next_byte k = (if \<not> test (command_byte k) 0x10 \<and> queue k \<noteq> [] then hd (queue k) else hd (mqueue (mouse k)))"

definition waiting :: "kbc \<Rightarrow> bool" where
  "waiting k \<longleftrightarrow> \<not> bit (status k) 0 \<and> \<not> device_byte_ready k \<and> queued_device_byte k \<and> pending_input k = None"

definition delivered :: "kbc \<Rightarrow> u8 \<Rightarrow> bool" where
  "delivered k b \<longleftrightarrow> bit (status k) 0 \<and> kbc_output k = Some b \<and> pending_input k = None"

lemma fire_mouse_sample_sel [simp]:
  "status (fire_mouse_sample k) = status k" "kbc_output (fire_mouse_sample k) = kbc_output k"
  "queue (fire_mouse_sample k) = queue k" "command_byte (fire_mouse_sample k) = command_byte k"
  "device_byte_ready (fire_mouse_sample k) = device_byte_ready k"
  by (simp_all add: fire_mouse_sample_def Let_def)

lemma fire_mouse_sample_queue:
  "mqueue (mouse k) \<noteq> [] \<Longrightarrow> mqueue (mouse (fire_mouse_sample k)) = mqueue (mouse k)"
  by (simp add: fire_mouse_sample_def Let_def sample_appends_only_when_empty)

lemma elapse_sel [simp]:
  "status (kbc_elapse k n) = status k" "kbc_output (kbc_elapse k n) = kbc_output k" "queue (kbc_elapse k n) = queue k"
  "command_byte (kbc_elapse k n) = command_byte k" "device_byte_ready (kbc_elapse k n) = device_byte_ready k"
  "mouse (kbc_elapse k n) = mouse k" "pending_input (kbc_elapse k n) = pending_input k"
  "output_is_aux (kbc_elapse k n) = output_is_aux k"
  by (simp_all add: kbc_elapse_def)

lemma delivered_event: "delivered k b \<Longrightarrow> delivered (kbc_event k n) b"
proof -
  assume d: "delivered k b"
  have l: "latch_ready_device_byte v = v" if "bit (status v) 0" for v
    using that by (simp add: latch_ready_device_byte_def)
  have "fire_input (kbc_elapse k n) = kbc_elapse k n" using d by (simp add: fire_input_def delivered_def)
  with d show ?thesis
    by (auto simp: delivered_def kbc_event_def fire_device_byte_def schedule_device_byte_def l)
qed

lemma delivered_advance: "delivered k b \<Longrightarrow> delivered (kbc_advance_master_ticks k n) b"
proof (induction k n rule: kbc_advance_master_ticks.induct)
  case (1 k n)
  moreover have "delivered (kbc_elapse k n) b" using 1 (2) by (simp add: delivered_def)
  ultimately show ?case
    by (subst kbc_advance_simps) (auto simp: delivered_event split: option.splits)
qed

lemma waiting_event:
  assumes w: "waiting k" and d: "device_byte_ticks k = Some t" and n: "n \<le> t"
  shows "n < t \<Longrightarrow> waiting (kbc_event k n) \<and> device_byte_ticks (kbc_event k n) = Some (t - n) \<and> next_byte (kbc_event k n) = next_byte k"
    and "n = t \<Longrightarrow> delivered (kbc_event k n) (next_byte k)"
proof -
  let ?e = "kbc_elapse k n"
  have i: "fire_input ?e = ?e" using w by (simp add: fire_input_def waiting_def)
  {
    assume "n < t"
    then have f: "fire_device_byte ?e = ?e" using d by (simp add: fire_device_byte_def kbc_elapse_def)
    have t: "device_byte_ticks (fire_mouse_sample ?e) = Some (t - n)" using d by (simp add: kbc_elapse_def)
    then have s: "schedule_device_byte (fire_mouse_sample ?e) = fire_mouse_sample ?e"
      by (simp add: schedule_device_byte_def schedule_device_byte_at_def)
    have "queued_device_byte (fire_mouse_sample ?e)" "next_byte (fire_mouse_sample ?e) = next_byte k"
      using w fire_mouse_sample_queue [of ?e] by (auto simp: waiting_def queued_device_byte_def next_byte_def)
    then show "waiting (kbc_event k n) \<and> device_byte_ticks (kbc_event k n) = Some (t - n) \<and> next_byte (kbc_event k n) = next_byte k"
      using w t by (simp add: kbc_event_def i f s) (simp add: waiting_def)
  }
  {
    assume "n = t"
    then have f: "fire_device_byte ?e = latch_ready_device_byte (?e\<lparr>device_byte_ticks := None, device_byte_ready := True\<rparr>)"
      using d by (simp add: fire_device_byte_def kbc_elapse_def)
    show "delivered (kbc_event k n) (next_byte k)"
    proof (cases "\<not> test (command_byte k) 0x10 \<and> queue k \<noteq> []")
      case True
      then show ?thesis
        using w by (simp add: kbc_event_def i f delivered_def schedule_device_byte_def waiting_def)
          (simp add: latch_ready_device_byte_def next_byte_def bit_simps Let_def)
    next
      case False
      then obtain b bs where "mqueue (mouse k) = b # bs" "\<not> test (command_byte k) 0x20"
        using w by (cases "mqueue (mouse k)") (auto simp: waiting_def queued_device_byte_def)
      then show ?thesis
        using w False by (simp add: kbc_event_def i f delivered_def schedule_device_byte_def waiting_def)
          (auto simp: latch_ready_device_byte_def next_byte_def bit_simps Let_def)
    qed
  }
qed

lemma delivery:
  "kbc_due k = 0 \<Longrightarrow> waiting k \<Longrightarrow> device_byte_ticks k = Some t \<Longrightarrow>
    (if t \<le> n then delivered (kbc_advance_master_ticks k n) (next_byte k) else \<not> bit (status (kbc_advance_master_ticks k n)) 0)"
proof (induction k n arbitrary: t rule: kbc_advance_master_ticks.induct)
  case (1 k n)
  note due = 1 (2) and w = 1 (3) and d = 1 (4)
  obtain e where e: "kbc_ticks_until_event k = Some e"
    using d by (cases "kbc_ticks_until_event k") (auto simp: kbc_ticks_until_event_def)
  have "0 < e" "e \<le> t" using kbc_event_time_pos [OF due e] kbc_timers_le (2) [OF e d] by auto
  show ?case
  proof (cases "n < e")
    case True
    then show ?thesis using w \<open>e \<le> t\<close> by (simp add: kbc_advance_before [OF e] waiting_def)
  next
    case False
    then have a: "kbc_advance_master_ticks k n = kbc_advance_master_ticks (kbc_event k e) (n - e)"
      using \<open>0 < e\<close> by (intro kbc_advance_event [OF e]) auto
    show ?thesis
    proof (cases "e = t")
      case True
      then have "delivered (kbc_event k e) (next_byte k)" using waiting_event (2) [OF w d] by simp
      then show ?thesis using a False True delivered_advance by auto
    next
      case less: False
      then have "waiting (kbc_event k e)" "device_byte_ticks (kbc_event k e) = Some (t - e)" "next_byte (kbc_event k e) = next_byte k"
        using waiting_event (1) [OF w d, of e] \<open>e \<le> t\<close> by auto
      then show ?thesis
        using 1 (1) [of e "t - e"] e False \<open>0 < e\<close> a kbc_due_event [of k e] \<open>e \<le> t\<close> by (auto split: if_splits)
    qed
  qed
qed

section \<open>Properties\<close>

text \<open>C20: The keyboard controller loses, duplicates and reorders no byte. In every reachable state, a read
  of port 60h with the output buffer full returns the head of the stream the buffer belongs to and
  removes just that byte; a controller reply goes in front of the keyboard stream and keeps both
  streams; new scancodes go to its end; and time alone, while no input byte is being processed,
  only appends mouse packets to the auxiliary stream.\<close>

theorem kbc_no_byte_lost:
  assumes "kbc_reachable k"
  shows "(test (status k) STATUS_OBF \<longrightarrow> (\<exists>v k'. kbc_read_port_at k 0x60 p = (Some v, k') \<and>
      (if output_is_aux k then aux_stream k = v # aux_stream k' \<and> kbd_stream k = kbd_stream k'
       else kbd_stream k = v # kbd_stream k' \<and> aux_stream k = aux_stream k'))) \<and>
    kbd_stream (respond_controller k r) = r # kbd_stream k \<and> aux_stream (respond_controller k r) = aux_stream k \<and>
    kbd_stream (push_scancodes k codes) = kbd_stream k @ codes \<and> aux_stream (push_scancodes k codes) = aux_stream k \<and>
    (pending_input k = None \<longrightarrow> kbd_stream (kbc_advance_master_ticks k n) = kbd_stream k \<and>
      (\<exists>ys. aux_stream (kbc_advance_master_ticks k n) = aux_stream k @ ys))"
proof -
  have ok: "out_ok k" using kbc_reachable_ok [OF assms] by (simp add: kbc_ok_def)
  have "\<exists>v k'. kbc_read_port_at k 0x60 p = (Some v, k') \<and>
      (if output_is_aux k then aux_stream k = v # aux_stream k' \<and> kbd_stream k = kbd_stream k'
       else kbd_stream k = v # kbd_stream k' \<and> aux_stream k = aux_stream k')" if "bit (status k) 0"
    using streams_read [OF ok that, of p] by (metis (full_types))
  then show ?thesis
    using streams_respond [OF ok] streams_push streams_advance by simp
qed

definition typed :: kbc where
  "typed = push_scancodes kbc_default [0x1e, 0x9e]"

lemma typed_value:
  "typed = kbc_default\<lparr>queue := [0x1e, 0x9e], device_byte_ticks := Some 5478000\<rparr>"
  by (simp add: typed_def push_scancodes_def schedule_device_byte_def schedule_device_byte_at_def kbc_default_def
      queued_device_byte_def STATUS_SYS_def STATUS_OBF_def test_def saturating_add64_def DEVICE_BYTE_TICKS_def MASTER_CLOCK_HZ_def u64_max_def
      bit_numeral_rec)

lemma typed_reachable: "kbc_reachable typed"
  unfolding typed_def by (intro kbc_reachable.intros)

lemma typed_sel:
  "\<not> test (status typed) STATUS_OBF" "queued_device_byte typed" "\<not> device_byte_ready typed" "pending_input typed = None"
  "device_byte_ticks typed = Some 5478000" "\<not> test (command_byte typed) 0x10" "queue typed = [0x1e, 0x9e]"
  by (simp_all add: typed_value kbc_default_def STATUS_SYS_def STATUS_OBF_def queued_device_byte_def test_def del: status_masks)

lemma typed_ready: "test (status (kbc_advance_master_ticks typed 5478000)) STATUS_OBF"
  using delivery [of typed 5478000 5478000] typed_sel kbc_reachable_ok [OF typed_reachable]
  by (simp add: waiting_def delivered_def kbc_ok_def)

theorem kbc_no_byte_lost_witness:
  "let k = kbc_advance_master_ticks typed 5478000 in
    (\<exists>v k'. kbc_read_port_at k 0x60 0 = (Some v, k') \<and>
      (if output_is_aux k then aux_stream k = v # aux_stream k' \<and> kbd_stream k = kbd_stream k'
       else kbd_stream k = v # kbd_stream k' \<and> aux_stream k = aux_stream k'))"
  using kbc_no_byte_lost [OF kbc_reachable.advance [OF typed_reachable], of 5478000 0] typed_ready
  by (simp only: Let_def)

text \<open>C27: A queued byte is delivered on time. In a reachable state whose output buffer is empty, with an
  unmasked byte queued, no stale ready mark and no input being processed, a serial transfer is
  under way; the buffer fills exactly when it ends, with the keyboard's byte before the mouse's,
  and the byte stays until it is read.\<close>

theorem kbc_delivers:
  assumes "kbc_reachable k" and "\<not> test (status k) STATUS_OBF" and "queued_device_byte k"
    and "\<not> device_byte_ready k" and "pending_input k = None"
  shows "\<exists>t. device_byte_ticks k = Some t \<and>
    (\<forall>n. test (status (kbc_advance_master_ticks k n)) STATUS_OBF \<longleftrightarrow> t \<le> n) \<and>
    (\<forall>n. t \<le> n \<longrightarrow> kbc_output (kbc_advance_master_ticks k n) =
       Some (if \<not> test (command_byte k) 0x10 \<and> queue k \<noteq> [] then hd (queue k) else hd (mqueue (mouse k))))"
proof -
  have ok: "kbc_ok k" by (rule kbc_reachable_ok [OF assms (1)])
  have w: "waiting k" using assms by (simp add: waiting_def)
  obtain t where t: "device_byte_ticks k = Some t"
    using ok w by (auto simp: kbc_ok_def wake_ok_def waiting_def)
  have d: "if t \<le> n then delivered (kbc_advance_master_ticks k n) (next_byte k)
      else \<not> bit (status (kbc_advance_master_ticks k n)) 0" for n
    using delivery [OF _ w t, of n] ok by (simp add: kbc_ok_def)
  show ?thesis
  proof (intro exI [of _ t] conjI allI impI)
    show "device_byte_ticks k = Some t" by (rule t)
    show "test (status (kbc_advance_master_ticks k n)) STATUS_OBF \<longleftrightarrow> t \<le> n" for n
      using d [of n] by (cases "t \<le> n") (simp_all add: delivered_def)
    show "kbc_output (kbc_advance_master_ticks k n) =
       Some (if \<not> test (command_byte k) 0x10 \<and> queue k \<noteq> [] then hd (queue k) else hd (mqueue (mouse k)))" if "t \<le> n" for n
      using d [of n] that by (simp add: delivered_def next_byte_def)
  qed
qed

theorem kbc_delivers_witness:
  "\<not> test (status (kbc_advance_master_ticks typed 5477999)) STATUS_OBF \<and>
    kbc_output (kbc_advance_master_ticks typed 5478000) = Some 0x1e"
proof -
  obtain t where t: "device_byte_ticks typed = Some t"
    "\<And>n. test (status (kbc_advance_master_ticks typed n)) STATUS_OBF \<longleftrightarrow> t \<le> n"
    "\<And>n. t \<le> n \<Longrightarrow> kbc_output (kbc_advance_master_ticks typed n) =
       Some (if \<not> test (command_byte typed) 0x10 \<and> queue typed \<noteq> [] then hd (queue typed) else hd (mqueue (mouse typed)))"
    using kbc_delivers [OF typed_reachable typed_sel (1-4)] by blast
  with typed_sel show ?thesis by simp
qed

text \<open>
  A scancode is on the wire when the guest disables the keyboard; the transfer ends with nothing
  it may latch. Then the host moves the mouse.
\<close>

definition masked :: kbc where
  "masked = kbc_advance_master_ticks (snd (kbc_write_port_at typed 0x64 0xAD 0)) 5478000"

definition stalled :: kbc where
  "stalled = snd (inject_mouse (set_mouse_reporting masked True) 5 0 0)"

lemmas kbc_eval = kbc_default_def STATUS_SYS_def STATUS_OBF_def STATUS_IBF_def STATUS_CMD_def STATUS_AUX_def test_def
  saturating_add64_def CONTROLLER_INPUT_TICKS_def DEVICE_BYTE_TICKS_def MASTER_CLOCK_HZ_def u64_max_def
  queued_device_byte_def schedule_device_byte_def schedule_device_byte_at_def mouse_default_def

lemma masked_value:
  "masked = kbc_default\<lparr>queue := [0x1e, 0x9e], command_byte := 0x11, status := 0x0c, device_byte_ready := True\<rparr>"
proof -
  let ?k1 = "typed\<lparr>pending_input := Some (Command 0xAD), input_ticks := 109560, status := 0x0e\<rparr>"
  let ?k2 = "kbc_default\<lparr>queue := [0x1e, 0x9e], device_byte_ticks := Some 5368440, command_byte := 0x11, status := 0x0c\<rparr>"
  have "snd (kbc_write_port_at typed 0x64 0xAD 0) = ?k1"
    by (simp add: kbc_write_port_at_def typed_value kbc_eval del: status_masks)
  then have "masked = kbc_advance_master_ticks ?k1 5478000" by (simp add: masked_def)
  also have "\<dots> = kbc_advance_master_ticks (kbc_event ?k1 109560) 5368440"
    by (subst kbc_advance_event [of _ 109560]) (simp_all add: kbc_ticks_until_event_def typed_value kbc_default_def)
  also have "kbc_event ?k1 109560 = ?k2"
    by (simp add: kbc_event_def kbc_elapse_def fire_input_def fire_device_byte_def fire_mouse_sample_def process_input_def
        process_command_def typed_value kbc_eval Let_def del: status_masks)
  also have "kbc_advance_master_ticks ?k2 5368440 = kbc_event ?k2 5368440"
    by (subst kbc_advance_event [of _ 5368440]) (simp_all add: kbc_ticks_until_event_def kbc_default_def)
  also have "\<dots> = kbc_default\<lparr>queue := [0x1e, 0x9e], command_byte := 0x11, status := 0x0c, device_byte_ready := True\<rparr>"
    by (simp add: kbc_event_def kbc_elapse_def fire_input_def fire_device_byte_def fire_mouse_sample_def
        latch_ready_device_byte_def kbc_eval Let_def del: status_masks)
  finally show ?thesis .
qed

lemma stalled_value:
  "stalled = masked\<lparr>mouse := mouse_default\<lparr>reporting := True, mqueue := [0x08, 5, 0]\<rparr>\<rparr>"
  by (simp add: stalled_def masked_value inject_mouse_def set_mouse_reporting_def set_reporting_def kick_mouse_sample_def
      sample_def state_pending_def host_update_def queue_movement_def clamp_int_def saturating_add_i32_def i32_min_def
      i32_max_def kbc_eval Let_def del: status_masks)

text \<open>C39: A stale ready mark stalls the mouse. When a scancode's transfer ends while the keyboard is
  disabled, its ready mark stays set and blocks every new transfer: a mouse packet queued then is
  neither latched nor scheduled, although the mouse is reporting and not masked and the output
  buffer is empty, and no amount of time delivers it.\<close>

theorem kbc_stalled_packet:
  "kbc_reachable stalled \<and> reporting (mouse stalled) \<and> mqueue (mouse stalled) = [0x08, 5, 0] \<and>
    \<not> test (command_byte stalled) 0x20 \<and> \<not> test (status stalled) STATUS_OBF \<and>
    kbc_ticks_until_event stalled = None \<and> (\<forall>n. kbc_advance_master_ticks stalled n = stalled)"
proof -
  have "kbc_reachable stalled"
    unfolding stalled_def masked_def by (intro kbc_reachable.intros typed_reachable)
  moreover have e: "kbc_ticks_until_event stalled = None"
    by (simp add: kbc_ticks_until_event_def stalled_value masked_value kbc_default_def)
  moreover have "\<not> test (command_byte stalled) 0x20" "\<not> test (status stalled) STATUS_OBF"
    by (simp_all add: stalled_value masked_value kbc_eval del: status_masks)
  ultimately show ?thesis
    by (simp add: kbc_advance_idle [OF e]) (simp add: stalled_value)
qed

end
