(* ===== verification/Cpu_Alu.thy ===== *)
theory Cpu_Alu
  imports Clock "HOL-Library.Signed_Division"
begin

text \<open>
  The integer unit of the interpreter (\<open>crates/izarravm-cpu/src/core.rs\<close>, \<open>flags.rs\<close>): the
  general registers, the deferred arithmetic flags (\<open>PendingFlags\<close>), the flag reads and writes that
  go through them, the adders, the logic, shift, rotate, multiply and divide operations, the decimal
  adjustments and the condition codes. Clock charges are not part of these definitions.
\<close>

type_synonym u64 = "64 word"

named_theorems flag_defs \<open>the masks of the flag register\<close>

section \<open>Widths\<close>

datatype bus_width = Byte | Word | Dword

fun width_bytes :: "bus_width \<Rightarrow> nat" where
  "width_bytes Byte = 1"
| "width_bytes Word = 2"
| "width_bytes Dword = 4"

fun width_mask :: "bus_width \<Rightarrow> u32" where
  "width_mask Byte = 0x000000ff"
| "width_mask Word = 0x0000ffff"
| "width_mask Dword = 0xffffffff"

fun width_sign :: "bus_width \<Rightarrow> u32" where
  "width_sign Byte = 0x00000080"
| "width_sign Word = 0x00008000"
| "width_sign Dword = 0x80000000"

datatype operand_size = OpWord | OpDword

fun operand_bytes :: "operand_size \<Rightarrow> nat" where
  "operand_bytes OpWord = 2"
| "operand_bytes OpDword = 4"

fun operand_width :: "operand_size \<Rightarrow> bus_width" where
  "operand_width OpWord = Word"
| "operand_width OpDword = Dword"

fun operand_mask :: "operand_size \<Rightarrow> u32" where
  "operand_mask OpWord = 0x0000ffff"
| "operand_mask OpDword = 0xffffffff"

text \<open>\<open>value.count_ones().is_multiple_of(2)\<close>\<close>

definition parity :: "u8 \<Rightarrow> bool" where
  "parity v \<longleftrightarrow> even (length (filter (bit v) [0..<8]))"

section \<open>The flag register and the deferred flags\<close>

definition FLAG_CF :: u32 where [flag_defs]: "FLAG_CF = 0x00000001"
definition FLAG_PF :: u32 where [flag_defs]: "FLAG_PF = 0x00000004"
definition FLAG_AF :: u32 where [flag_defs]: "FLAG_AF = 0x00000010"
definition FLAG_ZF :: u32 where [flag_defs]: "FLAG_ZF = 0x00000040"
definition FLAG_SF :: u32 where [flag_defs]: "FLAG_SF = 0x00000080"
definition FLAG_IF :: u32 where [flag_defs]: "FLAG_IF = 0x00000200"
definition FLAG_DF :: u32 where [flag_defs]: "FLAG_DF = 0x00000400"
definition FLAG_OF :: u32 where [flag_defs]: "FLAG_OF = 0x00000800"
definition FLAG_IOPL :: u32 where [flag_defs]: "FLAG_IOPL = 0x00003000"
definition FLAG_VM :: u32 where [flag_defs]: "FLAG_VM = 0x00020000"
definition FLAG_AC :: u32 where [flag_defs]: "FLAG_AC = 0x00040000"
definition FLAG_ID :: u32 where [flag_defs]: "FLAG_ID = 0x00200000"

definition CR0_PE :: u32 where [flag_defs]: "CR0_PE = 0x00000001"
definition CR0_AM :: u32 where [flag_defs]: "CR0_AM = 0x00040000"

text \<open>The constant \<open>ARITH\<close> of \<open>flag\<close> and \<open>set_flag\<close>.\<close>

definition ARITH :: u32 where
  [flag_defs]: "ARITH = FLAG_CF OR FLAG_PF OR FLAG_AF OR FLAG_ZF OR FLAG_SF OR FLAG_OF"

datatype lazy_flag_op = LazyAdd | LazySub | LazyLogic

record pending_flags =
  pend_tag :: u32
  pend_a :: u32
  pend_b :: u32
  pend_result :: u32

definition pending_default :: pending_flags where
  "pending_default = \<lparr>pend_tag = 0, pend_a = 0, pend_b = 0, pend_result = 0\<rparr>"

definition pend_is_none :: "pending_flags \<Rightarrow> bool" where
  "pend_is_none p \<longleftrightarrow> pend_tag p AND push_bit 31 1 = 0"

definition pend_op :: "pending_flags \<Rightarrow> lazy_flag_op" where
  "pend_op p = (let t = pend_tag p AND 0xff in if t = 0 then LazyAdd else if t = 1 then LazySub else LazyLogic)"

definition pend_width :: "pending_flags \<Rightarrow> bus_width" where
  "pend_width p = (let t = drop_bit 8 (pend_tag p) AND 0xff in if t = 0 then Byte else if t = 1 then Word else Dword)"

definition pend_cf_override :: "pending_flags \<Rightarrow> bool option" where
  "pend_cf_override p =
     (if pend_tag p AND push_bit 16 1 \<noteq> 0 then Some (pend_tag p AND push_bit 17 1 \<noteq> 0) else None)"

definition with_cf_override :: "pending_flags \<Rightarrow> bool \<Rightarrow> pending_flags" where
  "with_cf_override p cf =
     (let t = pend_tag p OR push_bit 16 1;
          t = (if cf then t OR push_bit 17 1 else t AND NOT (push_bit 17 1))
      in p\<lparr>pend_tag := t\<rparr>)"

record lazy_flags =
  lazy_a :: u32
  lazy_b :: u32
  lazy_result :: u32
  lazy_width :: bus_width
  lazy_op :: lazy_flag_op
  lazy_cf_override :: "bool option"

definition from_legacy :: "lazy_flags \<Rightarrow> pending_flags" where
  "from_legacy l =
     (let opc = (case lazy_op l of LazyAdd \<Rightarrow> 0 | LazySub \<Rightarrow> 1 | LazyLogic \<Rightarrow> 2);
          w = (case lazy_width l of Byte \<Rightarrow> 0 | Word \<Rightarrow> 1 | Dword \<Rightarrow> 2);
          t = opc OR push_bit 8 w;
          t = (case lazy_cf_override l of
                 Some cf \<Rightarrow> (let t = t OR push_bit 16 1 in if cf then t OR push_bit 17 1 else t)
               | None \<Rightarrow> t);
          t = t OR push_bit 31 1
      in \<lparr>pend_tag = t, pend_a = lazy_a l, pend_b = lazy_b l, pend_result = lazy_result l\<rparr>)"

section \<open>The processor state the integer unit works on\<close>

record cpu =
  gpr :: "u32 list"
  eflags :: u32
  pending_flags :: pending_flags
  cr0 :: u32
  cpl :: u8
  cpu_mode :: gsw_mode
  alignment_armed :: bool
  interrupt_shadow :: bool
  flag_materializations :: u64

datatype cpu_fault = Exception u8 "u32 option"

definition divide_error :: cpu_fault where
  "divide_error = Exception 0 None"

subsection \<open>General registers\<close>

definition read_gpr32 :: "cpu \<Rightarrow> u8 \<Rightarrow> u32" where
  "read_gpr32 s i = gpr s ! unat (i AND 7)"

definition write_gpr32 :: "cpu \<Rightarrow> u8 \<Rightarrow> u32 \<Rightarrow> cpu" where
  "write_gpr32 s i v = s\<lparr>gpr := (gpr s)[unat (i AND 7) := v]\<rparr>"

definition read_gpr16 :: "cpu \<Rightarrow> u8 \<Rightarrow> u16" where
  "read_gpr16 s i = ucast (gpr s ! unat (i AND 7))"

definition write_gpr16 :: "cpu \<Rightarrow> u8 \<Rightarrow> u16 \<Rightarrow> cpu" where
  "write_gpr16 s i v =
     s\<lparr>gpr := (gpr s)[unat (i AND 7) := (gpr s ! unat (i AND 7) AND 0xffff0000) OR ucast v]\<rparr>"

definition read_gpr8 :: "cpu \<Rightarrow> u8 \<Rightarrow> u8" where
  "read_gpr8 s i =
     (let reg = unat (i AND 3) in
      if i < 4 then ucast (gpr s ! reg) else ucast (drop_bit 8 (gpr s ! reg)))"

definition write_gpr8 :: "cpu \<Rightarrow> u8 \<Rightarrow> u8 \<Rightarrow> cpu" where
  "write_gpr8 s i v =
     (let reg = unat (i AND 3) in
      if i < 4 then s\<lparr>gpr := (gpr s)[reg := (gpr s ! reg AND NOT 0xff) OR ucast v]\<rparr>
      else s\<lparr>gpr := (gpr s)[reg := (gpr s ! reg AND NOT 0xff00) OR push_bit 8 (ucast v)]\<rparr>)"

definition read_gpr_sized :: "cpu \<Rightarrow> u8 \<Rightarrow> operand_size \<Rightarrow> u32" where
  "read_gpr_sized s i sz = (case sz of OpWord \<Rightarrow> ucast (read_gpr16 s i) | OpDword \<Rightarrow> read_gpr32 s i)"

definition write_gpr_sized :: "cpu \<Rightarrow> u8 \<Rightarrow> operand_size \<Rightarrow> u32 \<Rightarrow> cpu" where
  "write_gpr_sized s i sz v =
     (case sz of OpWord \<Rightarrow> write_gpr16 s i (ucast v) | OpDword \<Rightarrow> write_gpr32 s i v)"

subsection \<open>Reading flags\<close>

text \<open>\<open>if b { e |= f }\<close>\<close>

definition or_if :: "bool \<Rightarrow> u32 \<Rightarrow> u32 \<Rightarrow> u32" where
  "or_if b f e = (if b then e OR f else e)"

definition materialized_eflags :: "cpu \<Rightarrow> u32" where
  "materialized_eflags s =
     (let p = pending_flags s in
      if pend_is_none p then eflags s
      else
        let mask = width_mask (pend_width p);
            sign = width_sign (pend_width p);
            a = pend_a p; b = pend_b p; result = pend_result p;
            (cf, ovf, af, clear) =
              (case pend_op p of
                 LazySub \<Rightarrow>
                   ((ucast a :: u64) < ucast b,
                    (a XOR b) AND (a XOR result) AND sign \<noteq> 0,
                    (a XOR b XOR result) AND 0x10 \<noteq> 0,
                    FLAG_CF OR FLAG_OF OR FLAG_AF OR FLAG_ZF OR FLAG_SF OR FLAG_PF)
               | LazyAdd \<Rightarrow>
                   ((ucast a :: u64) + ucast b > ucast mask,
                    (a XOR result) AND (b XOR result) AND sign \<noteq> 0,
                    (a XOR b XOR result) AND 0x10 \<noteq> 0,
                    FLAG_CF OR FLAG_OF OR FLAG_AF OR FLAG_ZF OR FLAG_SF OR FLAG_PF)
               | LazyLogic \<Rightarrow>
                   (False, False, eflags s AND FLAG_AF \<noteq> 0,
                    FLAG_CF OR FLAG_OF OR FLAG_ZF OR FLAG_SF OR FLAG_PF));
            cf = (case pend_cf_override p of Some c \<Rightarrow> c | None \<Rightarrow> cf);
            zf = (result AND mask = 0);
            sf = (result AND sign \<noteq> 0);
            pf = parity (ucast result);
            e = eflags s AND NOT clear
        in or_if pf FLAG_PF (or_if sf FLAG_SF (or_if zf FLAG_ZF
             (or_if af FLAG_AF (or_if ovf FLAG_OF (or_if cf FLAG_CF e))))) OR 0x2)"

definition materialize_flags :: "cpu \<Rightarrow> cpu" where
  "materialize_flags s =
     (if pend_is_none (pending_flags s) then s
      else s\<lparr>eflags := materialized_eflags s, pending_flags := pending_default,
             flag_materializations := flag_materializations s + 1\<rparr>)"

definition arith_flag :: "cpu \<Rightarrow> u32 \<Rightarrow> bool" where
  "arith_flag s f =
     (let p = pending_flags s in
      if pend_is_none p then eflags s AND f \<noteq> 0
      else
        let mask = width_mask (pend_width p);
            sign = width_sign (pend_width p);
            a = pend_a p; b = pend_b p; result = pend_result p
        in
        if f = FLAG_ZF then result AND mask = 0
        else if f = FLAG_SF then result AND sign \<noteq> 0
        else if f = FLAG_PF then parity (ucast result)
        else if f = FLAG_AF then
          (if pend_op p = LazyLogic then eflags s AND FLAG_AF \<noteq> 0 else (a XOR b XOR result) AND 0x10 \<noteq> 0)
        else if f = FLAG_CF then
          (case pend_cf_override p of
             Some cf \<Rightarrow> cf
           | None \<Rightarrow>
               if pend_op p = LazyLogic then False
               else if pend_op p = LazySub then (ucast a :: u64) < ucast b
               else (ucast a :: u64) + ucast b > ucast mask)
        else if f = FLAG_OF then
          (if pend_op p = LazyLogic then False
           else if pend_op p = LazySub then (a XOR b) AND (a XOR result) AND sign \<noteq> 0
           else (a XOR result) AND (b XOR result) AND sign \<noteq> 0)
        else eflags s AND f \<noteq> 0)"

definition flag :: "cpu \<Rightarrow> u32 \<Rightarrow> bool" where
  "flag s f =
     (if \<not> pend_is_none (pending_flags s) \<and> f AND ARITH \<noteq> 0 \<and> f AND NOT ARITH = 0
      then arith_flag s f
      else eflags s AND f \<noteq> 0)"

definition condition :: "cpu \<Rightarrow> u8 \<Rightarrow> bool" where
  "condition s c =
     (if c = 0 then flag s FLAG_OF
      else if c = 1 then \<not> flag s FLAG_OF
      else if c = 2 then flag s FLAG_CF
      else if c = 3 then \<not> flag s FLAG_CF
      else if c = 4 then flag s FLAG_ZF
      else if c = 5 then \<not> flag s FLAG_ZF
      else if c = 6 then flag s FLAG_CF \<or> flag s FLAG_ZF
      else if c = 7 then \<not> flag s FLAG_CF \<and> \<not> flag s FLAG_ZF
      else if c = 8 then flag s FLAG_SF
      else if c = 9 then \<not> flag s FLAG_SF
      else if c = 10 then flag s FLAG_PF
      else if c = 11 then \<not> flag s FLAG_PF
      else if c = 12 then flag s FLAG_SF \<noteq> flag s FLAG_OF
      else if c = 13 then flag s FLAG_SF = flag s FLAG_OF
      else if c = 14 then flag s FLAG_ZF \<or> flag s FLAG_SF \<noteq> flag s FLAG_OF
      else \<not> flag s FLAG_ZF \<and> flag s FLAG_SF = flag s FLAG_OF)"

subsection \<open>Writing flags\<close>

definition recompute_alignment_armed :: "cpu \<Rightarrow> cpu" where
  "recompute_alignment_armed s =
     s\<lparr>alignment_armed := (cr0 s AND CR0_AM \<noteq> 0 \<and> eflags s AND FLAG_AC \<noteq> 0)\<rparr>"

definition set_flag_live :: "cpu \<Rightarrow> u32 \<Rightarrow> bool \<Rightarrow> cpu" where
  "set_flag_live s f enabled =
     (let e = (if enabled then eflags s OR f else eflags s AND NOT f);
          s = s\<lparr>eflags := e OR 0x2\<rparr>
      in if f AND FLAG_AC \<noteq> 0 then recompute_alignment_armed s else s)"

definition set_flag :: "cpu \<Rightarrow> u32 \<Rightarrow> bool \<Rightarrow> cpu" where
  "set_flag s f enabled =
     (if \<not> pend_is_none (pending_flags s) then
        if f = FLAG_CF then
          s\<lparr>pending_flags := with_cf_override (pending_flags s) enabled, eflags := eflags s OR 0x2\<rparr>
        else set_flag_live (if f AND ARITH \<noteq> 0 then materialize_flags s else s) f enabled
      else set_flag_live s f enabled)"

definition set_szp_live :: "cpu \<Rightarrow> u32 \<Rightarrow> bus_width \<Rightarrow> cpu" where
  "set_szp_live s result w =
     (let s = set_flag_live s FLAG_ZF (result AND width_mask w = 0);
          s = set_flag_live s FLAG_SF (result AND width_sign w \<noteq> 0)
      in set_flag_live s FLAG_PF (parity (ucast result)))"

definition set_szp :: "cpu \<Rightarrow> u32 \<Rightarrow> bus_width \<Rightarrow> cpu" where
  "set_szp s result w =
     set_szp_live (if pend_is_none (pending_flags s) then s else materialize_flags s) result w"

definition set_shift_result_flags ::
    "cpu \<Rightarrow> bool option \<Rightarrow> bool option \<Rightarrow> u32 \<Rightarrow> bus_width \<Rightarrow> cpu" where
  "set_shift_result_flags s cf ovf result w =
     (if pend_is_none (pending_flags s) then
        let s = (case cf of Some c \<Rightarrow> set_flag_live s FLAG_CF c | None \<Rightarrow> s);
            s = (case ovf of Some v \<Rightarrow> set_flag_live s FLAG_OF v | None \<Rightarrow> s)
        in set_szp_live s result w
      else
        let c = (case cf of Some c \<Rightarrow> c | None \<Rightarrow> flag s FLAG_CF);
            v = (case ovf of Some v \<Rightarrow> v | None \<Rightarrow> flag s FLAG_OF);
            af = flag s FLAG_AF;
            s = s\<lparr>pending_flags := pending_default\<rparr>;
            s = set_flag_live s FLAG_CF c;
            s = set_flag_live s FLAG_OF v;
            s = set_flag_live s FLAG_AF af
        in set_szp_live s result w)"

section \<open>Addition, subtraction and logic\<close>

definition alu_add_eager :: "cpu \<Rightarrow> u32 \<Rightarrow> u32 \<Rightarrow> u32 \<Rightarrow> bus_width \<Rightarrow> u32 \<times> cpu" where
  "alu_add_eager s a b carry w =
     (let mask = width_mask w; sign = width_sign w;
          a = a AND mask; b = b AND mask;
          full = (ucast a :: u64) + ucast b + ucast carry;
          result = (ucast full :: u32) AND mask;
          s = set_flag s FLAG_CF (full > ucast mask);
          s = set_flag s FLAG_OF ((a XOR result) AND (b XOR result) AND sign \<noteq> 0);
          s = set_flag s FLAG_AF ((a XOR b XOR result) AND 0x10 \<noteq> 0);
          s = set_szp s result w
      in (result, s))"

definition alu_add :: "cpu \<Rightarrow> u32 \<Rightarrow> u32 \<Rightarrow> u32 \<Rightarrow> bus_width \<Rightarrow> u32 \<times> cpu" where
  "alu_add s a b carry w =
     (if carry \<noteq> 0 then alu_add_eager s a b carry w
      else
        let mask = width_mask w; a = a AND mask; b = b AND mask;
            result = (ucast ((ucast a :: u64) + ucast b) :: u32) AND mask;
            lf = \<lparr>lazy_a = a, lazy_b = b, lazy_result = result, lazy_width = w, lazy_op = LazyAdd,
                   lazy_cf_override = None\<rparr>
        in (result, s\<lparr>pending_flags := from_legacy lf\<rparr>))"

definition alu_sub_eager :: "cpu \<Rightarrow> u32 \<Rightarrow> u32 \<Rightarrow> u32 \<Rightarrow> bus_width \<Rightarrow> u32 \<times> cpu" where
  "alu_sub_eager s a b borrow w =
     (let mask = width_mask w; sign = width_sign w;
          a = a AND mask; b = b AND mask;
          rhs = (ucast b :: u64) + ucast borrow;
          result = (ucast ((ucast a :: u64) - rhs) :: u32) AND mask;
          s = set_flag s FLAG_CF ((ucast a :: u64) < rhs);
          s = set_flag s FLAG_OF ((a XOR b) AND (a XOR result) AND sign \<noteq> 0);
          s = set_flag s FLAG_AF ((a XOR b XOR result) AND 0x10 \<noteq> 0);
          s = set_szp s result w
      in (result, s))"

definition alu_sub :: "cpu \<Rightarrow> u32 \<Rightarrow> u32 \<Rightarrow> u32 \<Rightarrow> bus_width \<Rightarrow> u32 \<times> cpu" where
  "alu_sub s a b borrow w =
     (if borrow \<noteq> 0 then alu_sub_eager s a b borrow w
      else
        let mask = width_mask w; a = a AND mask; b = b AND mask;
            result = (ucast ((ucast a :: u64) - ucast b) :: u32) AND mask;
            lf = \<lparr>lazy_a = a, lazy_b = b, lazy_result = result, lazy_width = w, lazy_op = LazySub,
                   lazy_cf_override = None\<rparr>
        in (result, s\<lparr>pending_flags := from_legacy lf\<rparr>))"

definition alu_logic :: "cpu \<Rightarrow> u32 \<Rightarrow> bus_width \<Rightarrow> u32 \<times> cpu" where
  "alu_logic s result w =
     (let result = result AND width_mask w;
          e = (if \<not> pend_is_none (pending_flags s) \<and> pend_op (pending_flags s) \<noteq> LazyLogic then
                 if arith_flag s FLAG_AF then eflags s OR FLAG_AF else eflags s AND NOT FLAG_AF
               else eflags s);
          lf = \<lparr>lazy_a = 0, lazy_b = 0, lazy_result = result, lazy_width = w, lazy_op = LazyLogic,
                 lazy_cf_override = None\<rparr>
      in (result, s\<lparr>eflags := e OR 0x2, pending_flags := from_legacy lf\<rparr>))"

text \<open>\<open>u32::from(self.flag(FLAG_CF))\<close>\<close>

definition carry_in :: "cpu \<Rightarrow> u32" where
  "carry_in s = (if flag s FLAG_CF then 1 else 0)"

text \<open>\<open>None\<close> is the \<open>unreachable!\<close> arm.\<close>

definition alu :: "cpu \<Rightarrow> u8 \<Rightarrow> u32 \<Rightarrow> u32 \<Rightarrow> bus_width \<Rightarrow> (u32 \<times> cpu) option" where
  "alu s opc a b w =
     (if opc = 0 then Some (alu_add s a b 0 w)
      else if opc = 2 then Some (alu_add s a b (carry_in s) w)
      else if opc = 3 then Some (alu_sub s a b (carry_in s) w)
      else if opc = 5 \<or> opc = 7 then Some (alu_sub s a b 0 w)
      else if opc = 1 then Some (alu_logic s ((a OR b) AND width_mask w) w)
      else if opc = 4 then Some (alu_logic s ((a AND b) AND width_mask w) w)
      else if opc = 6 then Some (alu_logic s ((a XOR b) AND width_mask w) w)
      else None)"

definition inc_dec :: "cpu \<Rightarrow> u32 \<Rightarrow> bool \<Rightarrow> bus_width \<Rightarrow> u32 \<times> cpu" where
  "inc_dec s v is_dec w =
     (let carry = flag s FLAG_CF;
          mask = width_mask w;
          v = v AND mask;
          result = (if is_dec then (v - 1) AND mask else (v + 1) AND mask);
          lf = \<lparr>lazy_a = v, lazy_b = 1, lazy_result = result, lazy_width = w,
                 lazy_op = (if is_dec then LazySub else LazyAdd), lazy_cf_override = Some carry\<rparr>
      in (result, s\<lparr>pending_flags := from_legacy lf\<rparr>))"

section \<open>Shifts and rotates\<close>

text \<open>One pass of the single-bit loop of \<open>shift_rotate\<close>, on the value and the carry.\<close>

definition shift_step :: "u8 \<Rightarrow> bus_width \<Rightarrow> u32 \<times> bool \<Rightarrow> (u32 \<times> bool) option" where
  "shift_step opc w = (\<lambda>(v, cf).
     (let mask = width_mask w; msb = width_sign w; bits = width_bytes w * 8;
          top = (v AND msb \<noteq> 0); low = (v AND 1 \<noteq> 0)
      in
      if opc = 0 then Some ((push_bit 1 v OR of_bool top) AND mask, top)
      else if opc = 1 then Some (drop_bit 1 v OR push_bit (bits - 1) (of_bool low), low)
      else if opc = 2 then Some ((push_bit 1 v OR of_bool cf) AND mask, top)
      else if opc = 3 then Some (drop_bit 1 v OR push_bit (bits - 1) (of_bool cf), low)
      else if opc = 4 \<or> opc = 6 then Some (push_bit 1 v AND mask, top)
      else if opc = 5 then Some (drop_bit 1 v, low)
      else if opc = 7 then Some (drop_bit 1 v OR (v AND msb), low)
      else None))"

fun shift_loop :: "u8 \<Rightarrow> bus_width \<Rightarrow> nat \<Rightarrow> u32 \<times> bool \<Rightarrow> (u32 \<times> bool) option" where
  "shift_loop opc w 0 st = Some st"
| "shift_loop opc w (Suc n) st = Option.bind (shift_step opc w st) (shift_loop opc w n)"

definition shift_rotate :: "cpu \<Rightarrow> u8 \<Rightarrow> u32 \<Rightarrow> u8 \<Rightarrow> bus_width \<Rightarrow> (u32 \<times> cpu) option" where
  "shift_rotate s opc v0 raw_count w =
     (let count = unat (raw_count AND 0x1f) in
      if count = 0 then Some (v0, s)
      else
        let mask = width_mask w; msb = width_sign w;
            cf = ((opc = 2 \<or> opc = 3) \<and> flag s FLAG_CF)
        in Option.bind (shift_loop opc w count (v0 AND mask, cf)) (\<lambda>(v, cf).
             let top = (v AND msb \<noteq> 0) in
             if 4 \<le> opc \<and> opc \<le> 7 then
               let ovf = (if count = 1 then
                            Some (if opc = 4 \<or> opc = 6 then top \<noteq> cf
                                  else if opc = 5 then v0 AND msb \<noteq> 0
                                  else False)
                          else None)
               in Some (v AND mask, set_shift_result_flags s (Some cf) ovf v w)
             else
               let s = set_flag s FLAG_CF cf;
                   s = (if count = 1 then
                          set_flag s FLAG_OF
                            (if opc = 0 \<or> opc = 2 then top \<noteq> cf
                             else top \<noteq> (v AND drop_bit 1 msb \<noteq> 0))
                        else s)
               in Some (v AND mask, s)))"

text \<open>The loop of \<open>double_shift\<close>, on the destination, the source and the carry.\<close>

fun double_loop :: "bool \<Rightarrow> operand_size \<Rightarrow> nat \<Rightarrow> u32 \<times> u32 \<times> bool \<Rightarrow> u32 \<times> u32 \<times> bool" where
  "double_loop left sz 0 st = st"
| "double_loop left sz (Suc n) (d, src, cf) =
     (let bits = operand_bytes sz * 8; mask = operand_mask sz; msb = push_bit (bits - 1) 1 in
      double_loop left sz n
        (if left then
           ((push_bit 1 d OR drop_bit (bits - 1) (src AND msb)) AND mask, push_bit 1 src AND mask,
            d AND msb \<noteq> 0)
         else
           (drop_bit 1 d OR push_bit (bits - 1) (src AND 1), drop_bit 1 src, d AND 1 \<noteq> 0)))"

definition double_shift :: "cpu \<Rightarrow> bool \<Rightarrow> u32 \<Rightarrow> u32 \<Rightarrow> u8 \<Rightarrow> operand_size \<Rightarrow> u32 \<times> cpu" where
  "double_shift s left dest src0 raw_count sz =
     (let count = unat (raw_count AND 0x1f) in
      if count = 0 then (dest, s)
      else
        let bits = operand_bytes sz * 8; mask = operand_mask sz; msb = push_bit (bits - 1) 1;
            d = dest AND mask; src = src0 AND mask
        in
        if count > bits then
          let n = count mod bits;
              result = (if left then (push_bit n src OR drop_bit (bits - n) src) AND mask
                        else (drop_bit n src OR push_bit (bits - n) src) AND mask)
          in (result, set_shift_result_flags s None None result (operand_width sz))
        else
          let (d, src, cf) = double_loop left sz count (d, src, False);
              ovf = (if count = 1 then Some ((dest XOR d) AND msb \<noteq> 0) else None)
          in (d AND mask, set_shift_result_flags s (Some cf) ovf d (operand_width sz)))"

section \<open>Multiplication and division\<close>

definition cpu_mul :: "cpu \<Rightarrow> u32 \<Rightarrow> bool \<Rightarrow> bus_width \<Rightarrow> cpu" where
  "cpu_mul s operand is_signed w =
     (let (s, significant) =
        (case w of
           Byte \<Rightarrow>
             if is_signed then
               let p = sint (read_gpr8 s 0) * sint (ucast operand :: u8)
               in (write_gpr16 s 0 (word_of_int p), p \<noteq> sint (word_of_int p :: u8))
             else
               let p = (ucast (read_gpr8 s 0) :: u16) * ucast (ucast operand :: u8)
               in (write_gpr16 s 0 p, p AND 0xff00 \<noteq> 0)
         | Word \<Rightarrow>
             if is_signed then
               let p = sint (read_gpr16 s 0) * sint (ucast operand :: u16);
                   s = write_gpr16 s 0 (word_of_int p)
               in (write_gpr16 s 2 (word_of_int (p div 65536)), p \<noteq> sint (word_of_int p :: u16))
             else
               let p = (ucast (read_gpr16 s 0) :: u32) * ucast (ucast operand :: u16);
                   s = write_gpr16 s 0 (ucast p)
               in (write_gpr16 s 2 (ucast (drop_bit 16 p)), drop_bit 16 p \<noteq> 0)
         | Dword \<Rightarrow>
             if is_signed then
               let p = sint (read_gpr32 s 0) * sint operand;
                   s = write_gpr32 s 0 (word_of_int p)
               in (write_gpr32 s 2 (word_of_int (p div 4294967296)), p \<noteq> sint (word_of_int p :: u32))
             else
               let p = (ucast (read_gpr32 s 0) :: u64) * ucast operand;
                   s = write_gpr32 s 0 (ucast p)
               in (write_gpr32 s 2 (ucast (drop_bit 32 p)), drop_bit 32 p \<noteq> 0))
      in set_flag s (FLAG_CF OR FLAG_OF) significant)"

definition imul_truncated :: "cpu \<Rightarrow> u32 \<Rightarrow> u32 \<Rightarrow> operand_size \<Rightarrow> u32 \<times> cpu" where
  "imul_truncated s a b sz =
     (let (result, significant) =
        (case sz of
           OpWord \<Rightarrow>
             let p = sint (ucast a :: u16) * sint (ucast b :: u16)
             in (ucast (word_of_int p :: u16), p \<noteq> sint (word_of_int p :: u16))
         | OpDword \<Rightarrow>
             let p = sint a * sint b in (word_of_int p, p \<noteq> sint (word_of_int p :: u32)))
      in (result, set_flag s (FLAG_CF OR FLAG_OF) significant))"

text \<open>\<open>checked_div\<close> and \<open>checked_rem\<close> on an \<open>n\<close>-bit signed integer: truncating, \<open>None\<close> for a zero
  divisor and for the one quotient that does not fit.\<close>

definition checked_div_rem :: "nat \<Rightarrow> int \<Rightarrow> int \<Rightarrow> (int \<times> int) option" where
  "checked_div_rem n a b =
     (if b = 0 \<or> (a = - (2 ^ (n - 1)) \<and> b = - 1) then None else Some (a sdiv b, a smod b))"

definition cpu_div :: "cpu \<Rightarrow> u32 \<Rightarrow> bool \<Rightarrow> bus_width \<Rightarrow> cpu_fault + cpu" where
  "cpu_div s operand is_signed w =
     (if operand AND width_mask w = 0 then Inl divide_error
      else case w of
        Byte \<Rightarrow>
          if is_signed then
            (case checked_div_rem 32 (sint (read_gpr16 s 0)) (sint (ucast operand :: u8)) of
               None \<Rightarrow> Inl divide_error
             | Some (q, r) \<Rightarrow>
                 if \<not> (- 128 \<le> q \<and> q \<le> 127) then Inl divide_error
                 else Inr (write_gpr8 (write_gpr8 s 0 (word_of_int q)) 4 (word_of_int r)))
          else
            let dividend = (ucast (read_gpr16 s 0) :: u32);
                divisor = (ucast (ucast operand :: u8) :: u32);
                q = dividend div divisor
            in if q > 0xff then Inl divide_error
               else Inr (write_gpr8 (write_gpr8 s 0 (ucast q)) 4 (ucast (dividend mod divisor)))
      | Word \<Rightarrow>
          let pair = push_bit 16 (ucast (read_gpr16 s 2)) OR (ucast (read_gpr16 s 0) :: u32) in
          if is_signed then
            (case checked_div_rem 32 (sint pair) (sint (ucast operand :: u16)) of
               None \<Rightarrow> Inl divide_error
             | Some (q, r) \<Rightarrow>
                 if \<not> (- 32768 \<le> q \<and> q \<le> 32767) then Inl divide_error
                 else Inr (write_gpr16 (write_gpr16 s 0 (word_of_int q)) 2 (word_of_int r)))
          else
            let divisor = (ucast (ucast operand :: u16) :: u32);
                q = pair div divisor
            in if q > 0xffff then Inl divide_error
               else Inr (write_gpr16 (write_gpr16 s 0 (ucast q)) 2 (ucast (pair mod divisor)))
      | Dword \<Rightarrow>
          let pair = push_bit 32 (ucast (read_gpr32 s 2)) OR (ucast (read_gpr32 s 0) :: u64) in
          if is_signed then
            (case checked_div_rem 64 (sint pair) (sint operand) of
               None \<Rightarrow> Inl divide_error
             | Some (q, r) \<Rightarrow>
                 if \<not> (- 2147483648 \<le> q \<and> q \<le> 2147483647) then Inl divide_error
                 else Inr (write_gpr32 (write_gpr32 s 0 (word_of_int q)) 2 (word_of_int r)))
          else
            let divisor = (ucast operand :: u64);
                q = pair div divisor
            in if q > 0xffffffff then Inl divide_error
               else Inr (write_gpr32 (write_gpr32 s 0 (ucast q)) 2 (ucast (pair mod divisor))))"

section \<open>Decimal adjustments\<close>

definition daa :: "cpu \<Rightarrow> cpu" where
  "daa s =
     (let old_al = read_gpr8 s 0;
          old_cf = flag s FLAG_CF;
          s = set_flag s FLAG_CF False;
          (al, s) =
            (if old_al AND 0x0f > 9 \<or> flag s FLAG_AF then
               (old_al + 6,
                set_flag (set_flag s FLAG_CF (old_cf \<or> unat old_al + 6 > 255)) FLAG_AF True)
             else (old_al, set_flag s FLAG_AF False));
          (al, s) = (if old_al > 0x99 \<or> old_cf then (al + 0x60, set_flag s FLAG_CF True) else (al, s));
          s = write_gpr8 s 0 al
      in set_szp s (ucast al) Byte)"

definition das :: "cpu \<Rightarrow> cpu" where
  "das s =
     (let old_al = read_gpr8 s 0;
          old_cf = flag s FLAG_CF;
          s = set_flag s FLAG_CF False;
          (al, s) =
            (if old_al AND 0x0f > 9 \<or> flag s FLAG_AF then
               (old_al - 6, set_flag (set_flag s FLAG_CF (old_cf \<or> old_al < 6)) FLAG_AF True)
             else (old_al, set_flag s FLAG_AF False));
          (al, s) = (if old_al > 0x99 \<or> old_cf then (al - 0x60, set_flag s FLAG_CF True) else (al, s));
          s = write_gpr8 s 0 al
      in set_szp s (ucast al) Byte)"

definition aaa :: "cpu \<Rightarrow> cpu" where
  "aaa s =
     (let s = (if read_gpr8 s 0 AND 0x0f > 9 \<or> flag s FLAG_AF then
                 let s = write_gpr16 s 0 (read_gpr16 s 0 + 0x106)
                 in set_flag (set_flag s FLAG_AF True) FLAG_CF True
               else set_flag (set_flag s FLAG_AF False) FLAG_CF False)
      in write_gpr8 s 0 (read_gpr8 s 0 AND 0x0f))"

definition aas :: "cpu \<Rightarrow> cpu" where
  "aas s =
     (let s = (if read_gpr8 s 0 AND 0x0f > 9 \<or> flag s FLAG_AF then
                 let s = write_gpr16 s 0 (read_gpr16 s 0 - 6 - 0x100)
                 in set_flag (set_flag s FLAG_AF True) FLAG_CF True
               else set_flag (set_flag s FLAG_AF False) FLAG_CF False)
      in write_gpr8 s 0 (read_gpr8 s 0 AND 0x0f))"

definition aam :: "cpu \<Rightarrow> u32 \<Rightarrow> cpu_fault + cpu" where
  "aam s imm =
     (let divisor = (ucast imm :: u8) in
      if divisor = 0 then Inl divide_error
      else
        let al = read_gpr8 s 0;
            s = write_gpr8 s 4 (al div divisor);
            r = al mod divisor;
            s = write_gpr8 s 0 r
        in Inr (set_szp s (ucast r) Byte))"

definition aad :: "cpu \<Rightarrow> u32 \<Rightarrow> cpu" where
  "aad s imm =
     (let multiplier = (ucast imm :: u8);
          result = read_gpr8 s 0 + read_gpr8 s 4 * multiplier;
          s = write_gpr8 s 0 result;
          s = write_gpr8 s 4 0
      in set_szp s (ucast result) Byte)"

definition salc :: "cpu \<Rightarrow> cpu" where
  "salc s = write_gpr8 s 0 (if flag s FLAG_CF then 0xff else 0)"

section \<open>Flag instructions\<close>

definition is_protected_mode :: "cpu \<Rightarrow> bool" where
  "is_protected_mode s \<longleftrightarrow> cr0 s AND CR0_PE \<noteq> 0"

definition iopl :: "cpu \<Rightarrow> u8" where
  "iopl s = ucast (drop_bit 12 (eflags s) AND 3)"

definition check_interrupt_flag_privilege :: "cpu \<Rightarrow> cpu_fault + unit" where
  "check_interrupt_flag_privilege s =
     (if is_protected_mode s \<and> cpl s > iopl s then Inl (Exception 13 (Some 0)) else Inr ())"

definition sahf :: "cpu \<Rightarrow> cpu" where
  "sahf s =
     (let s = materialize_flags s;
          ah = (ucast (read_gpr8 s 4) :: u32)
      in s\<lparr>eflags := (eflags s AND NOT 0xd5) OR (ah AND 0xd5) OR 0x02\<rparr>)"

definition lahf :: "cpu \<Rightarrow> cpu" where
  "lahf s =
     (let s = materialize_flags s;
          ah = ((ucast (eflags s) :: u8) AND 0xd5) OR 0x02
      in write_gpr8 s 4 ah)"

definition cmc :: "cpu \<Rightarrow> cpu" where
  "cmc s = set_flag s FLAG_CF (\<not> flag s FLAG_CF)"

definition cli :: "cpu \<Rightarrow> cpu_fault + cpu" where
  "cli s = bindE (check_interrupt_flag_privilege s) (\<lambda>_. Inr (set_flag s FLAG_IF False))"

definition sti :: "cpu \<Rightarrow> cpu_fault + cpu" where
  "sti s = bindE (check_interrupt_flag_privilege s)
     (\<lambda>_. Inr ((set_flag s FLAG_IF True)\<lparr>interrupt_shadow := True\<rparr>))"

definition can_take_interrupt :: "cpu \<Rightarrow> bool" where
  "can_take_interrupt s \<longleftrightarrow> flag s FLAG_IF \<and> \<not> interrupt_shadow s"

definition load_flags :: "cpu \<Rightarrow> u32 \<Rightarrow> operand_size \<Rightarrow> bool \<Rightarrow> cpu" where
  "load_flags s v sz allow_vm_load =
     (let old = eflags s;
          merged = (case sz of
                      OpWord \<Rightarrow> (old AND 0xffff0000) OR (v AND 0xffff) OR 0x2
                    | OpDword \<Rightarrow> v OR 0x2);
          merged = (if cpl s \<noteq> 0 then (merged AND NOT FLAG_IOPL) OR (old AND FLAG_IOPL) else merged);
          effective_iopl = (ucast (drop_bit 12 merged AND 3) :: u8);
          merged = (if cpl s > effective_iopl then (merged AND NOT FLAG_IF) OR (old AND FLAG_IF) else merged);
          merged = (if \<not> allow_vm_load then (merged AND NOT FLAG_VM) OR (old AND FLAG_VM) else merged);
          fixed = (case persona (spec (cpu_mode s)) of
                     I386 \<Rightarrow> FLAG_AC OR FLAG_ID
                   | I486 \<Rightarrow> FLAG_ID
                   | I586 \<Rightarrow> 0);
          merged = (merged AND NOT fixed) OR (old AND fixed)
      in recompute_alignment_armed (s\<lparr>eflags := merged, pending_flags := pending_default\<rparr>))"

text \<open>A copy of the processor with its deferred flags settled.\<close>

definition settled :: "cpu \<Rightarrow> cpu" where
  "settled s = materialize_flags s"

end
