(* ===== verification/Cpu_Flags.thy ===== *)
theory Cpu_Flags
  imports Cpu_Alu
begin

text \<open>
  The deferred flags are invisible: every operation of the integer unit has the same result and the
  same architectural effect whether the flags of the operation before it were computed at once or
  left in the descriptor, however the settling is scheduled.
\<close>

section \<open>The descriptor\<close>

lemma pack_unpack [simp]:
  "\<not> pend_is_none (from_legacy l)"
  "pend_op (from_legacy l) = lazy_op l"
  "pend_width (from_legacy l) = lazy_width l"
  "pend_cf_override (from_legacy l) = lazy_cf_override l"
  "pend_a (from_legacy l) = lazy_a l"
  "pend_b (from_legacy l) = lazy_b l"
  "pend_result (from_legacy l) = lazy_result l"
  by (auto simp: pend_is_none_def from_legacy_def pend_op_def pend_width_def pend_cf_override_def Let_def
      split: lazy_flag_op.splits bus_width.splits option.splits)

lemma pend_is_none_default [simp]: "pend_is_none pending_default"
  by (simp add: pend_is_none_def pending_default_def)

lemma and_mask_push_bit_or:
  fixes t :: u32
  assumes "m AND push_bit k 1 = 0"
  shows "(t OR push_bit k 1) AND m = t AND m" "(t AND NOT (push_bit k 1)) AND m = t AND m"
  using assms by (auto simp: bit_eq_iff bit_simps)

lemma and_mask_drop_bit:
  fixes t :: u32
  shows "drop_bit 8 t AND 0xff = drop_bit 8 (t AND 0xff00)"
proof -
  have "(0xff00 :: u32) = push_bit 8 0xff" by simp
  then show ?thesis by (auto simp: bit_eq_iff bit_simps)
qed

lemma override_sel [simp]:
  "pend_is_none (with_cf_override p c) \<longleftrightarrow> pend_is_none p"
  "pend_op (with_cf_override p c) = pend_op p"
  "pend_width (with_cf_override p c) = pend_width p"
  "pend_cf_override (with_cf_override p c) = Some c"
  "pend_a (with_cf_override p c) = pend_a p"
  "pend_b (with_cf_override p c) = pend_b p"
  "pend_result (with_cf_override p c) = pend_result p"
proof -
  have t: "pend_tag (with_cf_override p c) AND m = pend_tag p AND m"
    if "m AND push_bit 16 1 = 0" "m AND push_bit 17 1 = 0" for m
    using that by (auto simp: with_cf_override_def Let_def bit_eq_iff bit_simps)
  show "pend_is_none (with_cf_override p c) \<longleftrightarrow> pend_is_none p"
    by (simp add: pend_is_none_def t)
  show "pend_op (with_cf_override p c) = pend_op p"
    by (simp add: pend_op_def t)
  show "pend_width (with_cf_override p c) = pend_width p"
  proof -
    have "drop_bit 8 (pend_tag (with_cf_override p c)) AND 0xff = drop_bit 8 (pend_tag p) AND 0xff"
      unfolding and_mask_drop_bit by (subst t) simp_all
    then show ?thesis by (simp add: pend_width_def)
  qed
  show "pend_cf_override (with_cf_override p c) = Some c"
    unfolding pend_cf_override_def and_push_bit_1_nonzero
    by (simp add: with_cf_override_def Let_def bit_simps)
qed (simp_all add: with_cf_override_def Let_def)

section \<open>Flag registers bit by bit\<close>

lemma flag_as_bit:
  "FLAG_CF = push_bit 0 1" "FLAG_PF = push_bit 2 1" "FLAG_AF = push_bit 4 1" "FLAG_ZF = push_bit 6 1"
  "FLAG_SF = push_bit 7 1" "FLAG_OF = push_bit 11 1" "FLAG_IF = push_bit 9 1" "FLAG_DF = push_bit 10 1"
  "FLAG_AC = push_bit 18 1" "FLAG_VM = push_bit 17 1" "FLAG_ID = push_bit 21 1"
  by (simp_all add: flag_defs)

lemma bit_u32: "bit (w :: u32) n \<Longrightarrow> n < 32"
  using bit_imp_le_length [of w n] by simp

lemma bit_one_at: "bit (push_bit k 1 :: u32) n \<longleftrightarrow> n = k \<and> k < 32"
  by (auto simp: bit_simps)

lemma bit_flags [simp]:
  "bit FLAG_CF n \<longleftrightarrow> n = 0" "bit FLAG_PF n \<longleftrightarrow> n = 2" "bit FLAG_AF n \<longleftrightarrow> n = 4"
  "bit FLAG_ZF n \<longleftrightarrow> n = 6" "bit FLAG_SF n \<longleftrightarrow> n = 7" "bit FLAG_OF n \<longleftrightarrow> n = 11"
  "bit FLAG_IF n \<longleftrightarrow> n = 9" "bit FLAG_DF n \<longleftrightarrow> n = 10" "bit FLAG_AC n \<longleftrightarrow> n = 18"
  "bit FLAG_VM n \<longleftrightarrow> n = 17" "bit FLAG_ID n \<longleftrightarrow> n = 21"
  unfolding flag_as_bit bit_one_at by auto

lemma bit_ARITH [simp]: "bit ARITH n \<longleftrightarrow> n \<in> {0, 2, 4, 6, 7, 11}"
  by (auto simp: ARITH_def bit_simps)

lemma bit_2 [simp]: "bit (2 :: u32) n \<longleftrightarrow> n = 1"
proof -
  have "(2 :: u32) = push_bit 1 1" by simp
  then show ?thesis by (metis bit_one_at one_less_numeral_iff semiring_norm(76))
qed

lemma and_flag [simp]:
  "e AND FLAG_CF = 0 \<longleftrightarrow> \<not> bit e 0" "e AND FLAG_PF = 0 \<longleftrightarrow> \<not> bit e 2" "e AND FLAG_AF = 0 \<longleftrightarrow> \<not> bit e 4"
  "e AND FLAG_ZF = 0 \<longleftrightarrow> \<not> bit e 6" "e AND FLAG_SF = 0 \<longleftrightarrow> \<not> bit e 7" "e AND FLAG_OF = 0 \<longleftrightarrow> \<not> bit e 11"
  "e AND FLAG_IF = 0 \<longleftrightarrow> \<not> bit e 9" "e AND FLAG_DF = 0 \<longleftrightarrow> \<not> bit e 10" "e AND FLAG_AC = 0 \<longleftrightarrow> \<not> bit e 18"
  unfolding flag_as_bit using and_push_bit_1_nonzero by blast+

lemma flags_distinct [simp]:
  "FLAG_CF \<noteq> FLAG_PF" "FLAG_CF \<noteq> FLAG_AF" "FLAG_CF \<noteq> FLAG_ZF" "FLAG_CF \<noteq> FLAG_SF" "FLAG_CF \<noteq> FLAG_OF"
  "FLAG_PF \<noteq> FLAG_CF" "FLAG_AF \<noteq> FLAG_CF" "FLAG_ZF \<noteq> FLAG_CF" "FLAG_SF \<noteq> FLAG_CF" "FLAG_OF \<noteq> FLAG_CF"
  "FLAG_PF \<noteq> FLAG_AF" "FLAG_PF \<noteq> FLAG_ZF" "FLAG_PF \<noteq> FLAG_SF" "FLAG_PF \<noteq> FLAG_OF" "FLAG_AF \<noteq> FLAG_PF"
  "FLAG_ZF \<noteq> FLAG_PF" "FLAG_SF \<noteq> FLAG_PF" "FLAG_OF \<noteq> FLAG_PF" "FLAG_AF \<noteq> FLAG_ZF" "FLAG_AF \<noteq> FLAG_SF"
  "FLAG_AF \<noteq> FLAG_OF" "FLAG_ZF \<noteq> FLAG_AF" "FLAG_SF \<noteq> FLAG_AF" "FLAG_OF \<noteq> FLAG_AF" "FLAG_ZF \<noteq> FLAG_SF"
  "FLAG_ZF \<noteq> FLAG_OF" "FLAG_SF \<noteq> FLAG_ZF" "FLAG_OF \<noteq> FLAG_ZF" "FLAG_SF \<noteq> FLAG_OF" "FLAG_OF \<noteq> FLAG_SF"
  by (simp_all add: flag_defs)

lemma bit_or_if [simp]: "bit (or_if b f e) n \<longleftrightarrow> bit e n \<or> (b \<and> bit f n)"
  by (auto simp: or_if_def bit_simps)

text \<open>The six arithmetic flags a descriptor stands for.\<close>

definition arith_bit :: "cpu \<Rightarrow> nat \<Rightarrow> bool" where
  "arith_bit s n =
     (if n = 0 then arith_flag s FLAG_CF else if n = 2 then arith_flag s FLAG_PF
      else if n = 4 then arith_flag s FLAG_AF else if n = 6 then arith_flag s FLAG_ZF
      else if n = 7 then arith_flag s FLAG_SF else if n = 11 then arith_flag s FLAG_OF
      else n = 1 \<or> bit (eflags s) n)"

lemma bit_materialized:
  "\<not> pend_is_none (pending_flags s) \<Longrightarrow> bit (materialized_eflags s) n \<longleftrightarrow> arith_bit s n"
  by (cases "pend_op (pending_flags s)"; cases "pend_cf_override (pending_flags s)")
     (auto simp: materialized_eflags_def arith_bit_def arith_flag_def Let_def bit_or_iff bit_and_iff bit_not_iff
        simp del: bit_numeral_word_iff dest: bit_u32)

section \<open>Settling\<close>

text \<open>The architectural state: the deferred flags applied, the descriptor and the performance counter
  left out.\<close>

definition arch :: "cpu \<Rightarrow> cpu" where
  "arch s = s\<lparr>eflags := materialized_eflags s, pending_flags := pending_default, flag_materializations := 0\<rparr>"

definition eflags_ok :: "cpu \<Rightarrow> bool" where
  "eflags_ok s \<longleftrightarrow> bit (eflags s) 1"

definition put_flag :: "u32 \<Rightarrow> bool \<Rightarrow> u32 \<Rightarrow> u32" where
  "put_flag f b e = (if b then e OR f else e AND NOT f) OR 0x2"

lemma bit_put_flag: "bit (put_flag f b e) n \<longleftrightarrow> (if n = 1 then True else if bit f n then b else bit e n)"
proof (cases "n < 32")
  case False
  then show ?thesis using bit_imp_le_length [of e n] bit_imp_le_length [of f n] bit_imp_le_length [of "put_flag f b e" n]
    by auto
qed (auto simp: put_flag_def bit_or_iff bit_and_iff bit_not_iff simp del: bit_numeral_word_iff)

lemma materialized_none: "pend_is_none (pending_flags s) \<Longrightarrow> materialized_eflags s = eflags s"
  by (simp add: materialized_eflags_def)

lemma arch_sel [simp]:
  "eflags (arch s) = materialized_eflags s" "gpr (arch s) = gpr s" "cr0 (arch s) = cr0 s"
  "cpl (arch s) = cpl s" "cpu_mode (arch s) = cpu_mode s" "alignment_armed (arch s) = alignment_armed s"
  "interrupt_shadow (arch s) = interrupt_shadow s" "flag_materializations (arch s) = 0"
  "pending_flags (arch s) = pending_default"
  by (simp_all add: arch_def)

lemma arch_eqI:
  assumes "materialized_eflags s = materialized_eflags t" "gpr s = gpr t" "cr0 s = cr0 t" "cpl s = cpl t"
    "cpu_mode s = cpu_mode t" "alignment_armed s = alignment_armed t" "interrupt_shadow s = interrupt_shadow t"
  shows "arch s = arch t"
  using assms by (cases s; cases t) (simp add: arch_def)

lemma bit_materialized_iff:
  "eflags_ok s \<Longrightarrow> bit (materialized_eflags s) n \<longleftrightarrow>
     (if pend_is_none (pending_flags s) then bit (eflags s) n else arith_bit s n)"
  by (simp add: bit_materialized materialized_none)

text \<open>The queries the code makes: one arithmetic flag, or control flags only.\<close>

definition flag_query :: "u32 \<Rightarrow> bool" where
  "flag_query f \<longleftrightarrow> f \<in> {FLAG_CF, FLAG_PF, FLAG_AF, FLAG_ZF, FLAG_SF, FLAG_OF} \<or> f AND ARITH = 0"

lemma control_bits:
  assumes ok: "eflags_ok s" and f: "f AND ARITH = 0"
  shows "materialized_eflags s AND f = eflags s AND f"
proof (rule bit_word_eqI)
  fix n assume "n < LENGTH(32)"
  have "\<not> (bit f n \<and> bit ARITH n)"
    using f by (metis bit_0_eq bit_and_iff bot_apply bot_bool_def)
  then show "bit (materialized_eflags s AND f) n \<longleftrightarrow> bit (eflags s AND f) n"
    using ok by (auto simp: bit_and_iff bit_materialized_iff arith_bit_def eflags_ok_def)
qed

lemma arith_and_flag [simp]:
  "FLAG_CF AND ARITH \<noteq> 0" "FLAG_PF AND ARITH \<noteq> 0" "FLAG_AF AND ARITH \<noteq> 0" "FLAG_ZF AND ARITH \<noteq> 0"
  "FLAG_SF AND ARITH \<noteq> 0" "FLAG_OF AND ARITH \<noteq> 0"
  "FLAG_CF AND NOT ARITH = 0" "FLAG_PF AND NOT ARITH = 0" "FLAG_AF AND NOT ARITH = 0" "FLAG_ZF AND NOT ARITH = 0"
  "FLAG_SF AND NOT ARITH = 0" "FLAG_OF AND NOT ARITH = 0"
  by (simp_all add: flag_defs)

lemma flag_materialized: "eflags_ok s \<Longrightarrow> flag_query f \<Longrightarrow> flag s f \<longleftrightarrow> materialized_eflags s AND f \<noteq> 0"
  by (auto simp: flag_query_def flag_def control_bits bit_materialized_iff arith_bit_def)

lemma flag_arch: "eflags_ok s \<Longrightarrow> flag_query f \<Longrightarrow> flag (arch s) f = flag s f"
  by (simp add: flag_materialized) (simp add: flag_def)

lemma set_flag_live_alt:
  "set_flag_live s f b = s\<lparr>eflags := put_flag f b (eflags s),
     alignment_armed := (if f AND FLAG_AC \<noteq> 0 then cr0 s AND CR0_AM \<noteq> 0 \<and> bit (put_flag f b (eflags s)) 18
                         else alignment_armed s)\<rparr>"
  by (simp add: set_flag_live_def Let_def recompute_alignment_armed_def put_flag_def)

lemma eflags_ok_set_flag_live [simp]: "eflags_ok (set_flag_live s f b)"
  by (simp add: eflags_ok_def set_flag_live_alt bit_put_flag)

lemma eflags_ok_materialize: "eflags_ok s \<Longrightarrow> eflags_ok (materialize_flags s)"
  by (auto simp: eflags_ok_def materialize_flags_def bit_materialized arith_bit_def)

lemma eflags_ok_set_flag: "eflags_ok s \<Longrightarrow> eflags_ok (set_flag s f b)"
  by (auto simp: set_flag_def) (simp add: eflags_ok_def bit_or_iff)

lemma eflags_ok_arch: "eflags_ok s \<Longrightarrow> eflags_ok (arch s)"
  using eflags_ok_materialize [of s] by (auto simp: eflags_ok_def bit_materialized_iff arith_bit_def)

lemma materialized_arch [simp]: "materialized_eflags (arch s) = materialized_eflags s"
  by (simp add: materialized_none)

lemma arch_arch [simp]: "arch (arch s) = arch s"
  by (rule arch_eqI) simp_all

lemma materialized_materialize [simp]: "materialized_eflags (materialize_flags s) = materialized_eflags s"
  by (simp add: materialize_flags_def materialized_none)

lemma arch_materialize [simp]: "arch (materialize_flags s) = arch s"
  by (rule arch_eqI) (simp_all, simp_all add: materialize_flags_def)

lemma set_flag_none: "pend_is_none (pending_flags s) \<Longrightarrow> set_flag s f b = set_flag_live s f b"
  by (simp add: set_flag_def)

lemma set_flag_live_sel [simp]:
  "eflags (set_flag_live s f b) = put_flag f b (eflags s)" "gpr (set_flag_live s f b) = gpr s"
  "pending_flags (set_flag_live s f b) = pending_flags s" "cr0 (set_flag_live s f b) = cr0 s"
  "cpl (set_flag_live s f b) = cpl s" "cpu_mode (set_flag_live s f b) = cpu_mode s"
  "interrupt_shadow (set_flag_live s f b) = interrupt_shadow s"
  "flag_materializations (set_flag_live s f b) = flag_materializations s"
  by (simp_all add: set_flag_live_alt)

text \<open>A flag write on the deferred state is the flag write on the architectural state.\<close>

lemma arith_flag_live:
  "f AND ARITH = 0 \<Longrightarrow> \<not> pend_is_none (pending_flags s) \<Longrightarrow> g \<in> {FLAG_CF, FLAG_PF, FLAG_AF, FLAG_ZF, FLAG_SF, FLAG_OF} \<Longrightarrow>
     arith_flag (set_flag_live s f b) g = arith_flag s g"
proof -
  assume f: "f AND ARITH = 0"
  then have "\<not> bit f 4"
    by (metis bit_ARITH bit_0_eq bit_and_iff bot_apply bot_bool_def insertI1 insertI2)
  then show "\<not> pend_is_none (pending_flags s) \<Longrightarrow> g \<in> {FLAG_CF, FLAG_PF, FLAG_AF, FLAG_ZF, FLAG_SF, FLAG_OF} \<Longrightarrow>
     arith_flag (set_flag_live s f b) g = arith_flag s g"
    by (auto simp: arith_flag_def Let_def bit_put_flag)
qed

lemma materialized_set_flag:
  assumes ok: "eflags_ok s"
  shows "materialized_eflags (set_flag s f b) = put_flag f b (materialized_eflags s)"
proof (cases "pend_is_none (pending_flags s)")
  case True
  then show ?thesis by (simp add: set_flag_none materialized_none)
next
  case False
  show ?thesis
  proof (cases "f AND ARITH = 0")
    case f: True
    then have "\<not> (bit f n \<and> bit ARITH n)" for n
      by (metis bit_0_eq bit_and_iff bot_apply bot_bool_def)
    moreover have "f \<noteq> FLAG_CF" using f by auto
    ultimately show ?thesis using False f ok
      by (intro bit_word_eqI)
         (auto simp: set_flag_def bit_materialized arith_bit_def bit_put_flag arith_flag_live)
  next
    case f: False
    show ?thesis
    proof (cases "f = FLAG_CF")
      case True
      then show ?thesis using False
        by (intro bit_word_eqI)
           (auto simp: set_flag_def bit_materialized arith_bit_def bit_put_flag arith_flag_def Let_def
              bit_or_iff simp del: bit_numeral_word_iff)
    next
      case f': False
      then show ?thesis using False f
        by (simp add: set_flag_def materialize_flags_def materialized_none)
    qed
  qed
qed

lemma set_flag_sel [simp]:
  "gpr (set_flag s f b) = gpr s" "cr0 (set_flag s f b) = cr0 s" "cpl (set_flag s f b) = cpl s"
  "cpu_mode (set_flag s f b) = cpu_mode s" "interrupt_shadow (set_flag s f b) = interrupt_shadow s"
  by (simp_all add: set_flag_def materialize_flags_def)

lemma alignment_set_flag:
  "eflags_ok s \<Longrightarrow> alignment_armed (set_flag s f b) =
     (if bit f 18 then cr0 s AND CR0_AM \<noteq> 0 \<and> b else alignment_armed s)"
  by (auto simp: set_flag_def set_flag_live_alt materialize_flags_def bit_put_flag)

lemma archI:
  assumes "eflags t = materialized_eflags s" "gpr t = gpr s" "cr0 t = cr0 s" "cpl t = cpl s" "cpu_mode t = cpu_mode s"
    "alignment_armed t = alignment_armed s" "interrupt_shadow t = interrupt_shadow s"
    "pending_flags t = pending_default" "flag_materializations t = 0"
  shows "arch s = t"
  using assms by (cases s; cases t) (simp add: arch_def)

lemma arch_set_flag: "eflags_ok s \<Longrightarrow> arch (set_flag s f b) = set_flag (arch s) f b"
  by (rule archI)
     (simp_all add: materialized_set_flag alignment_set_flag eflags_ok_arch, simp_all add: set_flag_none)

lemma materialized_cong:
  assumes "eflags s = eflags t" "pending_flags s = pending_flags t"
  shows "materialized_eflags s = materialized_eflags t"
  unfolding materialized_eflags_def assms ..

lemma materialized_gpr [simp]: "materialized_eflags (s\<lparr>gpr := g\<rparr>) = materialized_eflags s"
  by (rule materialized_cong) simp_all

lemma arch_write_gpr [simp]:
  "arch (write_gpr32 s i v32) = write_gpr32 (arch s) i v32"
  "arch (write_gpr16 s i v16) = write_gpr16 (arch s) i v16"
  "arch (write_gpr8 s i v8) = write_gpr8 (arch s) i v8"
  by (rule archI; simp add: write_gpr32_def write_gpr16_def write_gpr8_def Let_def)+

lemma eflags_write_gpr [simp]:
  "eflags (write_gpr32 s i v32) = eflags s" "eflags (write_gpr16 s i v16) = eflags s" "eflags (write_gpr8 s i v8) = eflags s"
  "pending_flags (write_gpr32 s i v32) = pending_flags s" "pending_flags (write_gpr16 s i v16) = pending_flags s"
  "pending_flags (write_gpr8 s i v8) = pending_flags s"
  by (simp_all add: write_gpr32_def write_gpr16_def write_gpr8_def Let_def)

lemma read_gpr_arch [simp]:
  "read_gpr32 (arch s) i = read_gpr32 s i" "read_gpr16 (arch s) i = read_gpr16 s i" "read_gpr8 (arch s) i = read_gpr8 s i"
  by (simp_all add: read_gpr32_def read_gpr16_def read_gpr8_def Let_def)

lemma set_szp_live_set_flag:
  "pend_is_none (pending_flags s) \<Longrightarrow> set_szp_live s r w =
     set_flag (set_flag (set_flag s FLAG_ZF (r AND width_mask w = 0)) FLAG_SF (r AND width_sign w \<noteq> 0)) FLAG_PF (parity (ucast r))"
  by (simp add: set_szp_live_def set_flag_none)

lemma arch_set_szp: "eflags_ok s \<Longrightarrow> arch (set_szp s r w) = set_szp (arch s) r w"
proof -
  assume ok: "eflags_ok s"
  let ?s = "materialize_flags s"
  have none: "pend_is_none (pending_flags ?s)" by (simp add: materialize_flags_def)
  have "set_szp s r w = set_szp_live ?s r w" by (simp add: set_szp_def materialize_flags_def)
  then show ?thesis
    using none eflags_ok_materialize [OF ok]
    by (simp add: set_szp_def set_szp_live_set_flag arch_set_flag eflags_ok_set_flag)
qed

lemma eflags_ok_set_szp [simp]: "eflags_ok (set_szp s r w)"
  by (simp add: set_szp_def set_szp_live_def)

section \<open>Lazy operations against eager ones\<close>

text \<open>The flags of a descriptor, written one by one into the architectural state.\<close>

definition put_arith :: "bool \<Rightarrow> bool \<Rightarrow> bool \<Rightarrow> cpu \<Rightarrow> u32 \<Rightarrow> bus_width \<Rightarrow> cpu" where
  "put_arith cf ovf af s r w =
     set_szp (set_flag (set_flag (set_flag s FLAG_CF cf) FLAG_OF ovf) FLAG_AF af) r w"

lemma eflags_ok_put_arith [simp]: "eflags_ok (put_arith cf ovf af s r w)"
  by (simp add: put_arith_def)

lemma put_arith_arch: "eflags_ok s \<Longrightarrow> arch (put_arith cf ovf af s r w) = put_arith cf ovf af (arch s) r w"
  by (simp add: put_arith_def arch_set_szp arch_set_flag eflags_ok_set_flag)

lemma put_arith_none:
  "pend_is_none (pending_flags s) \<Longrightarrow> put_arith cf ovf af s r w = s\<lparr>eflags :=
     put_flag FLAG_PF (parity (ucast r)) (put_flag FLAG_SF (r AND width_sign w \<noteq> 0) (put_flag FLAG_ZF (r AND width_mask w = 0)
       (put_flag FLAG_AF af (put_flag FLAG_OF ovf (put_flag FLAG_CF cf (eflags s))))))\<rparr>"
  by (simp add: put_arith_def set_szp_def set_szp_live_def set_flag_none set_flag_live_alt)

text \<open>What a fresh descriptor settles to.\<close>

lemma arch_descriptor_over:
  assumes ok: "eflags_ok s" and e: "\<And>n. n \<notin> {0, 2, 4, 6, 7, 11} \<Longrightarrow> bit e n = bit (eflags s) n"
    and t: "t = s\<lparr>eflags := e, pending_flags := from_legacy l\<rparr>"
  shows "arch t = put_arith (arith_flag t FLAG_CF) (arith_flag t FLAG_OF) (arith_flag t FLAG_AF) (arch s)
           (lazy_result l) (lazy_width l)"
    (is "arch t = put_arith ?cf ?of ?af _ ?r ?w")
proof -
  have p: "pending_flags t = from_legacy l" "eflags t = e" by (simp_all add: t)
  have zsp: "arith_flag t FLAG_ZF = (?r AND width_mask ?w = 0)" "arith_flag t FLAG_SF = (?r AND width_sign ?w \<noteq> 0)"
    "arith_flag t FLAG_PF = parity (ucast ?r)"
    by (simp_all add: arith_flag_def p)
  have "bit (materialized_eflags t) n = bit (eflags (put_arith ?cf ?of ?af (arch s) ?r ?w)) n" for n
    using ok e [of n] by (auto simp: bit_materialized arith_bit_def put_arith_none bit_put_flag zsp bit_materialized_iff p)
  then have "materialized_eflags t = eflags (put_arith ?cf ?of ?af (arch s) ?r ?w)"
    by (simp add: bit_eq_iff)
  then show ?thesis
    by (intro archI) (simp_all add: put_arith_none t)
qed

lemma arch_descriptor:
  assumes ok: "eflags_ok s"
  shows "arch (s\<lparr>pending_flags := from_legacy l\<rparr>) =
     put_arith (arith_flag (s\<lparr>pending_flags := from_legacy l\<rparr>) FLAG_CF) (arith_flag (s\<lparr>pending_flags := from_legacy l\<rparr>) FLAG_OF)
       (arith_flag (s\<lparr>pending_flags := from_legacy l\<rparr>) FLAG_AF) (arch s) (lazy_result l) (lazy_width l)"
  by (rule arch_descriptor_over [OF ok, of "eflags s"]) simp_all

lemma arch_alu_add:
  assumes ok: "eflags_ok s"
  shows "fst (alu_add s a b c w) = fst (alu_add_eager (arch s) a b c w)"
    "arch (snd (alu_add s a b c w)) = snd (alu_add_eager (arch s) a b c w)"
proof -
  show "fst (alu_add s a b c w) = fst (alu_add_eager (arch s) a b c w)"
    by (simp add: alu_add_def alu_add_eager_def Let_def)
  show "arch (snd (alu_add s a b c w)) = snd (alu_add_eager (arch s) a b c w)"
  proof (cases "c = 0")
    case True
    then show ?thesis
      by (simp add: alu_add_def alu_add_eager_def Let_def arch_descriptor [OF ok] put_arith_def)
         (simp add: arith_flag_def Let_def)
  next
    case False
    then show ?thesis
      using ok by (simp add: alu_add_def alu_add_eager_def Let_def arch_set_szp arch_set_flag eflags_ok_set_flag)
  qed
qed

lemma arch_alu_sub:
  assumes ok: "eflags_ok s"
  shows "fst (alu_sub s a b c w) = fst (alu_sub_eager (arch s) a b c w)"
    "arch (snd (alu_sub s a b c w)) = snd (alu_sub_eager (arch s) a b c w)"
proof -
  show "fst (alu_sub s a b c w) = fst (alu_sub_eager (arch s) a b c w)"
    by (simp add: alu_sub_def alu_sub_eager_def Let_def)
  show "arch (snd (alu_sub s a b c w)) = snd (alu_sub_eager (arch s) a b c w)"
  proof (cases "c = 0")
    case True
    then show ?thesis
      by (simp add: alu_sub_def alu_sub_eager_def Let_def arch_descriptor [OF ok] put_arith_def)
         (simp add: arith_flag_def Let_def)
  next
    case False
    then show ?thesis
      using ok by (simp add: alu_sub_def alu_sub_eager_def Let_def arch_set_szp arch_set_flag eflags_ok_set_flag)
  qed
qed

lemma arch_alu_logic:
  assumes ok: "eflags_ok s"
  shows "arch (snd (alu_logic s r w)) = put_arith False False (flag s FLAG_AF) (arch s) (r AND width_mask w) w"
proof -
  let ?e = "(if \<not> pend_is_none (pending_flags s) \<and> pend_op (pending_flags s) \<noteq> LazyLogic then
                 if arith_flag s FLAG_AF then eflags s OR FLAG_AF else eflags s AND NOT FLAG_AF
               else eflags s) OR 2"
  let ?l = "\<lparr>lazy_a = 0, lazy_b = 0, lazy_result = r AND width_mask w, lazy_width = w, lazy_op = LazyLogic,
              lazy_cf_override = None\<rparr>"
  have bits: "bit ?e n = (if n = 4 then flag s FLAG_AF else bit (eflags s) n)" for n
    using ok by (auto simp: eflags_ok_def bit_or_iff bit_and_iff bit_not_iff flag_def arith_flag_def Let_def dest: bit_u32
        simp del: bit_numeral_word_iff)
  have "arch (snd (alu_logic s r w)) = put_arith (arith_flag (snd (alu_logic s r w)) FLAG_CF)
      (arith_flag (snd (alu_logic s r w)) FLAG_OF) (arith_flag (snd (alu_logic s r w)) FLAG_AF) (arch s)
      (lazy_result ?l) (lazy_width ?l)"
    by (rule arch_descriptor_over [OF ok, of ?e]) (simp_all add: bits alu_logic_def Let_def)
  moreover have "eflags (snd (alu_logic s r w)) = ?e" "pending_flags (snd (alu_logic s r w)) = from_legacy ?l"
    by (simp_all add: alu_logic_def Let_def)
  ultimately show ?thesis
    using bits [of 4] by (simp add: arith_flag_def Let_def)
qed

lemma arch_inc_dec:
  assumes ok: "eflags_ok s"
  shows "arch (snd (inc_dec s v d w)) = arch (snd (inc_dec (arch s) v d w))"
    "fst (inc_dec s v d w) = fst (inc_dec (arch s) v d w)"
  using ok flag_arch [OF ok, of FLAG_CF]
  by (simp_all add: inc_dec_def Let_def arch_descriptor eflags_ok_arch flag_query_def) (simp add: arith_flag_def Let_def)

lemma query_flags [simp]:
  "flag_query FLAG_CF" "flag_query FLAG_PF" "flag_query FLAG_AF" "flag_query FLAG_ZF" "flag_query FLAG_SF"
  "flag_query FLAG_OF" "flag_query FLAG_IF"
  by (simp_all add: flag_query_def) (simp add: flag_defs)

lemma eflags_ok_szp_live [simp]: "eflags_ok (set_szp_live s r w)"
  by (simp add: set_szp_live_def)

lemma eflags_ok_shift_flags [simp]: "eflags_ok (set_shift_result_flags s cf ovf r w)"
  by (simp add: set_shift_result_flags_def Let_def)

lemma arch_shift_flags:
  assumes ok: "eflags_ok s"
  shows "arch (set_shift_result_flags s cf ovf r w) = arch (set_shift_result_flags (arch s) cf ovf r w)"
proof (cases "pend_is_none (pending_flags s)")
  case True
  then have "set_shift_result_flags (arch s) cf ovf r w =
      (set_shift_result_flags s cf ovf r w)\<lparr>pending_flags := pending_default, flag_materializations := 0\<rparr>"
    by (simp add: set_shift_result_flags_def set_szp_live_def set_flag_live_alt Let_def materialized_none arch_def
        split: option.splits)
  moreover have "pend_is_none (pending_flags (set_shift_result_flags s cf ovf r w))"
    using True by (simp add: set_shift_result_flags_def set_szp_live_def Let_def split: option.splits)
  ultimately show ?thesis by (intro arch_eqI) (simp_all add: materialized_none)
next
  case False
  let ?t = "set_shift_result_flags s cf ovf r w" and ?u = "set_shift_result_flags (arch s) cf ovf r w"
  have "bit (eflags ?t) n = bit (eflags ?u) n" for n
    using False ok flag_arch [OF ok]
    by (auto simp: set_shift_result_flags_def set_szp_live_def Let_def bit_put_flag bit_materialized arith_bit_def flag_def
        split: option.splits)
  then have "eflags ?t = eflags ?u" by (simp add: bit_eq_iff)
  then show ?thesis using False
    by (intro arch_eqI)
       (simp_all add: materialized_none set_shift_result_flags_def set_szp_live_def set_flag_live_alt Let_def split: option.splits)
qed

section \<open>The remaining operations\<close>

lemma eflags_ok_write_gpr [simp]:
  "eflags_ok (write_gpr32 s i v32) = eflags_ok s" "eflags_ok (write_gpr16 s i v16) = eflags_ok s"
  "eflags_ok (write_gpr8 s i v8) = eflags_ok s"
  by (simp_all add: eflags_ok_def)

lemmas arch_out =
  arch_set_flag [symmetric] arch_set_szp [symmetric] arch_write_gpr [symmetric] flag_arch eflags_ok_set_flag

lemma arch_mul: "eflags_ok s \<Longrightarrow> cpu_mul (arch s) v sg w = arch (cpu_mul s v sg w)"
  by (cases w) (simp_all add: cpu_mul_def Let_def arch_out del: arch_write_gpr)

lemma eflags_ok_mul: "eflags_ok s \<Longrightarrow> eflags_ok (cpu_mul s v sg w)"
  by (cases w) (simp_all add: cpu_mul_def Let_def eflags_ok_set_flag)

lemma arch_imul:
  "eflags_ok s \<Longrightarrow> imul_truncated (arch s) a b sz = apsnd arch (imul_truncated s a b sz)"
  "eflags_ok s \<Longrightarrow> eflags_ok (snd (imul_truncated s a b sz))"
  by (cases sz; simp add: imul_truncated_def Let_def arch_out)+

lemma arch_div: "cpu_div (arch s) v sg w = map_sum id arch (cpu_div s v sg w)"
  by (cases w) (simp_all add: cpu_div_def Let_def split: option.split)

lemma eflags_ok_div: "eflags_ok s \<Longrightarrow> cpu_div s v sg w = Inr t \<Longrightarrow> eflags_ok t"
  by (cases w) (auto simp: cpu_div_def Let_def split: if_splits option.splits)

lemma arch_daa: "eflags_ok s \<Longrightarrow> daa (arch s) = arch (daa s)"
  by (simp add: daa_def Let_def arch_out del: arch_write_gpr)

lemma arch_das: "eflags_ok s \<Longrightarrow> das (arch s) = arch (das s)"
  by (simp add: das_def Let_def arch_out del: arch_write_gpr)

lemma arch_aaa: "eflags_ok s \<Longrightarrow> aaa (arch s) = arch (aaa s)"
  by (simp add: aaa_def Let_def arch_out del: arch_write_gpr)

lemma arch_aas: "eflags_ok s \<Longrightarrow> aas (arch s) = arch (aas s)"
  by (simp add: aas_def Let_def arch_out del: arch_write_gpr)

lemma arch_aam: "eflags_ok s \<Longrightarrow> aam (arch s) imm = map_sum id arch (aam s imm)"
  by (simp add: aam_def Let_def arch_out del: arch_write_gpr)

lemma arch_aad: "eflags_ok s \<Longrightarrow> aad (arch s) imm = arch (aad s imm)"
  by (simp add: aad_def Let_def arch_out del: arch_write_gpr)

lemma arch_salc: "eflags_ok s \<Longrightarrow> salc (arch s) = arch (salc s)"
  by (simp add: salc_def arch_out del: arch_write_gpr)

lemma arch_cmc: "eflags_ok s \<Longrightarrow> cmc (arch s) = arch (cmc s)"
  by (simp add: cmc_def arch_out)

lemma arch_condition: "eflags_ok s \<Longrightarrow> condition (arch s) c = condition s c"
  by (simp add: condition_def arch_out)

lemma arch_sahf: "eflags_ok s \<Longrightarrow> arch (sahf (arch s)) = arch (sahf s)"
  by (rule arch_eqI) (simp_all add: sahf_def Let_def materialize_flags_def materialized_none read_gpr8_def)

lemma arch_lahf: "eflags_ok s \<Longrightarrow> arch (lahf (arch s)) = arch (lahf s)"
  by (rule arch_eqI) (simp_all add: lahf_def Let_def materialize_flags_def materialized_none write_gpr8_def)

lemma iopl_arch: "eflags_ok s \<Longrightarrow> iopl (arch s) = iopl s"
proof -
  assume ok: "eflags_ok s"
  have "drop_bit 12 (materialized_eflags s) AND 3 = drop_bit 12 (eflags s) AND 3"
  proof (rule bit_word_eqI)
    fix n
    show "bit (drop_bit 12 (materialized_eflags s) AND 3) n = bit (drop_bit 12 (eflags s) AND 3) n"
      using ok by (auto simp: bit_and_iff bit_drop_bit_eq bit_materialized_iff arith_bit_def)
  qed
  then show ?thesis by (simp add: iopl_def)
qed

lemma privilege_arch: "eflags_ok s \<Longrightarrow> check_interrupt_flag_privilege (arch s) = check_interrupt_flag_privilege s"
  by (simp add: check_interrupt_flag_privilege_def is_protected_mode_def iopl_arch)

lemma arch_cli: "eflags_ok s \<Longrightarrow> cli (arch s) = map_sum id arch (cli s)"
  by (cases "check_interrupt_flag_privilege s") (simp_all add: cli_def privilege_arch arch_out)

lemma materialized_shadow [simp]: "materialized_eflags (s\<lparr>interrupt_shadow := b\<rparr>) = materialized_eflags s"
  by (rule materialized_cong) simp_all

lemma arch_shadow: "arch (s\<lparr>interrupt_shadow := b\<rparr>) = (arch s)\<lparr>interrupt_shadow := b\<rparr>"
  by (rule archI) simp_all

lemma arch_sti: "eflags_ok s \<Longrightarrow> sti (arch s) = map_sum id arch (sti s)"
  by (cases "check_interrupt_flag_privilege s") (simp_all add: sti_def privilege_arch arch_set_flag arch_shadow)

text \<open>\<open>load_flags\<close> keeps only control bits of the live register, which are never deferred.\<close>

lemma control_mask:
  "eflags_ok s \<Longrightarrow> m AND ARITH = 0 \<Longrightarrow> eflags (arch s) AND m = eflags s AND m"
  by (simp add: control_bits)

lemma arch_load_flags:
  assumes ok: "eflags_ok s"
  shows "load_flags (arch s) v sz vm = (load_flags s v sz vm)\<lparr>flag_materializations := 0\<rparr>"
proof -
  have m: "materialized_eflags s AND 0xffff0000 = eflags s AND 0xffff0000"
    "materialized_eflags s AND FLAG_IOPL = eflags s AND FLAG_IOPL"
    "materialized_eflags s AND FLAG_IF = eflags s AND FLAG_IF" "materialized_eflags s AND FLAG_VM = eflags s AND FLAG_VM"
    "materialized_eflags s AND (FLAG_AC OR FLAG_ID) = eflags s AND (FLAG_AC OR FLAG_ID)"
    "materialized_eflags s AND FLAG_ID = eflags s AND FLAG_ID"
    by (rule control_bits [OF ok]; simp add: flag_defs)+
  show ?thesis
    by (simp add: load_flags_def recompute_alignment_armed_def Let_def m arch_def
        split: operand_size.split cpu_persona.split)
qed

lemma eflags_ok_load_flags: "eflags_ok s \<Longrightarrow> eflags_ok (load_flags s v sz vm)"
  by (auto simp: eflags_ok_def load_flags_def recompute_alignment_armed_def Let_def bit_or_iff bit_and_iff bit_not_iff
      FLAG_IOPL_def split: operand_size.split cpu_persona.split)

section \<open>Programs of the integer unit\<close>

datatype call =
    Alu u8 u32 u32 bus_width
  | IncDec u32 bool bus_width
  | ShiftRotate u8 u32 u8 bus_width
  | DoubleShift bool u32 u32 u8 operand_size
  | Mul u32 bool bus_width
  | Imul u32 u32 operand_size
  | Div u32 bool bus_width
  | Daa | Das | Aaa | Aas | Aam u32 | Aad u32 | Salc
  | Sahf | Lahf | Cmc | Cli | Sti
  | SetFlag u32 bool
  | LoadFlags u32 operand_size bool
  | Condition u8
  | Settle

datatype outcome = Value u32 | Taken bool | Fault cpu_fault | Panic | Done

definition value_of :: "u32 \<times> cpu \<Rightarrow> outcome \<times> cpu" where
  "value_of r = (Value (fst r), snd r)"

definition value_or_panic :: "cpu \<Rightarrow> (u32 \<times> cpu) option \<Rightarrow> outcome \<times> cpu" where
  "value_or_panic s r = (case r of Some r \<Rightarrow> value_of r | None \<Rightarrow> (Panic, s))"

definition done_or_fault :: "cpu \<Rightarrow> cpu_fault + cpu \<Rightarrow> outcome \<times> cpu" where
  "done_or_fault s r = (case r of Inr t \<Rightarrow> (Done, t) | Inl f \<Rightarrow> (Fault f, s))"

fun exec :: "call \<Rightarrow> cpu \<Rightarrow> outcome \<times> cpu" where
  "exec (Alu opc a b w) s = value_or_panic s (alu s opc a b w)"
| "exec (IncDec v d w) s = value_of (inc_dec s v d w)"
| "exec (ShiftRotate opc v n w) s = value_or_panic s (shift_rotate s opc v n w)"
| "exec (DoubleShift left d v n sz) s = value_of (double_shift s left d v n sz)"
| "exec (Mul v sg w) s = (Done, cpu_mul s v sg w)"
| "exec (Imul a b sz) s = value_of (imul_truncated s a b sz)"
| "exec (Div v sg w) s = done_or_fault s (cpu_div s v sg w)"
| "exec Daa s = (Done, daa s)"
| "exec Das s = (Done, das s)"
| "exec Aaa s = (Done, aaa s)"
| "exec Aas s = (Done, aas s)"
| "exec (Aam imm) s = done_or_fault s (aam s imm)"
| "exec (Aad imm) s = (Done, aad s imm)"
| "exec Salc s = (Done, salc s)"
| "exec Sahf s = (Done, sahf s)"
| "exec Lahf s = (Done, lahf s)"
| "exec Cmc s = (Done, cmc s)"
| "exec Cli s = done_or_fault s (cli s)"
| "exec Sti s = done_or_fault s (sti s)"
| "exec (SetFlag f b) s = (Done, set_flag s f b)"
| "exec (LoadFlags v sz vm) s = (Done, load_flags s v sz vm)"
| "exec (Condition c) s = (Taken (condition s c), s)"
| "exec Settle s = (Done, materialize_flags s)"

text \<open>A program, with the outcomes of its instructions; settling is not an instruction.\<close>

fun exec_all :: "call list \<Rightarrow> cpu \<Rightarrow> outcome list \<times> cpu" where
  "exec_all [] s = ([], s)"
| "exec_all (c # cs) s =
     (let (r, s) = exec c s; (rs, s) = exec_all cs s in (if c = Settle then rs else r # rs, s))"

lemma eflags_ok_pending [simp]: "eflags_ok (s\<lparr>pending_flags := p\<rparr>) = eflags_ok s"
  by (simp add: eflags_ok_def)

lemma eflags_ok_alu_add: "eflags_ok s \<Longrightarrow> eflags_ok (snd (alu_add s a b c w))"
  by (simp add: alu_add_def alu_add_eager_def Let_def)

lemma eflags_ok_alu_sub: "eflags_ok s \<Longrightarrow> eflags_ok (snd (alu_sub s a b c w))"
  by (simp add: alu_sub_def alu_sub_eager_def Let_def)

lemma eflags_ok_alu_logic: "eflags_ok s \<Longrightarrow> eflags_ok (snd (alu_logic s r w))"
  by (simp add: alu_logic_def Let_def) (simp add: eflags_ok_def bit_or_iff)

lemma alu_arch:
  assumes ok: "eflags_ok s"
  shows "map_option fst (alu (arch s) opc a b w) = map_option fst (alu s opc a b w)"
    "map_option (arch \<circ> snd) (alu (arch s) opc a b w) = map_option (arch \<circ> snd) (alu s opc a b w)"
proof -
  note ok' = eflags_ok_arch [OF ok]
  have c: "carry_in (arch s) = carry_in s" by (simp add: carry_in_def flag_arch ok)
  show "map_option fst (alu (arch s) opc a b w) = map_option fst (alu s opc a b w)"
    by (simp add: alu_def c arch_alu_add [OF ok] arch_alu_add [OF ok'] arch_alu_sub [OF ok] arch_alu_sub [OF ok'])
       (simp add: alu_logic_def Let_def)
  show "map_option (arch \<circ> snd) (alu (arch s) opc a b w) = map_option (arch \<circ> snd) (alu s opc a b w)"
    by (simp add: alu_def c arch_alu_add [OF ok] arch_alu_add [OF ok'] arch_alu_sub [OF ok] arch_alu_sub [OF ok']
        arch_alu_logic [OF ok] arch_alu_logic [OF ok'] flag_arch [OF ok])
qed

lemma shift_arch:
  assumes ok: "eflags_ok s"
  shows "map_option fst (shift_rotate (arch s) opc v n w) = map_option fst (shift_rotate s opc v n w) \<and>
    map_option (arch \<circ> snd) (shift_rotate (arch s) opc v n w) = map_option (arch \<circ> snd) (shift_rotate s opc v n w)"
proof (cases "unat (n AND 0x1f) = 0")
  case True
  then show ?thesis by (simp add: shift_rotate_def)
next
  case False
  let ?loop = "shift_loop opc w (unat (n AND 0x1f)) (v AND width_mask w, (opc = 2 \<or> opc = 3) \<and> flag s FLAG_CF)"
  show ?thesis
  proof (cases ?loop)
    case None
    then show ?thesis using False by (simp add: shift_rotate_def Let_def flag_arch ok)
  next
    case (Some r)
    then obtain v' cf' where r: "?loop = Some (v', cf')" by (cases r) simp
    have f: "flag (arch s) FLAG_CF = flag s FLAG_CF" by (simp add: flag_arch ok)
    show ?thesis
    proof (cases "4 \<le> opc \<and> opc \<le> 7")
      case True
      then show ?thesis using False
        unfolding shift_rotate_def Let_def f r
        by (simp add: arch_shift_flags [OF ok] split del: if_split)
    next
      case n: False
      show ?thesis using False
        unfolding shift_rotate_def Let_def f r Option.bind.bind_lunit prod.case if_not_P [OF n]
        by (cases "unat (n AND 0x1f) = 1") (simp_all add: arch_set_flag ok eflags_ok_set_flag eflags_ok_arch)
    qed
  qed
qed

lemma double_shift_arch:
  assumes ok: "eflags_ok s"
  shows "fst (double_shift (arch s) left d v n sz) = fst (double_shift s left d v n sz)"
    "arch (snd (double_shift (arch s) left d v n sz)) = arch (snd (double_shift s left d v n sz))"
  using ok by (simp_all add: double_shift_def Let_def arch_shift_flags [symmetric] split: prod.split)

lemma eflags_ok_shift: "eflags_ok s \<Longrightarrow> shift_rotate s opc v n w = Some (r, t) \<Longrightarrow> eflags_ok t"
  by (auto simp: shift_rotate_def Let_def eflags_ok_set_flag bind_eq_Some_conv split: if_splits prod.splits)

lemma eflags_ok_exec:
  assumes ok: "eflags_ok s"
  shows "eflags_ok (snd (exec c s))"
proof (cases c)
  case (Alu opc a b w)
  then show ?thesis using ok
    by (auto simp: value_or_panic_def value_of_def alu_def eflags_ok_alu_add eflags_ok_alu_sub eflags_ok_alu_logic
        split: option.split)
next
  case (ShiftRotate opc v n w)
  then show ?thesis using ok
    by (auto simp: value_or_panic_def value_of_def dest: eflags_ok_shift split: option.split)
next
  case (DoubleShift left d v n sz)
  then show ?thesis using ok
    by (simp add: value_of_def double_shift_def Let_def split: prod.split)
next
  case (Div v sg w)
  then show ?thesis using ok
    by (auto simp: done_or_fault_def dest: eflags_ok_div split: sum.split)
next
  case Sahf
  then show ?thesis by (simp add: sahf_def Let_def) (simp add: eflags_ok_def bit_or_iff)
next
  case Cli
  then show ?thesis using ok
    by (cases "check_interrupt_flag_privilege s") (simp_all add: cli_def done_or_fault_def eflags_ok_set_flag)
next
  case Sti
  then show ?thesis using ok eflags_ok_set_flag [OF ok, of FLAG_IF True]
    by (cases "check_interrupt_flag_privilege s") (simp_all add: sti_def done_or_fault_def eflags_ok_def)
qed (use ok in \<open>simp_all add: value_of_def inc_dec_def Let_def eflags_ok_mul arch_imul done_or_fault_def daa_def das_def aaa_def
      aas_def aam_def aad_def salc_def lahf_def cmc_def eflags_ok_set_flag eflags_ok_load_flags eflags_ok_materialize\<close>)

lemma value_or_panic_arch:
  assumes "map_option fst x = map_option fst y \<and> map_option (arch \<circ> snd) x = map_option (arch \<circ> snd) y"
  shows "fst (value_or_panic (arch s) x) = fst (value_or_panic s y)" "arch (snd (value_or_panic (arch s) x)) = arch (snd (value_or_panic s y))"
  using assms by (cases x; cases y; simp add: value_or_panic_def value_of_def)+

lemma done_or_fault_arch:
  "fst (done_or_fault (arch s) (map_sum id arch x)) = fst (done_or_fault s x)"
  "arch (snd (done_or_fault (arch s) (map_sum id arch x))) = arch (snd (done_or_fault s x))"
  by (cases x; simp add: done_or_fault_def)+

lemma exec_arch:
  assumes ok: "eflags_ok s"
  shows "fst (exec c (arch s)) = fst (exec c s) \<and> arch (snd (exec c (arch s))) = arch (snd (exec c s))"
proof (cases c)
  case (Alu opc a b w)
  then show ?thesis using alu_arch [OF ok] by (simp add: value_or_panic_arch)
next
  case (ShiftRotate opc v n w)
  then show ?thesis using value_or_panic_arch [OF shift_arch [OF ok]] by simp
next
  case (LoadFlags v sz vm)
  then show ?thesis
    by (simp add: arch_load_flags [OF ok]) (rule arch_eqI, simp_all add: load_flags_def Let_def recompute_alignment_armed_def materialized_none)
next
  case Settle
  then show ?thesis by simp
qed (use ok in \<open>simp_all add: value_of_def arch_inc_dec [symmetric] double_shift_arch arch_mul arch_imul arch_div done_or_fault_arch
      arch_daa arch_das arch_aaa arch_aas arch_aam arch_aad arch_salc arch_sahf arch_lahf arch_cmc arch_cli arch_sti
      arch_set_flag eflags_ok_arch arch_condition\<close>)

lemma exec_same_arch:
  assumes "eflags_ok s" "eflags_ok t" "arch s = arch t"
  shows "fst (exec c s) = fst (exec c t)" "arch (snd (exec c s)) = arch (snd (exec c t))"
  using exec_arch [OF assms(1), of c] exec_arch [OF assms(2), of c] assms(3) by simp_all

lemma exec_all_unsettled:
  assumes "eflags_ok s" "eflags_ok t" "arch s = arch t"
  shows "fst (exec_all cs s) = fst (exec_all (filter (\<lambda>c. c \<noteq> Settle) cs) t) \<and>
         arch (snd (exec_all cs s)) = arch (snd (exec_all (filter (\<lambda>c. c \<noteq> Settle) cs) t))"
  using assms
proof (induction cs arbitrary: s t)
  case (Cons c cs)
  show ?case
  proof (cases "c = Settle")
    case True
    have "eflags_ok (materialize_flags s)" using Cons.prems(1) by (rule eflags_ok_materialize)
    from Cons.IH [OF this Cons.prems(2)] show ?thesis
      using True Cons.prems(3) by (simp add: split_beta)
  next
    case False
    from Cons.IH [OF eflags_ok_exec [OF Cons.prems(1)] eflags_ok_exec [OF Cons.prems(2)] exec_same_arch(2) [OF Cons.prems]]
    show ?thesis using False exec_same_arch(1) [OF Cons.prems, of c] by (simp add: split_beta)
  qed
qed simp

definition reset_cpu :: cpu where
  "reset_cpu = \<lparr>gpr = replicate 8 0, eflags = 2, pending_flags = pending_default, cr0 = 0, cpl = 0, cpu_mode = Gsw386,
     alignment_armed = False, interrupt_shadow = False, flag_materializations = 0\<rparr>"

text \<open>C4: Deferring the flags is invisible. Two runs of the same sequence of integer operations (arithmetic,
  logic, shifts, multiply, divide, decimal adjust, flag loads and flag writes, condition tests), from states
  that differ at most in which flags are still deferred, and with the deferred flags settled at any points
  whatever of either run, return the same results, the same conditions and the same faults, and end in the
  same registers and architectural flags.\<close>

theorem lazy_flags_transparent:
  assumes "eflags_ok s" "eflags_ok t" "arch s = arch t"
    and "filter (\<lambda>c. c \<noteq> Settle) cs = filter (\<lambda>c. c \<noteq> Settle) ds"
  shows "fst (exec_all cs s) = fst (exec_all ds t) \<and> arch (snd (exec_all cs s)) = arch (snd (exec_all ds t))"
  using exec_all_unsettled [OF assms(1,2,3), of cs] exec_all_unsettled [OF assms(2,2) refl, of ds] assms(4) by simp

theorem lazy_flags_transparent_witness:
  "fst (exec_all [Alu 0 0xff 1 Byte, Settle, Alu 2 0 0 Byte, Condition 2] reset_cpu) =
   fst (exec_all [Alu 0 0xff 1 Byte, Alu 2 0 0 Byte, Settle, Condition 2] (materialize_flags reset_cpu))"
  by (rule lazy_flags_transparent [THEN conjunct1])
     (simp_all add: eflags_ok_def reset_cpu_def materialize_flags_def)

end
