(* ===== verification/Cpu_Exact.thy ===== *)
theory Cpu_Exact
  imports Cpu_Flags
begin

text \<open>
  What the integer unit computes, in terms of the numbers its operands stand for: results, carries,
  overflows and condition codes of addition, subtraction and comparison at each width, multiplication
  and division with their faults, shifts and rotates in closed form, and packed decimal addition.
\<close>

section \<open>Operands as numbers\<close>

definition wbits :: "bus_width \<Rightarrow> nat" where
  "wbits w = width_bytes w * 8"

text \<open>The index of the sign bit.\<close>

definition wtop :: "bus_width \<Rightarrow> nat" where
  "wtop w = wbits w - 1"

definition uval :: "bus_width \<Rightarrow> u32 \<Rightarrow> nat" where
  "uval w a = unat a mod 2 ^ wbits w"

definition sval :: "bus_width \<Rightarrow> u32 \<Rightarrow> int" where
  "sval w a = (if 2 ^ wtop w \<le> uval w a then int (uval w a) - 2 ^ wbits w else int (uval w a))"

lemma wbits_simps [simp]: "wbits Byte = 8" "wbits Word = 16" "wbits Dword = 32"
  by (simp_all add: wbits_def)

lemma wtop_simps [simp]: "wtop Byte = 7" "wtop Word = 15" "wtop Dword = 31"
  by (simp_all add: wtop_def)

lemma width_mask_eq: "width_mask w = mask (wbits w)"
  by (cases w) (simp_all add: mask_eq_exp_minus_1)

lemma width_sign_eq: "width_sign w = push_bit (wtop w) 1"
  by (cases w) simp_all

lemma unat_masked: "unat (a AND width_mask w) = uval w a"
  by (simp add: width_mask_eq uval_def unsigned_take_bit_eq flip: take_bit_eq_mask take_bit_eq_mod)

lemma and_sign [simp]: "a AND width_sign w = 0 \<longleftrightarrow> \<not> bit a (wtop w)"
  unfolding width_sign_eq using and_push_bit_1_nonzero by blast

lemma uval_less: "uval w a < 2 ^ wbits w"
  by (simp add: uval_def)

lemma uval_masked [simp]: "uval w (a AND width_mask w) = uval w a"
  by (simp add: uval_def unat_masked)

lemma odd_div_pow2: "odd ((x::nat) div 2 ^ k) \<longleftrightarrow> 2 ^ k \<le> x mod 2 ^ Suc k"
proof -
  have e: "x mod 2 ^ Suc k = 2 ^ k * (x div 2 ^ k mod 2) + x mod 2 ^ k"
    using mod_mult2_eq [of x "2 ^ k" 2] by (simp add: mult.commute)
  have l: "x mod 2 ^ k < 2 ^ k" by simp
  show ?thesis
  proof (cases "even (x div 2 ^ k)")
    case True
    then have "x div 2 ^ k mod 2 = 0" by presburger
    then have "\<not> 2 ^ k \<le> x mod 2 ^ Suc k" using e l by (simp add: not_le)
    then show ?thesis using True by simp
  next
    case False
    then have "x div 2 ^ k mod 2 = 1" by presburger
    then show ?thesis using e False by simp
  qed
qed

lemma bit_odd_unat: "bit (a :: u32) k \<longleftrightarrow> odd (unat a div 2 ^ k)"
proof -
  have "bit a k = bit (unat a) k"
    by (auto simp: bit_unsigned_iff dest: bit_u32)
  then show ?thesis by (simp add: bit_iff_odd)
qed

lemma wbits_Suc: "wbits w = Suc (wtop w)"
  by (cases w) simp_all

lemma top_bit: "bit a (wtop w) \<longleftrightarrow> 2 ^ wtop w \<le> uval w a"
  using odd_div_pow2 [of "unat a" "wtop w"] wbits_Suc [of w] by (simp add: bit_odd_unat uval_def)

lemma sval_negative: "sval w a < 0 \<longleftrightarrow> bit a (wtop w)"
proof -
  have "int (uval w a) < 2 ^ wbits w" using uval_less [of w a] by (metis of_nat_less_iff of_nat_numeral of_nat_power)
  then show ?thesis by (auto simp: sval_def top_bit)
qed

section \<open>Addition and subtraction\<close>

text \<open>Overflow of an \<open>n\<close>-bit sum and difference, read off the sign bits.\<close>

lemma add_overflow_signs:
  fixes S a b r c :: int
  assumes "0 \<le> a" "a < 2 * S" "0 \<le> b" "b < 2 * S" "0 \<le> c" "c \<le> 1"
    and r: "r = (a + b + c) mod (2 * S)"
  defines "sg \<equiv> \<lambda>x. if S \<le> x then x - 2 * S else x"
  shows "(S \<le> a) \<noteq> (S \<le> r) \<and> (S \<le> b) \<noteq> (S \<le> r) \<longleftrightarrow> \<not> (- S \<le> sg a + sg b + c \<and> sg a + sg b + c < S)"
proof (cases "a + b + c < 2 * S")
  case True
  then have "r = a + b + c" using assms by simp
  then show ?thesis using assms True by (auto simp: sg_def)
next
  case False
  then have "(a + b + c) mod (2 * S) = (a + b + c - 2 * S) mod (2 * S)" by simp
  also have "\<dots> = a + b + c - 2 * S" using False assms by (intro mod_pos_pos_trivial) auto
  finally have "r = a + b + c - 2 * S" using r by simp
  then show ?thesis using assms False by (auto simp: sg_def)
qed

lemma sub_overflow_signs:
  fixes S a b r c :: int
  assumes "0 \<le> a" "a < 2 * S" "0 \<le> b" "b < 2 * S" "0 \<le> c" "c \<le> 1"
    and r: "r = (a - b - c) mod (2 * S)"
  defines "sg \<equiv> \<lambda>x. if S \<le> x then x - 2 * S else x"
  shows "(S \<le> a) \<noteq> (S \<le> b) \<and> (S \<le> a) \<noteq> (S \<le> r) \<longleftrightarrow> \<not> (- S \<le> sg a - sg b - c \<and> sg a - sg b - c < S)"
proof (cases "0 \<le> a - b - c")
  case True
  then have "r = a - b - c" using assms by simp
  then show ?thesis using assms True by (auto simp: sg_def)
next
  case False
  then have "(a - b - c) mod (2 * S) = (a - b - c + 2 * S) mod (2 * S)" by simp
  also have "\<dots> = a - b - c + 2 * S" using False assms by (intro mod_pos_pos_trivial) auto
  finally have "r = a - b - c + 2 * S" using r by simp
  then show ?thesis using assms False by (auto simp: sg_def)
qed

lemma uval_int: "int (uval w a) = uint a mod 2 ^ wbits w"
  by (simp add: uval_def zmod_int)

lemma uint_masked: "uint (a AND width_mask w) = int (uval w a)"
  using unat_masked [of a w] by (metis uint_nat)

lemma uval_truncated: "int (uval w (ucast (x :: u64))) = uint x mod 2 ^ wbits w"
proof -
  have d: "2 ^ wbits w dvd (2 ^ 32 :: int)" by (cases w) simp_all
  have "uint (ucast x :: u32) = uint x mod 2 ^ 32"
    by (simp add: unsigned_ucast_eq take_bit_eq_mod)
  then show ?thesis by (simp only: uval_int mod_mod_cancel [OF d])
qed

lemma uint_ucast64 [simp]: "uint (ucast (x :: u32) :: u64) = uint x"
proof -
  have "uint x < 2 ^ 32" using uint_lt2p [of x] by simp
  then show ?thesis by (simp add: unsigned_ucast_eq take_bit_eq_mod)
qed

lemma uval_bound: "uval w a < 4294967296"
  using uval_less [of w a] by (cases w) simp_all

lemma uint_full_sum:
  fixes c :: u32
  assumes "c \<le> 1"
  shows "uint ((ucast (a AND width_mask w) :: u64) + ucast (b AND width_mask w) + ucast c) = int (uval w a) + int (uval w b) + uint c"
proof -
  have "uint c \<le> 1" using assms by (simp add: word_le_def)
  then show ?thesis
    using uval_bound [of w a] uval_bound [of w b]
    by (simp add: uint_word_ariths uint_masked take_bit_eq_mod)
qed

lemma uint_full_diff:
  fixes c :: u32
  assumes "c \<le> 1"
  shows "uint ((ucast (a AND width_mask w) :: u64) - (ucast (b AND width_mask w) + ucast c)) mod 2 ^ wbits w =
           (int (uval w a) - int (uval w b) - uint c) mod 2 ^ wbits w"
    "uint ((ucast (b AND width_mask w) :: u64) + ucast c) = int (uval w b) + uint c"
proof -
  have c: "uint c \<le> 1" using assms by (simp add: word_le_def)
  show s: "uint ((ucast (b AND width_mask w) :: u64) + ucast c) = int (uval w b) + uint c"
    using uval_bound [of w b] c by (simp add: uint_word_ariths uint_masked)
  have d: "2 ^ wbits w dvd (18446744073709551616 :: int)" by (cases w) simp_all
  show "uint ((ucast (a AND width_mask w) :: u64) - (ucast (b AND width_mask w) + ucast c)) mod 2 ^ wbits w =
           (int (uval w a) - int (uval w b) - uint c) mod 2 ^ wbits w"
    by (simp add: uint_word_ariths(2) s uint_masked mod_mod_cancel [OF d] diff_diff_eq del: uint_word_ariths(1))
qed

text \<open>The half carry is the parity of bit four.\<close>

lemma div16_split: "(16 * x + p :: int) div 16 = x + p div 16"
  by simp

lemma div16_carry: "0 \<le> (k :: int) \<Longrightarrow> k < 32 \<Longrightarrow> k div 16 = (if 16 \<le> k then 1 else 0)"
  by presburger

lemma div16_borrow: "- 17 < (k :: int) \<Longrightarrow> k < 16 \<Longrightarrow> k div 16 = (if k < 0 then - 1 else 0)"
  by presburger

lemma half_carry_add:
  fixes a b c :: int
  assumes c: "0 \<le> c" "c \<le> 1"
  shows "(odd (a div 16) \<noteq> odd (b div 16)) \<noteq> odd ((a + b + c) div 16) \<longleftrightarrow> 16 \<le> a mod 16 + b mod 16 + c"
proof -
  let ?k = "a mod 16 + b mod 16 + c"
  have "a + b + c = 16 * (a div 16 + b div 16) + ?k" by simp
  then have d: "(a + b + c) div 16 = a div 16 + b div 16 + ?k div 16" by (simp only: div16_split)
  have "0 \<le> ?k" "?k < 32" using c by simp_all
  then have "?k div 16 = (if 16 \<le> ?k then 1 else 0)" by (rule div16_carry)
  then show ?thesis using d by auto
qed

lemma half_carry_sub:
  fixes a b c :: int
  assumes c: "0 \<le> c" "c \<le> 1"
  shows "(odd (a div 16) \<noteq> odd (b div 16)) \<noteq> odd ((a - b - c) div 16) \<longleftrightarrow> a mod 16 < b mod 16 + c"
proof -
  let ?k = "a mod 16 - b mod 16 - c"
  have "a - b - c = 16 * (a div 16 - b div 16) + ?k" by (simp add: algebra_simps)
  then have d: "(a - b - c) div 16 = a div 16 - b div 16 + ?k div 16" by (simp only: div16_split)
  have "- 17 < ?k" "?k < 16"
    using c pos_mod_bound [of 16 a] pos_mod_bound [of 16 b] pos_mod_sign [of 16 a] pos_mod_sign [of 16 b] by linarith+
  then have "?k div 16 = (if ?k < 0 then - 1 else 0)" by (rule div16_borrow)
  then show ?thesis using d by auto
qed

lemma bit4_uint: "bit (x :: u32) 4 \<longleftrightarrow> odd (uint x div 16)"
proof -
  have "uint x div 16 = int (unat x div 16)" using zdiv_int [of "unat x" 16] by simp
  then have "odd (uint x div 16) \<longleftrightarrow> odd (unat x div 16)" by (simp only: even_of_nat)
  then show ?thesis using bit_odd_unat [of x 4] by simp
qed

lemma odd_div16_mod: "odd ((x :: int) mod 2 ^ wbits w div 16) \<longleftrightarrow> odd (x div 16)"
proof -
  have "bit (take_bit (wbits w) x) 4 = bit x 4" by (cases w) (simp_all add: bit_take_bit_iff)
  then show ?thesis by (simp add: bit_iff_odd take_bit_eq_mod)
qed

lemma and_16: "(x :: u32) AND 16 = 0 \<longleftrightarrow> \<not> bit x 4"
  using and_flag(3) [of x] by (simp add: FLAG_AF_def)

lemma bit_xor_u32: "bit ((x :: u32) XOR y) n \<longleftrightarrow> bit x n \<noteq> bit y n"
  by (simp add: bit_xor_iff)

text \<open>Signed overflow of a width.\<close>

definition overflows :: "bus_width \<Rightarrow> int \<Rightarrow> bool" where
  "overflows w x \<longleftrightarrow> \<not> (- (2 ^ wtop w) \<le> x \<and> x < 2 ^ wtop w)"

lemma two_tops: "(2 :: int) ^ wbits w = 2 * 2 ^ wtop w"
  by (cases w) simp_all

lemma top_bit_int: "bit a (wtop w) \<longleftrightarrow> 2 ^ wtop w \<le> int (uval w a)"
  by (metis of_nat_le_iff of_nat_numeral of_nat_power top_bit)

lemma bit_masked: "n < wbits w \<Longrightarrow> bit (a AND width_mask w) n \<longleftrightarrow> bit a n"
  by (simp add: width_mask_eq bit_and_iff bit_mask_iff) (cases w; simp)

lemma wtop_less: "wtop w < wbits w" "4 < wbits w"
  by (cases w; simp)+

lemma sval_alt: "sval w a = (if 2 ^ wtop w \<le> int (uval w a) then int (uval w a) - 2 * 2 ^ wtop w else int (uval w a))"
  using top_bit [of a w] top_bit_int [of a w] by (simp add: sval_def two_tops)

lemma uval_int_bounds: "0 \<le> int (uval w a)" "int (uval w a) < 2 * 2 ^ wtop w"
  using uval_less [of w a] by (simp_all flip: two_tops)

lemma and_and_sign: "x AND y AND width_sign w = 0 \<longleftrightarrow> \<not> (bit x (wtop w) \<and> bit y (wtop w))"
  by (simp only: and.assoc [symmetric] and_sign bit_and_iff)

lemma overflow_add:
  assumes r: "int (uval w r) = (int (uval w a) + int (uval w b) + c) mod 2 ^ wbits w" and c: "0 \<le> c" "c \<le> 1"
  shows "((a XOR r) AND (b XOR r) AND width_sign w \<noteq> 0) \<longleftrightarrow> overflows w (sval w a + sval w b + c)"
  using add_overflow_signs [OF uval_int_bounds [of w a] uval_int_bounds [of w b] c r [unfolded two_tops]]
  by (simp only: and_and_sign bit_xor_u32 overflows_def sval_alt not_not) (simp only: top_bit_int)

lemma overflow_sub:
  assumes r: "int (uval w r) = (int (uval w a) - int (uval w b) - c) mod 2 ^ wbits w" and c: "0 \<le> c" "c \<le> 1"
  shows "((a XOR b) AND (a XOR r) AND width_sign w \<noteq> 0) \<longleftrightarrow> overflows w (sval w a - sval w b - c)"
  using sub_overflow_signs [OF uval_int_bounds [of w a] uval_int_bounds [of w b] c r [unfolded two_tops]]
  by (simp only: and_and_sign bit_xor_u32 overflows_def sval_alt not_not) (simp only: top_bit_int)

lemma bit4_uval: "bit a 4 \<longleftrightarrow> odd (int (uval w a) div 16)"
  by (simp add: uval_int odd_div16_mod bit4_uint)

lemma mod16_uval: "int (uval w a) mod 16 = uint a mod 16"
proof -
  have "(16 :: int) dvd 2 ^ wbits w" by (cases w) simp_all
  then show ?thesis by (simp add: uval_int mod_mod_cancel)
qed

lemma adjust_add:
  assumes r: "int (uval w r) = (int (uval w a) + int (uval w b) + c) mod 2 ^ wbits w" and c: "0 \<le> c" "c \<le> 1"
  shows "((a XOR b XOR r) AND 0x10 \<noteq> 0) \<longleftrightarrow> 16 \<le> uint a mod 16 + uint b mod 16 + c"
proof -
  have "((a XOR b XOR r) AND 0x10 \<noteq> 0) \<longleftrightarrow> (bit a 4 \<noteq> bit b 4) \<noteq> bit r 4"
    by (simp only: and_16 bit_xor_u32) blast
  also have "\<dots> \<longleftrightarrow> (odd (int (uval w a) div 16) \<noteq> odd (int (uval w b) div 16)) \<noteq>
      odd ((int (uval w a) + int (uval w b) + c) div 16)"
    by (simp only: bit4_uval [of _ w] r odd_div16_mod)
  finally show ?thesis
    by (simp only: half_carry_add [OF c] mod16_uval)
qed

lemma adjust_sub:
  assumes r: "int (uval w r) = (int (uval w a) - int (uval w b) - c) mod 2 ^ wbits w" and c: "0 \<le> c" "c \<le> 1"
  shows "((a XOR b XOR r) AND 0x10 \<noteq> 0) \<longleftrightarrow> uint a mod 16 < uint b mod 16 + c"
proof -
  have "((a XOR b XOR r) AND 0x10 \<noteq> 0) \<longleftrightarrow> (bit a 4 \<noteq> bit b 4) \<noteq> bit r 4"
    by (simp only: and_16 bit_xor_u32) blast
  also have "\<dots> \<longleftrightarrow> (odd (int (uval w a) div 16) \<noteq> odd (int (uval w b) div 16)) \<noteq>
      odd ((int (uval w a) - int (uval w b) - c) div 16)"
    by (simp only: bit4_uval [of _ w] r odd_div16_mod)
  finally show ?thesis
    by (simp only: half_carry_sub [OF c] mod16_uval)
qed

text \<open>Reading the flags an operation leaves.\<close>

lemma put_arith_sel [simp]: "gpr (put_arith cf v af s r w) = gpr s"
  by (simp add: put_arith_def set_szp_def set_szp_live_def materialize_flags_def)

lemma flags_put_arith:
  assumes "pend_is_none (pending_flags s)"
  shows "flag (put_arith cf v af s r w) FLAG_CF = cf" "flag (put_arith cf v af s r w) FLAG_OF = v"
    "flag (put_arith cf v af s r w) FLAG_AF = af" "flag (put_arith cf v af s r w) FLAG_ZF = (r AND width_mask w = 0)"
    "flag (put_arith cf v af s r w) FLAG_SF = bit r (wtop w)" "flag (put_arith cf v af s r w) FLAG_PF = parity (ucast r)"
  using assms by (simp_all add: put_arith_none flag_def bit_put_flag)

lemma control_put_arith:
  assumes n: "pend_is_none (pending_flags s)" and ok: "eflags_ok s" and f: "f AND ARITH = 0"
  shows "flag (put_arith cf v af s r w) f = flag s f"
proof -
  have "\<not> (bit f n \<and> bit ARITH n)" for n
    using f by (metis bit_0_eq bit_and_iff bot_apply bot_bool_def)
  then have "eflags (put_arith cf v af s r w) AND f = eflags s AND f"
    using n ok by (intro bit_word_eqI) (auto simp: put_arith_none bit_and_iff bit_put_flag eflags_ok_def)
  then show ?thesis using n by (simp add: flag_def put_arith_none)
qed

lemma flags_of_arch:
  assumes ok: "eflags_ok t" and t: "arch t = put_arith cf v af (arch s) r w" and s: "eflags_ok s"
  shows "flag t FLAG_CF = cf" "flag t FLAG_OF = v" "flag t FLAG_AF = af" "flag t FLAG_ZF = (r AND width_mask w = 0)"
    "flag t FLAG_SF = bit r (wtop w)" "flag t FLAG_PF = parity (ucast r)"
    "f AND ARITH = 0 \<Longrightarrow> flag t f = flag s f" "gpr t = gpr s"
proof -
  have e: "flag_query f \<Longrightarrow> flag t f = flag (put_arith cf v af (arch s) r w) f" for f
    using flag_arch [OF ok, of f] t by simp
  show "flag t FLAG_CF = cf" "flag t FLAG_OF = v" "flag t FLAG_AF = af" "flag t FLAG_ZF = (r AND width_mask w = 0)"
    "flag t FLAG_SF = bit r (wtop w)" "flag t FLAG_PF = parity (ucast r)"
    by (simp_all add: e flags_put_arith)
  show "f AND ARITH = 0 \<Longrightarrow> flag t f = flag s f"
    by (simp add: e flag_query_def control_put_arith eflags_ok_arch [OF s] flag_arch [OF s])
  show "gpr t = gpr s" using arg_cong [OF t, of gpr] by simp
qed

definition arith_of :: "u8 \<Rightarrow> bool \<Rightarrow> int \<Rightarrow> int \<Rightarrow> int" where
  "arith_of opc c x y =
     (if opc = 0 then x + y else if opc = 2 then x + y + of_bool c
      else if opc = 3 then x - y - of_bool c else x - y)"

lemma arith_of_fun:
  "arith_of 0 c = (+)" "arith_of 2 c = (\<lambda>x y. x + y + of_bool c)" "arith_of 3 c = (\<lambda>x y. x - y - of_bool c)"
  "arith_of 5 c = (-)" "arith_of 7 c = (-)"
  by (simp_all add: arith_of_def fun_eq_iff)

text \<open>What the flags and the result of an addition or subtraction must be.\<close>

definition arith_exact :: "(int \<Rightarrow> int \<Rightarrow> int) \<Rightarrow> bus_width \<Rightarrow> u32 \<Rightarrow> u32 \<Rightarrow> u32 \<Rightarrow> cpu \<Rightarrow> cpu \<Rightarrow> bool" where
  "arith_exact x w a b r s t \<longleftrightarrow>
     int (unat r) = x (int (uval w a)) (int (uval w b)) mod 2 ^ wbits w \<and>
     (flag t FLAG_CF \<longleftrightarrow> \<not> (0 \<le> x (int (uval w a)) (int (uval w b)) \<and> x (int (uval w a)) (int (uval w b)) < 2 ^ wbits w)) \<and>
     (flag t FLAG_OF \<longleftrightarrow> overflows w (x (sval w a) (sval w b))) \<and>
     (flag t FLAG_AF \<longleftrightarrow> \<not> (0 \<le> x (uint a mod 16) (uint b mod 16) \<and> x (uint a mod 16) (uint b mod 16) < 16)) \<and>
     (flag t FLAG_ZF \<longleftrightarrow> r = 0) \<and> (flag t FLAG_SF \<longleftrightarrow> sval w r < 0) \<and> (flag t FLAG_PF \<longleftrightarrow> parity (ucast r))"

lemma masked_zero: "unat r < 2 ^ wbits w \<Longrightarrow> r AND width_mask w = 0 \<longleftrightarrow> r = 0"
  using unat_masked [of r w] by (metis and_zero_eq mod_less uval_def word_unat_eq_iff)

lemma alu_add_exact:
  fixes c :: u32
  assumes ok: "eflags_ok s" and c: "c \<le> 1" and r: "alu_add s a b c w = (r, t)"
  shows "arith_exact (\<lambda>x y. x + y + uint c) w a b r s t"
    "arch t = put_arith (flag t FLAG_CF) (flag t FLAG_OF) (flag t FLAG_AF) (arch s) r w"
proof -
  let ?m = "width_mask w" and ?A = "int (uval w a)" and ?B = "int (uval w b)"
  let ?full = "(ucast (a AND ?m) :: u64) + ucast (b AND ?m) + ucast c"
  have r': "r = (ucast ?full :: u32) AND ?m" and t': "arch t = snd (alu_add_eager (arch s) a b c w)"
    using arch_alu_add [OF ok, of a b c w] r by (simp_all add: alu_add_eager_def Let_def)
  have okt: "eflags_ok t" using eflags_ok_alu_add [OF ok, of a b c w] r by simp
  have cc: "0 \<le> uint c" "uint c \<le> 1" using c by (simp_all add: word_le_def)
  have u: "int (uval w r) = (?A + ?B + uint c) mod 2 ^ wbits w"
    unfolding r' uval_masked uval_truncated uint_full_sum [OF c] ..
  have ur: "unat r = uval w r" unfolding r' by (simp only: unat_masked uval_masked)
  let ?cf = "?full > ucast ?m" and ?v = "((a AND ?m) XOR r) AND ((b AND ?m) XOR r) AND width_sign w \<noteq> 0"
    and ?af = "((a AND ?m) XOR (b AND ?m) XOR r) AND 0x10 \<noteq> 0"
  have t'': "arch t = put_arith ?cf ?v ?af (arch s) r w"
    unfolding t' r' alu_add_eager_def Let_def put_arith_def by simp
  note f = flags_of_arch [OF okt t'' ok]
  have "?cf \<longleftrightarrow> 2 ^ wbits w \<le> ?A + ?B + uint c"
    unfolding word_less_def uint_full_sum [OF c] by (cases w; simp; linarith)
  moreover have "?v \<longleftrightarrow> overflows w (sval w a + sval w b + uint c)"
    using overflow_add [of w r "a AND ?m" "b AND ?m" "uint c"] u cc by (simp add: sval_def)
  moreover have "?af \<longleftrightarrow> 16 \<le> uint a mod 16 + uint b mod 16 + uint c"
    using adjust_add [of w r "a AND ?m" "b AND ?m" "uint c"] u cc by (simp add: uint_masked mod16_uval)
  moreover have "unat r < 2 ^ wbits w" using uval_less ur by simp
  ultimately show "arith_exact (\<lambda>x y. x + y + uint c) w a b r s t"
    using u ur cc f by (simp add: arith_exact_def masked_zero sval_negative not_less del: of_nat_add)
  show "arch t = put_arith (flag t FLAG_CF) (flag t FLAG_OF) (flag t FLAG_AF) (arch s) r w"
    unfolding f by (rule t'')
qed

lemma alu_sub_exact:
  fixes c :: u32
  assumes ok: "eflags_ok s" and c: "c \<le> 1" and r: "alu_sub s a b c w = (r, t)"
  shows "arith_exact (\<lambda>x y. x - y - uint c) w a b r s t"
    "arch t = put_arith (flag t FLAG_CF) (flag t FLAG_OF) (flag t FLAG_AF) (arch s) r w"
proof -
  let ?m = "width_mask w" and ?A = "int (uval w a)" and ?B = "int (uval w b)"
  let ?rhs = "(ucast (b AND ?m) :: u64) + ucast c"
  let ?full = "(ucast (a AND ?m) :: u64) - ?rhs"
  have r': "r = (ucast ?full :: u32) AND ?m" and t': "arch t = snd (alu_sub_eager (arch s) a b c w)"
    using arch_alu_sub [OF ok, of a b c w] r by (simp_all add: alu_sub_eager_def Let_def)
  have okt: "eflags_ok t" using eflags_ok_alu_sub [OF ok, of a b c w] r by simp
  have cc: "0 \<le> uint c" "uint c \<le> 1" using c by (simp_all add: word_le_def)
  have u: "int (uval w r) = (?A - ?B - uint c) mod 2 ^ wbits w"
    unfolding r' uval_masked uval_truncated uint_full_diff(1) [OF c] ..
  have ur: "unat r = uval w r" unfolding r' by (simp only: unat_masked uval_masked)
  let ?cf = "ucast (a AND ?m) < ?rhs" and ?v = "((a AND ?m) XOR (b AND ?m)) AND ((a AND ?m) XOR r) AND width_sign w \<noteq> 0"
    and ?af = "((a AND ?m) XOR (b AND ?m) XOR r) AND 0x10 \<noteq> 0"
  have t'': "arch t = put_arith ?cf ?v ?af (arch s) r w"
    unfolding t' r' alu_sub_eager_def Let_def put_arith_def by simp
  note f = flags_of_arch [OF okt t'' ok]
  have "?cf \<longleftrightarrow> ?A < ?B + uint c"
    unfolding word_less_def uint_full_diff(2) [OF c] by (simp add: uint_masked)
  moreover have "?v \<longleftrightarrow> overflows w (sval w a - sval w b - uint c)"
    using overflow_sub [of w r "a AND ?m" "b AND ?m" "uint c"] u cc by (simp add: sval_def)
  moreover have "?af \<longleftrightarrow> uint a mod 16 < uint b mod 16 + uint c"
    using adjust_sub [of w r "a AND ?m" "b AND ?m" "uint c"] u cc by (simp add: uint_masked mod16_uval)
  moreover have "unat r < 2 ^ wbits w" using uval_less ur by simp
  moreover have "?A - ?B - uint c < 2 ^ wbits w" "uint a mod 16 - uint b mod 16 - uint c < 16"
  proof -
    have "uint a mod 16 < 16" "0 \<le> uint b mod 16" by simp_all
    then show "?A - ?B - uint c < 2 ^ wbits w" "uint a mod 16 - uint b mod 16 - uint c < 16"
      using cc uval_int_bounds(2) [of w a] unfolding two_tops by linarith+
  qed
  moreover have "0 \<le> ?A - ?B - uint c \<longleftrightarrow> \<not> ?A < ?B + uint c"
    "0 \<le> uint a mod 16 - uint b mod 16 - uint c \<longleftrightarrow> \<not> uint a mod 16 < uint b mod 16 + uint c"
    by linarith+
  ultimately show "arith_exact (\<lambda>x y. x - y - uint c) w a b r s t"
    using u ur f unfolding arith_exact_def by (simp only: masked_zero sval_negative simp_thms)
  show "arch t = put_arith (flag t FLAG_CF) (flag t FLAG_OF) (flag t FLAG_AF) (arch s) r w"
    unfolding f by (rule t'')
qed

lemma carry_in_le: "carry_in s \<le> 1" "uint (carry_in s) = of_bool (flag s FLAG_CF)"
  by (simp_all add: carry_in_def)

section \<open>Arithmetic is exact\<close>

text \<open>C9: Addition and subtraction are exact at every width. For ADD, ADC, SUB, SBB and CMP, from any state
  and any operands, the result is the sum or difference (with the carry or borrow coming in) modulo the width;
  the carry is set exactly when the unsigned result does not fit, the overflow flag exactly when the signed
  result does not fit, the half carry exactly when the low nibbles carry or borrow, and zero, sign and parity
  are those of the result; no other flag and no register changes.\<close>

theorem add_sub_exact:
  assumes ok: "eflags_ok s" and opc: "opc \<in> {0, 2, 3, 5, 7}"
  shows "\<exists>r t. alu s opc a b w = Some (r, t) \<and> arith_exact (arith_of opc (flag s FLAG_CF)) w a b r s t \<and>
           (\<forall>f. f AND ARITH = 0 \<longrightarrow> flag t f = flag s f) \<and> gpr t = gpr s"
proof -
  obtain r t where rt: "alu s opc a b w = Some (r, t)" and x: "arith_exact (arith_of opc (flag s FLAG_CF)) w a b r s t"
    and t: "arch t = put_arith (flag t FLAG_CF) (flag t FLAG_OF) (flag t FLAG_AF) (arch s) r w"
  proof (cases "opc \<in> {0, 2}")
    case True
    let ?c = "if opc = 0 then 0 else carry_in s"
    obtain r t where "alu_add s a b ?c w = (r, t)" by fastforce
    moreover have "?c \<le> 1" using carry_in_le by simp
    ultimately show ?thesis
      using that [of r t] alu_add_exact [OF ok, of ?c a b w r t] True carry_in_le(2) [of s]
      by (auto simp: alu_def arith_of_fun)
  next
    case False
    let ?c = "if opc = 3 then carry_in s else 0"
    obtain r t where "alu_sub s a b ?c w = (r, t)" by fastforce
    moreover have "?c \<le> 1" using carry_in_le by simp
    ultimately show ?thesis
      using that [of r t] alu_sub_exact [OF ok, of ?c a b w r t] False opc carry_in_le(2) [of s]
      by (auto simp: alu_def arith_of_fun)
  qed
  have okt: "eflags_ok t" using eflags_ok_exec [OF ok, of "Alu opc a b w"] rt by (simp add: value_or_panic_def value_of_def)
  show ?thesis using rt x flags_of_arch(7,8) [OF okt t ok] by blast
qed

theorem add_sub_exact_witness:
  "\<exists>r t. alu reset_cpu 7 0x80 1 Byte = Some (r, t) \<and> arith_exact (arith_of 7 (flag reset_cpu FLAG_CF)) Byte 0x80 1 r reset_cpu t \<and>
     (\<forall>f. f AND ARITH = 0 \<longrightarrow> flag t f = flag reset_cpu f) \<and> gpr t = gpr reset_cpu"
  by (rule add_sub_exact) (simp_all add: eflags_ok_def reset_cpu_def)

section \<open>Condition codes after a comparison\<close>

lemma sub_sign_less:
  fixes S a b r :: int
  assumes "0 \<le> a" "a < 2 * S" "0 \<le> b" "b < 2 * S" and r: "r = (a - b) mod (2 * S)"
  defines "sg \<equiv> \<lambda>x. if S \<le> x then x - 2 * S else x"
  shows "(sg r < 0) \<noteq> (\<not> (- S \<le> sg a - sg b \<and> sg a - sg b < S)) \<longleftrightarrow> sg a < sg b"
proof (cases "0 \<le> a - b")
  case True
  then have "r = a - b" using assms by simp
  then show ?thesis using assms True by (auto simp: sg_def)
next
  case False
  then have "(a - b) mod (2 * S) = (a - b + 2 * S) mod (2 * S)" by simp
  also have "\<dots> = a - b + 2 * S" using False assms by (intro mod_pos_pos_trivial) auto
  finally have "r = a - b + 2 * S" using r by simp
  then show ?thesis using assms False by (auto simp: sg_def)
qed

lemma compare_flags:
  assumes x: "arith_exact (-) w a b r s t"
  shows "flag t FLAG_CF \<longleftrightarrow> uval w a < uval w b" "flag t FLAG_ZF \<longleftrightarrow> uval w a = uval w b"
    "flag t FLAG_SF \<noteq> flag t FLAG_OF \<longleftrightarrow> sval w a < sval w b"
proof -
  have r: "int (uval w r) = (int (uval w a) - int (uval w b)) mod 2 ^ wbits w"
  proof -
    have "uval w r = unat r"
    proof -
      have "int (unat r) < int (2 ^ wbits w)" using x unfolding arith_exact_def by simp
      then have "unat r < 2 ^ wbits w" unfolding of_nat_less_iff .
      then show ?thesis by (simp add: uval_def)
    qed
    then show ?thesis using x by (simp add: arith_exact_def)
  qed
  have d: "int (uval w a) - int (uval w b) < 2 ^ wbits w" "- (2 ^ wbits w) < int (uval w a) - int (uval w b)"
    using uval_less [of w a] uval_less [of w b] by (simp_all add: two_tops) (use uval_int_bounds [of w a] uval_int_bounds [of w b] in linarith)+
  show "flag t FLAG_CF \<longleftrightarrow> uval w a < uval w b"
    using x d by (auto simp: arith_exact_def)
  have "int (unat r) = (int (uval w a) - int (uval w b)) mod 2 ^ wbits w"
    using x unfolding arith_exact_def by blast
  moreover have "r = 0 \<longleftrightarrow> int (unat r) = 0" by (simp only: of_nat_eq_0_iff unat_eq_0)
  ultimately have "r = 0 \<longleftrightarrow> (int (uval w a) - int (uval w b)) mod 2 ^ wbits w = 0" by (simp only:)
  also have "\<dots> \<longleftrightarrow> int (uval w a) mod 2 ^ wbits w = int (uval w b) mod 2 ^ wbits w"
    by (simp only: mod_eq_dvd_iff dvd_eq_mod_eq_0)
  also have "\<dots> \<longleftrightarrow> uval w a = uval w b"
    using uval_int_bounds [of w a] uval_int_bounds [of w b] by (simp add: two_tops)
  finally show "flag t FLAG_ZF \<longleftrightarrow> uval w a = uval w b"
    using x by (simp add: arith_exact_def)
  show "flag t FLAG_SF \<noteq> flag t FLAG_OF \<longleftrightarrow> sval w a < sval w b"
    using x sub_sign_less [OF uval_int_bounds [of w a] uval_int_bounds [of w b] r [unfolded two_tops]]
    by (simp only: arith_exact_def overflows_def sval_alt)
qed

lemma sval_eq_iff: "sval w a = sval w b \<longleftrightarrow> uval w a = uval w b"
  using uval_int_bounds [of w a] uval_int_bounds [of w b] by (auto simp: sval_alt)

text \<open>C14: The sixteen condition codes mean what they say. After a comparison of two operands at any width, the
  codes for below, above, equal and their negations order the operands as unsigned numbers, the codes for
  less, greater and their negations order them as signed numbers, and the codes for overflow and sign report
  the signed difference.\<close>

theorem compare_conditions:
  assumes ok: "eflags_ok s"
  shows "\<exists>r t. alu s 7 a b w = Some (r, t) \<and>
    (condition t 0x0 \<longleftrightarrow> overflows w (sval w a - sval w b)) \<and> (condition t 0x1 \<longleftrightarrow> \<not> overflows w (sval w a - sval w b)) \<and>
    (condition t 0x2 \<longleftrightarrow> uval w a < uval w b) \<and> (condition t 0x3 \<longleftrightarrow> uval w a \<ge> uval w b) \<and>
    (condition t 0x4 \<longleftrightarrow> uval w a = uval w b) \<and> (condition t 0x5 \<longleftrightarrow> uval w a \<noteq> uval w b) \<and>
    (condition t 0x6 \<longleftrightarrow> uval w a \<le> uval w b) \<and> (condition t 0x7 \<longleftrightarrow> uval w a > uval w b) \<and>
    (condition t 0x8 \<longleftrightarrow> sval w r < 0) \<and> (condition t 0x9 \<longleftrightarrow> sval w r \<ge> 0) \<and>
    (condition t 0xa \<longleftrightarrow> parity (ucast r)) \<and> (condition t 0xb \<longleftrightarrow> \<not> parity (ucast r)) \<and>
    (condition t 0xc \<longleftrightarrow> sval w a < sval w b) \<and> (condition t 0xd \<longleftrightarrow> sval w a \<ge> sval w b) \<and>
    (condition t 0xe \<longleftrightarrow> sval w a \<le> sval w b) \<and> (condition t 0xf \<longleftrightarrow> sval w a > sval w b)"
proof -
  obtain r t where rt: "alu_sub s a b 0 w = (r, t)" by fastforce
  have x: "arith_exact (-) w a b r s t" using alu_sub_exact(1) [OF ok _ rt] by simp
  have o: "flag t FLAG_OF \<longleftrightarrow> overflows w (sval w a - sval w b)" "flag t FLAG_SF \<longleftrightarrow> sval w r < 0"
    "flag t FLAG_PF \<longleftrightarrow> parity (ucast r)"
    using x by (simp_all add: arith_exact_def)
  note f = compare_flags [OF x]
  have l: "flag t FLAG_SF = flag t FLAG_OF \<longleftrightarrow> sval w b \<le> sval w a" using f(3) by auto
  have "alu s 7 a b w = Some (r, t)" by (simp add: alu_def rt)
  then show ?thesis
    unfolding condition_def using o f l sval_eq_iff [of w a b] by (intro exI [of _ r] exI [of _ t]) auto
qed

theorem compare_conditions_witness:
  "\<exists>r t. alu reset_cpu 7 0x80 1 Byte = Some (r, t) \<and> condition t 0x7 \<and> condition t 0xc"
  using compare_conditions [of reset_cpu "0x80" 1 Byte]
  by (auto simp: eflags_ok_def reset_cpu_def uval_def sval_def)

end
