(* ===== verification/Cpu_Shift.thy ===== *)
theory Cpu_Shift
  imports Cpu_Exact
begin

text \<open>
  Shifts and rotates in closed form: the single-bit loop of \<open>shift_rotate\<close> moves every bit by the
  whole count, around the operand for the rotates and around the operand and the carry for the
  rotates through carry, and the carry out is the last bit that left.
\<close>

section \<open>The loop, one step at a time\<close>

definition fits :: "bus_width \<Rightarrow> u32 \<Rightarrow> bool" where
  "fits w v \<longleftrightarrow> (\<forall>i. bit v i \<longrightarrow> i < wbits w)"

lemma fits_masked: "fits w (v AND width_mask w)"
  by (auto simp: fits_def width_mask_eq bit_and_iff bit_mask_iff)

lemma masked_fits: "fits w v \<Longrightarrow> v AND width_mask w = v"
  by (rule bit_word_eqI) (auto simp: fits_def width_mask_eq bit_and_iff bit_mask_iff)

lemma fits_le32: "wbits w \<le> 32" "0 < wbits w" "width_bytes w * 8 = wbits w" "wbits w - 1 = wtop w" "wbits w = Suc (wtop w)"
  by (cases w; simp add: wbits_def)+

lemma shift_loop_Suc: "shift_loop opc w (Suc k) st = Option.bind (shift_loop opc w k st) (shift_step opc w)"
proof (induction k arbitrary: st)
  case 0
  show ?case by (cases "shift_step opc w st") auto
next
  case (Suc k)
  have "shift_loop opc w (Suc (Suc k)) st = Option.bind (shift_step opc w st) (shift_loop opc w (Suc k))" by simp
  also have "\<dots> = Option.bind (shift_step opc w st) (\<lambda>st. Option.bind (shift_loop opc w k st) (shift_step opc w))"
    using Suc.IH by presburger
  also have "\<dots> = Option.bind (shift_loop opc w (Suc k) st) (shift_step opc w)" by simp
  finally show ?case .
qed

text \<open>A value and the carry above it, as one register of \<open>wbits w + 1\<close> bits.\<close>

definition with_carry :: "bus_width \<Rightarrow> u32 \<times> bool \<Rightarrow> nat \<Rightarrow> bool" where
  "with_carry w st i = (if i < wbits w then bit (fst st) i else snd st)"

lemma bit_of_bool_u32 [simp]: "bit (of_bool b :: u32) i \<longleftrightarrow> b \<and> i = 0"
  by (cases b) (auto simp: bit_1_iff)

lemma bit_up: "bit (push_bit 1 (v :: u32)) i \<longleftrightarrow> 0 < i \<and> i < 32 \<and> bit v (i - 1)"
  unfolding bit_push_bit_iff by auto

lemma bit_down: "bit (drop_bit 1 (v :: u32)) i \<longleftrightarrow> bit v (Suc i)"
  unfolding bit_drop_bit_eq by simp

lemma bit_in_top: "bit (push_bit (width_bytes w * 8 - 1) (of_bool b) :: u32) i \<longleftrightarrow> b \<and> i = wtop w"
  unfolding bit_push_bit_iff fits_le32 by (cases w) auto

lemma low_bit: "(v :: u32) AND 1 = 0 \<longleftrightarrow> \<not> bit v 0"
  by (simp add: and_one_eq bit_0 odd_iff_mod_2_eq_one)

lemma bit_width_mask [simp]: "bit (width_mask w) i \<longleftrightarrow> i < wbits w"
  using fits_le32(1) [of w] by (auto simp: width_mask_eq bit_mask_iff)

text \<open>What \<open>k\<close> steps do to the value and the carry.\<close>

definition shifted :: "u8 \<Rightarrow> bus_width \<Rightarrow> nat \<Rightarrow> u32 \<times> bool \<Rightarrow> u32 \<times> bool \<Rightarrow> bool" where
  "shifted opc w k st st' \<longleftrightarrow> fits w (fst st') \<and>
     (let n = wbits w; v = fst st; v' = fst st'; cf' = snd st' in
      if opc = 0 then (\<forall>i < n. bit v' ((i + k) mod n) = bit v i) \<and> cf' = bit v' 0
      else if opc = 1 then (\<forall>i < n. bit v' i = bit v ((i + k) mod n)) \<and> cf' = bit v' (n - 1)
      else if opc = 2 then (\<forall>i \<le> n. with_carry w st' ((i + k) mod (n + 1)) = with_carry w st i)
      else if opc = 3 then (\<forall>i \<le> n. with_carry w st' i = with_carry w st ((i + k) mod (n + 1)))
      else if opc = 4 \<or> opc = 6 then
        (\<forall>i < n. bit v' i = (k \<le> i \<and> bit v (i - k))) \<and> cf' = (k \<le> n \<and> bit v (n - k))
      else if opc = 5 then (\<forall>i < n. bit v' i = bit v (i + k)) \<and> cf' = bit v (k - 1)
      else (\<forall>i < n. bit v' i = bit v (min (i + k) (n - 1))) \<and> cf' = bit v (min (k - 1) (n - 1)))"

lemmas shift_bits = bit_up bit_down bit_in_top bit_or_iff bit_and_iff bit_width_mask bit_of_bool_u32

lemma op_cases: "(opc :: u8) < 8 \<Longrightarrow> opc \<in> {0, 1, 2, 3, 4, 5, 6, 7}"
proof -
  assume "opc < 8"
  then have "unat opc < 8" by (simp add: word_less_nat_alt)
  then have "unat opc \<in> {0, 1, 2, 3, 4, 5, 6, 7}" by auto
  then show ?thesis by (auto simp: word_unat_eq_iff)
qed

lemma sign_bit_u32: "v AND width_sign w \<noteq> 0 \<longleftrightarrow> bit v (wtop w)"
  by simp

lemma suc_mod: "i < Suc n \<Longrightarrow> Suc i mod Suc n = (if i = n then 0 else Suc i)"
  by auto

text \<open>The bits of the value after one step, operation by operation.\<close>

lemma step_bits:
  assumes f: "fits w v"
  shows "bit ((push_bit 1 v OR of_bool b) AND width_mask w) i \<longleftrightarrow> i < wbits w \<and> (if i = 0 then b else bit v (i - 1))"
    "bit (drop_bit 1 v OR push_bit (width_bytes w * 8 - 1) (of_bool b)) i \<longleftrightarrow> i < wbits w \<and> (if i = wtop w then b else bit v (Suc i))"
    "bit (push_bit 1 v AND width_mask w) i \<longleftrightarrow> i < wbits w \<and> 0 < i \<and> bit v (i - 1)"
    "bit (drop_bit 1 v) i \<longleftrightarrow> i < wbits w \<and> bit v (Suc i)"
    "bit (drop_bit 1 v OR (v AND width_sign w)) i \<longleftrightarrow> i < wbits w \<and> bit v (min (Suc i) (wtop w))"
proof -
  have b: "bit v i \<Longrightarrow> i < wbits w" for i using f by (simp add: fits_def)
  have t: "wtop w < wbits w" "wbits w = Suc (wtop w)" "wbits w \<le> 32" using fits_le32 by simp_all
  have nb: "\<not> bit v (Suc (wtop w))" using b t by auto
  have sb: "bit (v AND width_sign w) i \<longleftrightarrow> i = wtop w \<and> bit v i"
    using t unfolding width_sign_eq bit_and_iff bit_one_at by auto
  show "bit ((push_bit 1 v OR of_bool b) AND width_mask w) i \<longleftrightarrow> i < wbits w \<and> (if i = 0 then b else bit v (i - 1))"
    using t unfolding shift_bits by auto
  show "bit (drop_bit 1 v OR push_bit (width_bytes w * 8 - 1) (of_bool b)) i \<longleftrightarrow> i < wbits w \<and> (if i = wtop w then b else bit v (Suc i))"
    using t nb b [of "Suc i"] unfolding shift_bits by auto
  show "bit (push_bit 1 v AND width_mask w) i \<longleftrightarrow> i < wbits w \<and> 0 < i \<and> bit v (i - 1)"
    using t unfolding shift_bits by auto
  show "bit (drop_bit 1 v) i \<longleftrightarrow> i < wbits w \<and> bit v (Suc i)"
    using b [of "Suc i"] unfolding shift_bits by auto
  show "bit (drop_bit 1 v OR (v AND width_sign w)) i \<longleftrightarrow> i < wbits w \<and> bit v (min (Suc i) (wtop w))"
    using t nb b [of "Suc i"] unfolding bit_or_iff sb bit_down by (auto simp: min_def le_Suc_eq not_less_eq_eq)
qed

lemma shift_step_shifted:
  assumes f: "fits w v" and opc: "opc < 8"
  shows "\<exists>st'. shift_step opc w (v, cf) = Some st' \<and> shifted opc w 1 (v, cf) st'"
proof -
  have t: "wtop w < wbits w" "wbits w = Suc (wtop w)" "wbits w \<le> 32" "wbits w - 1 = wtop w" using fits_le32 by simp_all
  note sb = step_bits [OF f]
  consider "opc = 0" | "opc = 1" | "opc = 2" | "opc = 3" | "opc = 4 \<or> opc = 6" | "opc = 5" | "opc = 7"
    using op_cases [OF opc] by blast
  then show ?thesis
  proof cases
    case 1
    let ?v = "(push_bit 1 v OR of_bool (bit v (wtop w))) AND width_mask w"
    have "shift_step opc w (v, cf) = Some (?v, bit v (wtop w))"
      unfolding shift_step_def Let_def prod.case sign_bit_u32 using 1 by simp
    moreover have "shifted opc w 1 (v, cf) (?v, bit v (wtop w))"
      unfolding shifted_def fits_def Let_def fst_conv snd_conv sb using 1 t by (auto simp: suc_mod)
    ultimately show ?thesis by blast
  next
    case 2
    let ?v = "drop_bit 1 v OR push_bit (width_bytes w * 8 - 1) (of_bool (bit v 0))"
    have "shift_step opc w (v, cf) = Some (?v, bit v 0)"
      unfolding shift_step_def Let_def prod.case low_bit not_not using 2 by simp
    moreover have "shifted opc w 1 (v, cf) (?v, bit v 0)"
      unfolding shifted_def fits_def Let_def fst_conv snd_conv sb using 2 t by (auto simp: suc_mod)
    ultimately show ?thesis by blast
  next
    case 3
    let ?v = "(push_bit 1 v OR of_bool cf) AND width_mask w"
    have "shift_step opc w (v, cf) = Some (?v, bit v (wtop w))"
      unfolding shift_step_def Let_def prod.case sign_bit_u32 using 3 by simp
    moreover have "shifted opc w 1 (v, cf) (?v, bit v (wtop w))"
      unfolding shifted_def fits_def Let_def fst_conv snd_conv with_carry_def sb using 3 t by (auto simp: suc_mod less_Suc_eq)
    ultimately show ?thesis by blast
  next
    case 4
    let ?v = "drop_bit 1 v OR push_bit (width_bytes w * 8 - 1) (of_bool cf)"
    have "shift_step opc w (v, cf) = Some (?v, bit v 0)"
      unfolding shift_step_def Let_def prod.case low_bit not_not using 4 by simp
    moreover have "shifted opc w 1 (v, cf) (?v, bit v 0)"
      unfolding shifted_def fits_def Let_def fst_conv snd_conv with_carry_def sb using 4 t by (auto simp: suc_mod less_Suc_eq)
    ultimately show ?thesis by blast
  next
    case 5
    let ?v = "push_bit 1 v AND width_mask w"
    have "shift_step opc w (v, cf) = Some (?v, bit v (wtop w))"
      unfolding shift_step_def Let_def prod.case sign_bit_u32 using 5 by auto
    moreover have "shifted opc w 1 (v, cf) (?v, bit v (wtop w))"
      unfolding shifted_def fits_def Let_def fst_conv snd_conv sb using 5 t by auto
    ultimately show ?thesis by blast
  next
    case 6
    have "shift_step opc w (v, cf) = Some (drop_bit 1 v, bit v 0)"
      unfolding shift_step_def Let_def prod.case low_bit not_not using 6 by simp
    moreover have "shifted opc w 1 (v, cf) (drop_bit 1 v, bit v 0)"
      unfolding shifted_def fits_def Let_def fst_conv snd_conv sb using 6 t by auto
    ultimately show ?thesis by blast
  next
    case 7
    let ?v = "drop_bit 1 v OR (v AND width_sign w)"
    have "shift_step opc w (v, cf) = Some (?v, bit v 0)"
      unfolding shift_step_def Let_def prod.case low_bit not_not using 7 by simp
    moreover have "shifted opc w 1 (v, cf) (?v, bit v 0)"
      unfolding shifted_def fits_def Let_def fst_conv snd_conv sb using 7 t by auto
    ultimately show ?thesis by blast
  qed
qed

lemma mod_Suc_add: "(Suc i mod n + k) mod n = Suc (i + k) mod n" "Suc (i mod n) mod n = Suc i mod n"
  by (simp_all add: mod_simps)

lemma shifted_compose:
  assumes a: "shifted opc w k st st1" and b: "shifted opc w 1 st1 st2" and opc: "opc < 8" and k: "0 < k"
    and f: "fits w (fst st)"
  shows "shifted opc w (Suc k) st st2"
proof -
  have t: "wbits w = Suc (wtop w)" "wbits w - 1 = wtop w" using fits_le32 by simp_all
  have m: "(i + k) mod wbits w < wbits w" "Suc i mod wbits w < wbits w" "(i + k) mod (wbits w + 1) \<le> wbits w"
    "Suc i mod (wbits w + 1) \<le> wbits w" for i
    using t(1) by (simp_all add: less_Suc_eq_le [symmetric])
  consider "opc = 0" | "opc = 1" | "opc = 2" | "opc = 3" | "opc = 4 \<or> opc = 6" | "opc = 5" | "opc = 7"
    using op_cases [OF opc] by blast
  then show ?thesis
  proof cases
    case 1
    have "bit (fst st2) ((i + Suc k) mod wbits w) = bit (fst st) i" if "i < wbits w" for i
    proof -
      have "bit (fst st2) (Suc ((i + k) mod wbits w) mod wbits w) = bit (fst st1) ((i + k) mod wbits w)"
        using b 1 m(1) [of i] by (simp add: shifted_def Let_def)
      then show ?thesis using a 1 that by (simp add: shifted_def Let_def mod_Suc_add)
    qed
    then show ?thesis using a b 1 by (simp add: shifted_def Let_def)
  next
    case 2
    have "bit (fst st2) i = bit (fst st) ((i + Suc k) mod wbits w)" if "i < wbits w" for i
    proof -
      have "bit (fst st1) (Suc i mod wbits w) = bit (fst st) ((Suc i mod wbits w + k) mod wbits w)"
        using a 2 m(2) [of i] by (simp add: shifted_def Let_def)
      then show ?thesis using b 2 that by (simp add: shifted_def Let_def mod_Suc_add)
    qed
    then show ?thesis using a b 2 by (simp add: shifted_def Let_def)
  next
    case 3
    have "with_carry w st2 ((i + Suc k) mod (wbits w + 1)) = with_carry w st i" if "i \<le> wbits w" for i
    proof -
      have "with_carry w st2 (((i + k) mod (wbits w + 1) + 1) mod (wbits w + 1)) = with_carry w st1 ((i + k) mod (wbits w + 1))"
        using b 3 m(3) [of i] by (simp add: shifted_def Let_def)
      then show ?thesis using a 3 that by (simp add: shifted_def Let_def mod_simps)
    qed
    then show ?thesis using a b 3 by (simp add: shifted_def Let_def)
  next
    case 4
    have "with_carry w st2 i = with_carry w st ((i + Suc k) mod (wbits w + 1))" if "i \<le> wbits w" for i
    proof -
      have "with_carry w st1 (Suc i mod (wbits w + 1)) = with_carry w st ((Suc i mod (wbits w + 1) + k) mod (wbits w + 1))"
        using a 4 m(4) [of i] by (simp add: shifted_def Let_def)
      then show ?thesis using b 4 that by (simp add: shifted_def Let_def mod_Suc_add)
    qed
    then show ?thesis using a b 4 by (simp add: shifted_def Let_def)
  next
    case 5
    then show ?thesis using a b k t by (auto simp: shifted_def Let_def Suc_le_eq)
  next
    case 6
    have "bit (fst st2) i = bit (fst st) (i + Suc k)" if "i < wbits w" for i
    proof (cases "Suc i < wbits w")
      case True
      then show ?thesis using a b 6 that by (simp add: shifted_def Let_def)
    next
      case False
      then have "\<not> bit (fst st1) (Suc i)" "\<not> bit (fst st) (i + Suc k)"
        using a f by (auto simp: shifted_def fits_def)
      then show ?thesis using b 6 that by (simp add: shifted_def Let_def)
    qed
    then show ?thesis using a b 6 k t by (simp add: shifted_def Let_def)
  next
    case 7
    have "bit (fst st2) i = bit (fst st) (min (i + Suc k) (wbits w - 1))" if "i < wbits w" for i
    proof -
      have "bit (fst st2) i = bit (fst st1) (min (Suc i) (wbits w - 1))"
        using b 7 that by (simp add: shifted_def Let_def)
      also have "\<dots> = bit (fst st) (min (min (Suc i) (wbits w - 1) + k) (wbits w - 1))"
        using a 7 t by (simp add: shifted_def Let_def)
      also have "min (min (Suc i) (wbits w - 1) + k) (wbits w - 1) = min (i + Suc k) (wbits w - 1)" by simp
      finally show ?thesis .
    qed
    then show ?thesis using a b 7 k t by (simp add: shifted_def Let_def)
  qed
qed

lemma shift_loop_shifted:
  assumes f: "fits w v" and opc: "opc < 8"
  shows "\<exists>st'. shift_loop opc w (Suc k) (v, cf) = Some st' \<and> shifted opc w (Suc k) (v, cf) st'"
proof (induction k)
  case 0
  show ?case using shift_step_shifted [OF f opc, of cf] by auto
next
  case (Suc k)
  then obtain v' cf' where s: "shift_loop opc w (Suc k) (v, cf) = Some (v', cf')" "shifted opc w (Suc k) (v, cf) (v', cf')"
    by auto
  then have "fits w v'" by (simp add: shifted_def)
  then obtain st'' where "shift_step opc w (v', cf') = Some st''" "shifted opc w 1 (v', cf') st''"
    using shift_step_shifted [OF _ opc] by blast
  then show ?case
    using s shifted_compose [OF s(2) _ opc _ ] f unfolding shift_loop_Suc [of opc w "Suc k"] by auto
qed

section \<open>Flags of a shift\<close>

lemma gpr_shift_flags [simp]: "gpr (set_shift_result_flags s cf v r w) = gpr s"
  by (simp add: set_shift_result_flags_def set_szp_live_def Let_def split: option.split)

lemma flags_shift:
  assumes ok: "eflags_ok s" and t_def: "t = set_shift_result_flags s cf v r w"
  shows "flag t FLAG_CF = (case cf of Some c \<Rightarrow> c | None \<Rightarrow> flag s FLAG_CF)"
    "flag t FLAG_OF = (case v of Some c \<Rightarrow> c | None \<Rightarrow> flag s FLAG_OF)"
    "flag t FLAG_AF = flag s FLAG_AF" "flag t FLAG_ZF = (r AND width_mask w = 0)" "flag t FLAG_SF = bit r (wtop w)"
    "flag t FLAG_PF = parity (ucast r)"
proof -
  have t: "eflags_ok t" by (simp add: t_def)
  have "materialized_eflags t = eflags (set_shift_result_flags (arch s) cf v r w)"
  proof -
    let ?u = "set_shift_result_flags (arch s) cf v r w"
    have "pend_is_none (pending_flags ?u)"
      by (simp add: set_shift_result_flags_def set_szp_live_def Let_def split: option.split)
    moreover have "eflags (arch t) = eflags (arch ?u)" using arch_shift_flags [OF ok, of cf v r w, folded t_def] by simp
    ultimately show ?thesis by (simp add: materialized_none)
  qed
  then have f: "flag t f \<longleftrightarrow> eflags (set_shift_result_flags (arch s) cf v r w) AND f \<noteq> 0" if "flag_query f" for f
    using flag_materialized [OF t that] by simp
  have g: "flag s f \<longleftrightarrow> materialized_eflags s AND f \<noteq> 0" if "flag_query f" for f
    using flag_materialized [OF ok that] .
  show "flag t FLAG_CF = (case cf of Some c \<Rightarrow> c | None \<Rightarrow> flag s FLAG_CF)"
    "flag t FLAG_OF = (case v of Some c \<Rightarrow> c | None \<Rightarrow> flag s FLAG_OF)"
    "flag t FLAG_AF = flag s FLAG_AF" "flag t FLAG_ZF = (r AND width_mask w = 0)" "flag t FLAG_SF = bit r (wtop w)"
    "flag t FLAG_PF = parity (ucast r)"
    by (simp_all add: f g set_shift_result_flags_def set_szp_live_def Let_def bit_put_flag split: option.split)
qed

lemma flag_set_flag:
  assumes "eflags_ok s" "f \<in> {FLAG_CF, FLAG_PF, FLAG_AF, FLAG_ZF, FLAG_SF, FLAG_OF}" "g \<in> {FLAG_CF, FLAG_PF, FLAG_AF, FLAG_ZF, FLAG_SF, FLAG_OF}"
  shows "flag (set_flag s f b) g = (if f = g then b else flag s g)"
proof -
  have q: "flag_query g" using assms(3) by (auto simp: flag_query_def)
  show ?thesis
    using assms(2,3) unfolding flag_materialized [OF eflags_ok_set_flag [OF assms(1)] q] flag_materialized [OF assms(1) q]
      materialized_set_flag [OF assms(1)] by (auto simp: bit_put_flag)
qed

lemma fits_zero: "fits w r \<Longrightarrow> r AND width_mask w = 0 \<longleftrightarrow> r = 0"
  by (simp add: masked_fits)

lemma shifted_carry_irrelevant: "opc \<notin> {2, 3} \<Longrightarrow> shifted opc w k (v, c) st' = shifted opc w k (v, c') st'"
  by (auto simp: shifted_def Let_def)

text \<open>C17: Shifts and rotates are exact for every count. A count whose low five bits are zero changes nothing;
  otherwise the operation returns, the result is the operand with every bit moved by the whole count (shifted out,
  sign-extended, around the operand, or around the operand and the carry), and the carry is the last bit that
  left. A shift sets zero, sign and parity from the result, a rotate leaves them, and neither touches the half
  carry or a register.\<close>

theorem shift_rotate_exact:
  assumes ok: "eflags_ok s" and opc: "opc < 8"
  shows "(n AND 0x1f = 0 \<longrightarrow> shift_rotate s opc v n w = Some (v, s)) \<and>
    (n AND 0x1f \<noteq> 0 \<longrightarrow> (\<exists>r t. shift_rotate s opc v n w = Some (r, t) \<and>
       shifted opc w (unat (n AND 0x1f)) (v AND width_mask w, flag s FLAG_CF) (r, flag t FLAG_CF) \<and>
       (if opc < 4 then flag t FLAG_ZF = flag s FLAG_ZF \<and> flag t FLAG_SF = flag s FLAG_SF \<and> flag t FLAG_PF = flag s FLAG_PF
        else flag t FLAG_ZF = (r = 0) \<and> flag t FLAG_SF = bit r (wtop w) \<and> flag t FLAG_PF = parity (ucast r)) \<and>
       flag t FLAG_AF = flag s FLAG_AF \<and> gpr t = gpr s))"
proof (cases "n AND 0x1f = 0")
  case True
  then show ?thesis by (simp add: shift_rotate_def)
next
  case False
  then have k: "unat (n AND 0x1f) \<noteq> 0" by (simp add: unat_eq_0)
  let ?k = "unat (n AND 0x1f)" and ?cf = "(opc = 2 \<or> opc = 3) \<and> flag s FLAG_CF"
  obtain r cf where l: "shift_loop opc w ?k (v AND width_mask w, ?cf) = Some (r, cf)"
    and sh: "shifted opc w ?k (v AND width_mask w, ?cf) (r, cf)"
    using shift_loop_shifted [OF fits_masked [of w v] opc, of "?k - 1" ?cf] k by auto
  have f: "fits w r" using sh by (simp add: shifted_def)
  have sh': "shifted opc w ?k (v AND width_mask w, flag s FLAG_CF) (r, cf)"
    using sh shifted_carry_irrelevant [of opc w ?k _ ?cf _ "flag s FLAG_CF"] by (cases "opc \<in> {2, 3}") auto
  show ?thesis
  proof (cases "opc < 4")
    case True
    then have n4: "\<not> (4 \<le> opc \<and> opc \<le> 7)" by auto
    have "\<exists>t. shift_rotate s opc v n w = Some (r, t) \<and> (\<exists>b. t = set_flag s FLAG_CF cf \<or> t = set_flag (set_flag s FLAG_CF cf) FLAG_OF b)"
      using k unfolding shift_rotate_def Let_def l Option.bind.bind_lunit prod.case if_not_P [OF n4] masked_fits [OF f] by auto
    then obtain t b where t: "shift_rotate s opc v n w = Some (r, t)"
      and tt: "t = set_flag s FLAG_CF cf \<or> t = set_flag (set_flag s FLAG_CF cf) FLAG_OF b" by blast
    then have "flag t FLAG_CF = cf \<and> flag t FLAG_ZF = flag s FLAG_ZF \<and> flag t FLAG_SF = flag s FLAG_SF \<and>
        flag t FLAG_PF = flag s FLAG_PF \<and> flag t FLAG_AF = flag s FLAG_AF \<and> gpr t = gpr s"
      using ok by (auto simp: flag_set_flag eflags_ok_set_flag)
    then show ?thesis using False t sh' True by simp
  next
    case n: False
    then have n4: "4 \<le> opc \<and> opc \<le> 7" using opc by (auto simp: word_less_nat_alt word_le_nat_alt)
    obtain b where "shift_rotate s opc v n w = Some (r, set_shift_result_flags s (Some cf) b r w)"
      using k unfolding shift_rotate_def Let_def l Option.bind.bind_lunit prod.case if_P [OF n4] masked_fits [OF f] by auto
    then show ?thesis using False sh' n flags_shift [OF ok refl, of "Some cf" b r w] fits_zero [OF f] by simp
  qed
qed

lemma reset_cpu_ok: "eflags_ok reset_cpu"
  by (simp add: eflags_ok_def reset_cpu_def)

lemma reset_cpu_carry: "\<not> flag reset_cpu FLAG_CF"
  by (simp add: reset_cpu_def flag_def)

theorem shift_rotate_exact_witness:
  "\<exists>r t. shift_rotate reset_cpu 0 0x81 1 Byte = Some (r, t) \<and>
     shifted 0 Byte 1 (0x81 AND 0xff, False) (r, flag t FLAG_CF)"
  using shift_rotate_exact [OF reset_cpu_ok, of 0 1 "0x81" Byte] reset_cpu_carry by auto

end
