(* ===== verification/Cpu_Muldiv.thy ===== *)
theory Cpu_Muldiv
  imports Cpu_Shift
begin

text \<open>
  Multiplication and division of the accumulator: the double-width product and the quotient and
  remainder as numbers, the two flags of a product that does not fit, and every division fault.
\<close>

section \<open>The accumulator\<close>

definition gpr_ok :: "cpu \<Rightarrow> bool" where
  "gpr_ok s \<longleftrightarrow> length (gpr s) = 8"

text \<open>The accumulator (AL, AX, EAX), the register of the high half (AH, DX, EDX) and the two together.\<close>

fun acc_low :: "bus_width \<Rightarrow> cpu \<Rightarrow> nat" where
  "acc_low Byte s = unat (read_gpr8 s 0)"
| "acc_low Word s = unat (read_gpr16 s 0)"
| "acc_low Dword s = unat (read_gpr32 s 0)"

fun acc_high :: "bus_width \<Rightarrow> cpu \<Rightarrow> nat" where
  "acc_high Byte s = unat (read_gpr8 s 4)"
| "acc_high Word s = unat (read_gpr16 s 2)"
| "acc_high Dword s = unat (read_gpr32 s 2)"

definition acc_wide :: "bus_width \<Rightarrow> cpu \<Rightarrow> nat" where
  "acc_wide w s = acc_high w s * 2 ^ wbits w + acc_low w s"

text \<open>The signed reading of an \<open>n\<close>-bit number.\<close>

definition signed_of :: "nat \<Rightarrow> nat \<Rightarrow> int" where
  "signed_of n x = (if 2 ^ (n - 1) \<le> x then int x - 2 ^ n else int x)"

lemma gpr_masks: "(0xffff0000 :: u32) = NOT (mask 16)" "(NOT 0xff :: u32) = NOT (mask 8)" "(NOT 0xff00 :: u32) = NOT (push_bit 8 (mask 8))"
  by (simp_all add: mask_eq_exp_minus_1)

lemma put_low16: "(ucast ((x AND 0xffff0000) OR ucast (v :: u16) :: u32) :: u16) = v"
  unfolding gpr_masks
  by (rule bit_word_eqI) (simp add: bit_ucast_iff bit_or_iff bit_and_iff bit_not_iff bit_mask_iff)

lemma put_low8: "(ucast ((x AND NOT 0xff) OR ucast (v :: u8) :: u32) :: u8) = v"
  unfolding gpr_masks
  by (rule bit_word_eqI) (simp add: bit_ucast_iff bit_or_iff bit_and_iff bit_not_iff bit_mask_iff)

lemma put_high8: "(ucast (drop_bit 8 ((x AND NOT 0xff00) OR push_bit 8 (ucast (v :: u8)) :: u32)) :: u8) = v"
  unfolding gpr_masks
  by (rule bit_word_eqI)
     (simp add: bit_ucast_iff bit_or_iff bit_and_iff bit_not_iff bit_mask_iff bit_drop_bit_eq bit_push_bit_iff del: push_bit_numeral)

lemma high8_keeps_low: "(ucast ((x AND NOT 0xff00) OR push_bit 8 (ucast (v :: u8)) :: u32) :: u8) = ucast x"
  unfolding gpr_masks
  by (rule bit_word_eqI)
     (simp add: bit_ucast_iff bit_or_iff bit_and_iff bit_not_iff bit_mask_iff bit_push_bit_iff)

lemma low8_keeps_high: "(ucast (drop_bit 8 ((x AND NOT 0xff) OR ucast (v :: u8) :: u32)) :: u8) = ucast (drop_bit 8 x)"
  unfolding gpr_masks
  by (rule bit_word_eqI)
     (auto simp: bit_ucast_iff bit_or_iff bit_and_iff bit_not_iff bit_mask_iff bit_drop_bit_eq dest: bit_imp_le_length)

lemma reg_index [simp]:
  "unat ((0 :: u8) AND 7) = 0" "unat ((2 :: u8) AND 7) = 2" "unat ((0 :: u8) AND 3) = 0" "unat ((4 :: u8) AND 3) = 0"
  by simp_all

lemma gpr_ok_write [simp]:
  "gpr_ok (write_gpr8 s i v8) = gpr_ok s" "gpr_ok (write_gpr16 s i v16) = gpr_ok s" "gpr_ok (write_gpr32 s i v32) = gpr_ok s"
  by (simp_all add: gpr_ok_def write_gpr8_def write_gpr16_def write_gpr32_def Let_def)

lemma read_write_gpr:
  assumes "gpr_ok s"
  shows "read_gpr16 (write_gpr16 s 0 v16) 0 = v16" "read_gpr16 (write_gpr16 s 2 v16) 2 = v16"
    "read_gpr16 (write_gpr16 s 2 v16) 0 = read_gpr16 s 0" "read_gpr16 (write_gpr16 s 0 v16) 2 = read_gpr16 s 2"
    "read_gpr32 (write_gpr32 s 0 v32) 0 = v32" "read_gpr32 (write_gpr32 s 2 v32) 2 = v32"
    "read_gpr32 (write_gpr32 s 2 v32) 0 = read_gpr32 s 0" "read_gpr32 (write_gpr32 s 0 v32) 2 = read_gpr32 s 2"
    "read_gpr8 (write_gpr8 s 0 v8) 0 = v8" "read_gpr8 (write_gpr8 s 4 v8) 4 = v8"
    "read_gpr8 (write_gpr8 s 4 v8) 0 = read_gpr8 s 0" "read_gpr8 (write_gpr8 s 0 v8) 4 = read_gpr8 s 4"
  using assms put_low16 put_low8 put_high8 high8_keeps_low low8_keeps_high
  by (simp_all add: gpr_ok_def read_gpr8_def read_gpr16_def read_gpr32_def write_gpr8_def write_gpr16_def write_gpr32_def Let_def)

section \<open>Signed readings\<close>

lemma sint_signed_of: "sint (x :: 'a::len word) = signed_of LENGTH('a) (unat x)"
proof -
  obtain n where n: "LENGTH('a) = Suc n" using len_gt_0 [where 'a='a] by (cases "LENGTH('a)") simp_all
  have "bit (uint x) n \<longleftrightarrow> odd (unat x div 2 ^ n)"
  proof -
    have "bit (uint x) n = bit (unat x) n" using n by (simp add: bit_unsigned_iff)
    then show ?thesis by (simp add: bit_iff_odd)
  qed
  also have "\<dots> \<longleftrightarrow> 2 ^ n \<le> unat x"
  proof -
    have "unat x < 2 ^ Suc n" using unsigned_less [of x] n by simp
    then show ?thesis by (simp add: odd_div_pow2 del: power_Suc)
  qed
  finally have b: "bit (uint x) n \<longleftrightarrow> 2 ^ n \<le> unat x" .
  have "sint x = uint x - 2 ^ Suc n * of_bool (bit (uint x) n)"
  proof -
    have "take_bit (Suc n) (uint x) = uint x"
      using uint_lt2p [of x] n by (simp add: take_bit_int_eq_self)
    then show ?thesis
      by (simp add: sint_uint n signed_take_bit_eq_take_bit_minus)
  qed
  then show ?thesis using b n by (simp add: signed_of_def)
qed

lemma signed_of_mod:
  assumes "0 < m" "- (2 ^ (m - 1)) \<le> p" "p < 2 ^ (m - 1)" "int x = p mod 2 ^ m"
  shows "signed_of m x = p"
proof -
  obtain k where k: "m = Suc k" using assms(1) by (cases m) simp_all
  show ?thesis
  proof (cases "0 \<le> p")
    case True
    then have "p mod 2 ^ m = p" using assms k by (intro mod_pos_pos_trivial) auto
    then have "int x = p" using assms by simp
    moreover have "\<not> 2 ^ k \<le> x"
    proof -
      have "int x < int (2 ^ k)" using \<open>int x = p\<close> assms(3) k by simp
      then show ?thesis by linarith
    qed
    ultimately show ?thesis by (simp add: signed_of_def k)
  next
    case False
    then have "p mod 2 ^ m = (p + 2 ^ m) mod 2 ^ m" by simp
    also have "\<dots> = p + 2 ^ m" using False assms k by (intro mod_pos_pos_trivial) auto
    finally have e: "int x = p + 2 ^ m" using assms by simp
    then have "int (2 ^ k) \<le> int x" using assms(2) k by simp
    then have "2 ^ k \<le> x" by linarith
    then show ?thesis using e by (simp add: signed_of_def k)
  qed
qed

lemma signed_of_bounds: "0 < m \<Longrightarrow> x < 2 ^ m \<Longrightarrow> - (2 ^ (m - 1)) \<le> signed_of m x \<and> signed_of m x < 2 ^ (m - 1)"
proof -
  assume "0 < m" "x < 2 ^ m"
  then obtain k where k: "m = Suc k" by (cases m) simp_all
  have "int x < int (2 ^ m)" using \<open>x < 2 ^ m\<close> by linarith
  moreover have "2 ^ k \<le> x \<longleftrightarrow> int (2 ^ k) \<le> int x" by linarith
  ultimately show ?thesis using k by (cases "2 ^ k \<le> x") (auto simp: signed_of_def)
qed

lemma unat_cast [simp]:
  "unat (ucast (x :: u32) :: u8) = uval Byte x" "unat (ucast (x :: u32) :: u16) = uval Word x"
  by (simp_all add: unsigned_ucast_eq take_bit_eq_mod uval_def)

lemma unat_widen [simp]:
  "unat (ucast (a :: u8) :: u16) = unat a" "unat (ucast (a :: u8) :: u32) = unat a" "unat (ucast (b :: u16) :: u32) = unat b"
  "unat (ucast (c :: u32) :: u64) = unat c"
  using unat_less_u8 [of a] unat_less_u16 [of b] unat_less_u32 [of c] by (simp_all add: unsigned_ucast_eq take_bit_eq_mod)

lemma uval_Dword [simp]: "uval Dword x = unat x"
  using unat_less_u32 [of x] by (simp add: uval_def)

lemma sval_signed_of: "sval w v = signed_of (wbits w) (uval w v)"
  by (simp add: sval_def signed_of_def wtop_def)

lemma wide_byte: "acc_wide Byte s = unat (read_gpr16 s 0)"
proof -
  let ?g = "gpr s ! 0"
  have "unat ?g mod 65536 = unat ?g div 256 mod 256 * 256 + unat ?g mod 256"
    using mod_mult2_eq [of "unat ?g" 256 256] by simp
  moreover have "unat (drop_bit 8 ?g) = unat ?g div 256"
    unfolding unat_drop_bit_eq by (simp add: drop_bit_eq_div)
  ultimately show ?thesis
    by (simp add: acc_wide_def read_gpr8_def read_gpr16_def uval_def)
qed

lemma acc_bounds: "acc_low w s < 2 ^ wbits w" "acc_high w s < 2 ^ wbits w" "acc_wide w s < 2 ^ (2 * wbits w)"
proof -
  show l: "acc_low w s < 2 ^ wbits w" "acc_high w s < 2 ^ wbits w"
    using unat_less_u8 [of "read_gpr8 s 0"] unat_less_u16 [of "read_gpr16 s 0"] unat_less_u32 [of "read_gpr32 s 0"]
      unat_less_u8 [of "read_gpr8 s 4"] unat_less_u16 [of "read_gpr16 s 2"] unat_less_u32 [of "read_gpr32 s 2"]
    by (cases w; simp)+
  show "acc_wide w s < 2 ^ (2 * wbits w)" using l by (cases w) (simp_all add: acc_wide_def)
qed

section \<open>Multiplication\<close>

lemma set_carry_overflow:
  assumes "eflags_ok s"
  shows "flag (set_flag s (FLAG_CF OR FLAG_OF) b) FLAG_CF = b" "flag (set_flag s (FLAG_CF OR FLAG_OF) b) FLAG_OF = b"
    "g \<in> {FLAG_PF, FLAG_AF, FLAG_ZF, FLAG_SF} \<Longrightarrow> flag (set_flag s (FLAG_CF OR FLAG_OF) b) g = flag s g"
  using assms by (auto simp: flag_materialized eflags_ok_set_flag materialized_set_flag bit_put_flag bit_or_iff)

lemma acc_set_flag [simp]: "acc_low w (set_flag s f b) = acc_low w s" "acc_high w (set_flag s f b) = acc_high w s"
  "acc_wide w (set_flag s f b) = acc_wide w s"
  by (cases w; simp add: acc_wide_def read_gpr8_def read_gpr16_def read_gpr32_def Let_def)+

text \<open>The registers a product of \<open>2 * n\<close> bits is written to.\<close>

definition put_wide :: "bus_width \<Rightarrow> int \<Rightarrow> cpu \<Rightarrow> cpu" where
  "put_wide w p s = (case w of
       Byte \<Rightarrow> write_gpr16 s 0 (word_of_int p)
     | Word \<Rightarrow> write_gpr16 (write_gpr16 s 0 (word_of_int p)) 2 (word_of_int (p div 65536))
     | Dword \<Rightarrow> write_gpr32 (write_gpr32 s 0 (word_of_int p)) 2 (word_of_int (p div 4294967296)))"

lemma wide_put_wide:
  assumes "gpr_ok s"
  shows "int (acc_wide w (put_wide w p s)) = p mod 2 ^ (2 * wbits w)"
proof (cases w)
  case Byte
  then show ?thesis using assms
    by (simp add: wide_byte put_wide_def read_write_gpr uint_word_of_int_eq take_bit_eq_mod)
next
  case Word
  have "p mod 4294967296 = p div 65536 mod 65536 * 65536 + p mod 65536"
    using zmod_zmult2_eq [of 65536 p 65536] by simp
  then show ?thesis using assms Word
    by (simp add: acc_wide_def put_wide_def read_write_gpr uint_word_of_int_eq take_bit_eq_mod)
next
  case Dword
  have "p mod 18446744073709551616 = p div 4294967296 mod 4294967296 * 4294967296 + p mod 4294967296"
    using zmod_zmult2_eq [of 4294967296 p 4294967296] by simp
  then show ?thesis using assms Dword
    by (simp add: acc_wide_def put_wide_def read_write_gpr uint_word_of_int_eq take_bit_eq_mod)
qed

lemma word_of_uint: "uint x = P \<Longrightarrow> word_of_int P = x"
  by auto

lemma ucast_of_uint: "uint (x :: 'a::len word) = P \<Longrightarrow> (word_of_int P :: 'b::len word) = ucast x"
  by (auto simp: ucast_eq)

lemma high_half_byte: "(p :: u16) AND 0xff00 = 0 \<longleftrightarrow> unat p < 256"
proof -
  have m: "(0xff00 :: u16) = NOT (mask 8)" by (simp add: mask_eq_exp_minus_1)
  have "p AND NOT (mask 8) = 0 \<longleftrightarrow> p AND mask 8 = p"
    by (auto simp: bit_eq_iff bit_and_iff bit_not_iff dest: bit_imp_le_length)
  also have "\<dots> \<longleftrightarrow> unat p mod 256 = unat p"
    by (simp only: word_unat_eq_iff take_bit_eq_mask [symmetric] unsigned_take_bit_eq) (simp add: take_bit_eq_mod)
  also have "\<dots> \<longleftrightarrow> unat p < 256"
    by (metis mod_less mod_less_divisor zero_less_numeral)
  finally show ?thesis unfolding m .
qed

lemma high_half_zero: "drop_bit 16 (p :: u32) = 0 \<longleftrightarrow> unat p < 65536" "drop_bit 32 (q :: u64) = 0 \<longleftrightarrow> unat q < 4294967296"
proof -
  have "drop_bit 16 p = 0 \<longleftrightarrow> unat (drop_bit 16 p) = 0" by (simp only: unat_eq_0)
  also have "\<dots> \<longleftrightarrow> unat p div 65536 = 0" unfolding unat_drop_bit_eq by (simp add: drop_bit_eq_div)
  finally show "drop_bit 16 p = 0 \<longleftrightarrow> unat p < 65536" by (simp add: div_eq_0_iff)
  have "drop_bit 32 q = 0 \<longleftrightarrow> unat (drop_bit 32 q) = 0" by (simp only: unat_eq_0)
  also have "\<dots> \<longleftrightarrow> unat q div 4294967296 = 0" unfolding unat_drop_bit_eq by (simp add: drop_bit_eq_div)
  finally show "drop_bit 32 q = 0 \<longleftrightarrow> unat q < 4294967296" by (simp add: div_eq_0_iff)
qed

lemma uint_drop16: "uint (drop_bit 16 (p :: u32)) = uint p div 65536" "uint (drop_bit 32 (q :: u64)) = uint q div 4294967296"
proof -
  have "unat (drop_bit 16 p) = unat p div 65536" unfolding unat_drop_bit_eq by (simp add: drop_bit_eq_div)
  from arg_cong [OF this, of int] show "uint (drop_bit 16 p) = uint p div 65536" by (simp add: zdiv_int)
  have "unat (drop_bit 32 q) = unat q div 4294967296" unfolding unat_drop_bit_eq by (simp add: drop_bit_eq_div)
  from arg_cong [OF this, of int] show "uint (drop_bit 32 q) = uint q div 4294967296" by (simp add: zdiv_int)
qed

lemma unsigned_product_bound:
  fixes a b :: nat
  assumes "a < 2 ^ wbits w" "b < 2 ^ wbits w"
  shows "a * b < 2 ^ (2 * wbits w)"
  using mult_strict_mono [OF assms] by (simp add: power_add mult_2)

lemma mul_unsigned:
  assumes P: "P = acc_low w s * uval w v"
  shows "cpu_mul s v False w = set_flag (put_wide w (int P) s) (FLAG_CF OR FLAG_OF) (2 ^ wbits w \<le> P)"
proof -
  have b: "P < 2 ^ (2 * wbits w)" unfolding P by (intro unsigned_product_bound acc_bounds uval_less)
  show ?thesis
  proof (cases w)
    case Byte
    let ?p = "(ucast (read_gpr8 s 0) :: u16) * ucast (ucast v :: u8)"
    have u: "unat ?p = P" using b Byte by (simp add: unat_word_ariths P)
    then have "uint ?p = int P" by (metis uint_nat)
    from word_of_uint [OF this] show ?thesis using u Byte
      by (simp add: cpu_mul_def put_wide_def Let_def high_half_byte not_less)
  next
    case Word
    let ?p = "(ucast (read_gpr16 s 0) :: u32) * ucast (ucast v :: u16)"
    have u: "unat ?p = P" using b Word by (simp add: unat_word_ariths P)
    then have U: "uint ?p = int P" by (metis uint_nat)
    have "word_of_int (int P) = (ucast ?p :: u16)" "word_of_int (int P div 65536) = (ucast (drop_bit 16 ?p) :: u16)"
      using ucast_of_uint [OF U] ucast_of_uint [OF uint_drop16(1) [of ?p, unfolded U]] .
    then show ?thesis using u Word
      by (simp add: cpu_mul_def put_wide_def Let_def high_half_zero not_less)
  next
    case Dword
    let ?p = "(ucast (read_gpr32 s 0) :: u64) * ucast v"
    have u: "unat ?p = P" using b Dword by (simp add: unat_word_ariths P)
    then have U: "uint ?p = int P" by (metis uint_nat)
    have "word_of_int (int P) = (ucast ?p :: u32)" "word_of_int (int P div 4294967296) = (ucast (drop_bit 32 ?p) :: u32)"
      using ucast_of_uint [OF U] ucast_of_uint [OF uint_drop16(2) [of ?p, unfolded U]] .
    then show ?thesis using u Dword
      by (simp add: cpu_mul_def put_wide_def Let_def high_half_zero not_less)
  qed
qed

lemma sint_of_int_iff: "p = sint (word_of_int p :: 'a::len word) \<longleftrightarrow> - (2 ^ (LENGTH('a) - 1)) \<le> p \<and> p < 2 ^ (LENGTH('a) - 1)"
proof -
  have "sint (word_of_int p :: 'a word) = signed_take_bit (LENGTH('a) - 1) p" by (rule sint_sbintrunc')
  then show ?thesis by (metis signed_take_bit_int_eq_self_iff)
qed

lemma mul_signed:
  assumes P: "P = signed_of (wbits w) (acc_low w s) * sval w v"
  shows "cpu_mul s v True w = set_flag (put_wide w P s) (FLAG_CF OR FLAG_OF) (overflows w P)"
proof (cases w)
  case Byte
  have "sint (read_gpr8 s 0) * sint (ucast v :: u8) = P" using P Byte by (simp add: sint_signed_of sval_signed_of)
  then show ?thesis using Byte
    by (simp add: cpu_mul_def put_wide_def Let_def overflows_def sint_of_int_iff [where 'a=8])
next
  case Word
  have "sint (read_gpr16 s 0) * sint (ucast v :: u16) = P" using P Word by (simp add: sint_signed_of sval_signed_of)
  then show ?thesis using Word
    by (simp add: cpu_mul_def put_wide_def Let_def overflows_def sint_of_int_iff [where 'a=16])
next
  case Dword
  have "sint (read_gpr32 s 0) * sint v = P" using P Dword by (simp add: sint_signed_of sval_signed_of)
  then show ?thesis using Dword
    by (simp add: cpu_mul_def put_wide_def Let_def overflows_def sint_of_int_iff [where 'a=32])
qed

lemma signed_product_bound:
  assumes "- (2 ^ wtop w) \<le> a \<and> a < 2 ^ wtop w" "- (2 ^ wtop w) \<le> b \<and> b < 2 ^ wtop w"
  shows "- (2 ^ (2 * wbits w - 1)) \<le> a * b \<and> a * b < (2 :: int) ^ (2 * wbits w - 1)"
proof -
  have "\<bar>a\<bar> * \<bar>b\<bar> \<le> 2 ^ wtop w * 2 ^ wtop w" using assms by (intro mult_mono) auto
  also have "\<dots> < (2 :: int) ^ (2 * wbits w - 1)" by (cases w) simp_all
  finally have "\<bar>a * b\<bar> < 2 ^ (2 * wbits w - 1)" by (simp add: abs_mult)
  then show ?thesis by linarith
qed

lemma acc_signed_bounds: "- (2 ^ wtop w) \<le> signed_of (wbits w) (acc_low w s) \<and> signed_of (wbits w) (acc_low w s) < 2 ^ wtop w"
  "- (2 ^ wtop w) \<le> sval w v \<and> sval w v < 2 ^ wtop w"
  using signed_of_bounds [OF _ acc_bounds(1), of w s] signed_of_bounds [OF _ uval_less, of w v]
  by (simp_all add: fits_le32(2) sval_signed_of wtop_def)

lemma eflags_ok_put_wide [simp]: "eflags_ok (put_wide w p s) = eflags_ok s"
  by (cases w) (simp_all add: put_wide_def)

lemma flag_gpr: "flag (s\<lparr>gpr := g\<rparr>) f = flag s f"
  by (simp add: flag_def arith_flag_def Let_def)

lemma flag_write_gpr [simp]: "flag (write_gpr8 s i v8) f = flag s f" "flag (write_gpr16 s i v16) f = flag s f" "flag (write_gpr32 s i v32) f = flag s f"
  by (simp_all add: write_gpr8_def write_gpr16_def write_gpr32_def Let_def flag_gpr)

lemma flag_put_wide [simp]: "flag (put_wide w p s) f = flag s f"
  by (cases w) (simp_all add: put_wide_def)

text \<open>C22: Multiplication of the accumulator is exact at every width, signed and unsigned: the register pair holds
  the whole product, carry and overflow are both set exactly when the product does not fit the accumulator, and
  zero, sign, parity and half carry are left alone.\<close>

theorem mul_exact:
  assumes ok: "eflags_ok s" "gpr_ok s"
  shows "(let t = cpu_mul s v False w; P = acc_low w s * uval w v in
      acc_wide w t = P \<and> flag t FLAG_CF = (2 ^ wbits w \<le> P) \<and> flag t FLAG_OF = (2 ^ wbits w \<le> P) \<and>
      (\<forall>g \<in> {FLAG_PF, FLAG_AF, FLAG_ZF, FLAG_SF}. flag t g = flag s g)) \<and>
    (let t = cpu_mul s v True w; P = signed_of (wbits w) (acc_low w s) * sval w v in
      signed_of (2 * wbits w) (acc_wide w t) = P \<and> flag t FLAG_CF = overflows w P \<and> flag t FLAG_OF = overflows w P \<and>
      (\<forall>g \<in> {FLAG_PF, FLAG_AF, FLAG_ZF, FLAG_SF}. flag t g = flag s g))"
    (is "?unsigned \<and> ?signed")
proof
  obtain P where P: "P = acc_low w s * uval w v" by blast
  have "P < 2 ^ (2 * wbits w)" unfolding P by (intro unsigned_product_bound acc_bounds uval_less)
  then have "int P mod 2 ^ (2 * wbits w) = int P" by (simp flip: of_nat_power add: zmod_int [symmetric])
  then have "acc_wide w (put_wide w (int P) s) = P" using wide_put_wide [OF ok(2), of w "int P"] by simp
  then show ?unsigned
    using ok mul_unsigned [OF P] by (simp add: Let_def set_carry_overflow P [symmetric])
  obtain Q where Q: "Q = signed_of (wbits w) (acc_low w s) * sval w v" by blast
  have "- (2 ^ (2 * wbits w - 1)) \<le> Q \<and> Q < 2 ^ (2 * wbits w - 1)"
    unfolding Q by (intro signed_product_bound acc_signed_bounds)
  then have "signed_of (2 * wbits w) (acc_wide w (put_wide w Q s)) = Q"
    using wide_put_wide [OF ok(2), of w Q] fits_le32(2) [of w] by (intro signed_of_mod) auto
  then show ?signed
    using ok mul_signed [OF Q] by (simp add: Let_def set_carry_overflow Q [symmetric])
qed

definition loaded_cpu :: cpu where
  "loaded_cpu = write_gpr16 reset_cpu 0 0x01ff"

lemma loaded_cpu_ok: "eflags_ok loaded_cpu" "gpr_ok loaded_cpu"
  by (simp_all add: loaded_cpu_def reset_cpu_ok) (simp add: gpr_ok_def reset_cpu_def)

lemma loaded_cpu_acc: "acc_low Byte loaded_cpu = 255" "acc_wide Byte loaded_cpu = 511"
  by (simp_all add: wide_byte) (simp_all add: loaded_cpu_def reset_cpu_def write_gpr16_def read_gpr8_def read_gpr16_def uval_def)

theorem mul_exact_witness:
  "acc_wide Byte (cpu_mul loaded_cpu 2 False Byte) = 510 \<and>
   signed_of 16 (acc_wide Byte (cpu_mul loaded_cpu 2 True Byte)) = - 2"
proof -
  have "signed_of 8 255 = - 1" "sval Byte 2 = 2" "uval Byte 2 = 2" by (simp_all add: signed_of_def uval_def sval_def)
  then show ?thesis
    using mul_exact [OF loaded_cpu_ok, of 2 Byte] by (simp add: Let_def loaded_cpu_acc del: acc_low.simps)
qed

section \<open>Division\<close>

lemma pair_or:
  "unat (push_bit 16 (ucast (h :: u16)) OR ucast (l :: u16) :: u32) = unat h * 65536 + unat l"
  "unat (push_bit 32 (ucast (H :: u32)) OR ucast (L :: u32) :: u64) = unat H * 4294967296 + unat L"
proof -
  have "push_bit 16 (ucast h) OR ucast l = push_bit 16 (ucast h) + (ucast l :: u32)"
    by (rule disjunctive_add [symmetric]) (auto simp: bit_push_bit_iff bit_ucast_iff dest: bit_imp_le_length)
  moreover have "unat (push_bit 16 (ucast h) + (ucast l :: u32)) = unat h * 65536 + unat l"
    using unat_less_u16 [of h] unat_less_u16 [of l] by (simp add: push_bit_eq_mult unat_word_ariths)
  ultimately show "unat (push_bit 16 (ucast h) OR ucast l :: u32) = unat h * 65536 + unat l" by simp
  have "push_bit 32 (ucast H) OR ucast L = push_bit 32 (ucast H) + (ucast L :: u64)"
    by (rule disjunctive_add [symmetric]) (auto simp: bit_push_bit_iff bit_ucast_iff dest: bit_imp_le_length)
  moreover have "unat (push_bit 32 (ucast H) + (ucast L :: u64)) = unat H * 4294967296 + unat L"
    using unat_less_u32 [of H] unat_less_u32 [of L] by (simp add: push_bit_eq_mult unat_word_ariths)
  ultimately show "unat (push_bit 32 (ucast H) OR ucast L :: u64) = unat H * 4294967296 + unat L" by simp
qed

text \<open>Writing a quotient and a remainder.\<close>

definition put_quotient :: "bus_width \<Rightarrow> int \<Rightarrow> int \<Rightarrow> cpu \<Rightarrow> cpu" where
  "put_quotient w q r s = (case w of
       Byte \<Rightarrow> write_gpr8 (write_gpr8 s 0 (word_of_int q)) 4 (word_of_int r)
     | Word \<Rightarrow> write_gpr16 (write_gpr16 s 0 (word_of_int q)) 2 (word_of_int r)
     | Dword \<Rightarrow> write_gpr32 (write_gpr32 s 0 (word_of_int q)) 2 (word_of_int r))"

lemma acc_put_quotient:
  assumes "gpr_ok s"
  shows "int (acc_low w (put_quotient w q r s)) = q mod 2 ^ wbits w" "int (acc_high w (put_quotient w q r s)) = r mod 2 ^ wbits w"
  using assms
  by (cases w; simp add: put_quotient_def read_write_gpr uint_word_of_int_eq take_bit_eq_mod)+

lemma flag_put_quotient [simp]: "flag (put_quotient w q r s) f = flag s f"
  by (cases w) (simp_all add: put_quotient_def)

lemma zero_operand: "v AND width_mask w = 0 \<longleftrightarrow> uval w v = 0"
  by (simp only: unat_masked [symmetric] unat_eq_0)

lemma div_of_nat: "word_of_int (int (unat (x :: 'a::len word))) = (ucast x :: 'b::len word)"
  by (simp only: ucast_eq uint_nat)

lemma div_unsigned:
  "cpu_div s v False w =
     (if uval w v = 0 \<or> 2 ^ wbits w \<le> acc_wide w s div uval w v then Inl divide_error
      else Inr (put_quotient w (int (acc_wide w s div uval w v)) (int (acc_wide w s mod uval w v)) s))"
proof (cases "uval w v = 0")
  case True
  then show ?thesis by (simp add: cpu_div_def zero_operand)
next
  case False
  show ?thesis
  proof (cases w)
    case Byte
    let ?D = "ucast (read_gpr16 s 0) :: u32" and ?d = "ucast (ucast v :: u8) :: u32"
    have "unat (?D div ?d) = acc_wide w s div uval w v" "unat (?D mod ?d) = acc_wide w s mod uval w v"
      using Byte by (simp_all add: unat_div unat_mod wide_byte)
    note e = this [symmetric]
    have "?D div ?d > 0xff \<longleftrightarrow> 2 ^ wbits w \<le> unat (?D div ?d)"
      unfolding word_less_nat_alt using Byte by (simp add: less_eq_Suc_le del: unat_div)
    then show ?thesis
      unfolding cpu_div_def zero_operand e div_of_nat Let_def put_quotient_def using False Byte
      by (simp only: bus_width.case if_False if_True simp_thms)
  next
    case Word
    let ?D = "push_bit 16 (ucast (read_gpr16 s 2)) OR (ucast (read_gpr16 s 0) :: u32)" and ?d = "ucast (ucast v :: u16) :: u32"
    have "unat (?D div ?d) = acc_wide w s div uval w v" "unat (?D mod ?d) = acc_wide w s mod uval w v"
      using Word by (simp_all add: unat_div unat_mod acc_wide_def pair_or)
    note e = this [symmetric]
    have "?D div ?d > 0xffff \<longleftrightarrow> 2 ^ wbits w \<le> unat (?D div ?d)"
      unfolding word_less_nat_alt using Word by (simp add: less_eq_Suc_le del: unat_div)
    then show ?thesis
      unfolding cpu_div_def zero_operand e div_of_nat Let_def put_quotient_def using False Word
      by (simp only: bus_width.case if_False if_True simp_thms)
  next
    case Dword
    let ?D = "push_bit 32 (ucast (read_gpr32 s 2)) OR (ucast (read_gpr32 s 0) :: u64)" and ?d = "ucast v :: u64"
    have "unat (?D div ?d) = acc_wide w s div uval w v" "unat (?D mod ?d) = acc_wide w s mod uval w v"
      using Dword by (simp_all add: unat_div unat_mod acc_wide_def pair_or)
    note e = this [symmetric]
    have "?D div ?d > 0xffffffff \<longleftrightarrow> 2 ^ wbits w \<le> unat (?D div ?d)"
      unfolding word_less_nat_alt using Dword by (simp add: less_eq_Suc_le del: unat_div)
    then show ?thesis
      unfolding cpu_div_def zero_operand e div_of_nat Let_def put_quotient_def using False Dword
      by (simp only: bus_width.case if_False if_True simp_thms)
  qed
qed

text \<open>The double-width dividend as a signed number.\<close>

definition dividend :: "bus_width \<Rightarrow> cpu \<Rightarrow> int" where
  "dividend w s = signed_of (2 * wbits w) (acc_wide w s)"

lemma dividend_bounds: "- (2 ^ (2 * wbits w - 1)) \<le> dividend w s \<and> dividend w s < 2 ^ (2 * wbits w - 1)"
  unfolding dividend_def using fits_le32(2) [of w] by (intro signed_of_bounds acc_bounds) simp

lemma sval_zero: "sval w v = 0 \<longleftrightarrow> uval w v = 0"
  using sval_eq_iff [of w v 0] by (simp add: sval_def uval_def)

lemma sdiv_minus_one: "(a :: int) sdiv (- 1) = - a"
  by (simp add: signed_divide_int_def sgn_mult_abs)

lemma div_signed:
  "cpu_div s v True w =
     (if sval w v = 0 \<or> overflows w (dividend w s sdiv sval w v) then Inl divide_error
      else Inr (put_quotient w (dividend w s sdiv sval w v) (dividend w s smod sval w v) s))"
proof (cases "uval w v = 0")
  case True
  then show ?thesis by (simp add: cpu_div_def zero_operand sval_zero)
next
  case False
  then have nz: "sval w v \<noteq> 0" by (simp add: sval_zero)
  have o: "overflows w (- a)" if "a = - (2 ^ (2 * wbits w - 1))" for a
    using that by (cases w) (simp_all add: overflows_def)
  show ?thesis
  proof (cases w)
    case Byte
    have a: "sint (read_gpr16 s 0) = dividend w s" "sint (ucast v :: u8) = sval w v"
      using Byte by (simp_all add: sint_signed_of dividend_def wide_byte sval_signed_of)
    have "dividend w s \<noteq> - 2147483648" using dividend_bounds [of w s] Byte by auto
    then show ?thesis
      unfolding cpu_div_def zero_operand a checked_div_rem_def put_quotient_def overflows_def using False nz Byte by simp
  next
    case Word
    let ?D = "push_bit 16 (ucast (read_gpr16 s 2)) OR (ucast (read_gpr16 s 0) :: u32)"
    have a: "sint ?D = dividend w s" "sint (ucast v :: u16) = sval w v"
      using Word by (simp_all add: sint_signed_of dividend_def acc_wide_def sval_signed_of pair_or)
    show ?thesis
    proof (cases "dividend w s = - 2147483648 \<and> sval w v = - 1")
      case True
      then show ?thesis
        using o [of "dividend w s"] Word unfolding cpu_div_def zero_operand Let_def a checked_div_rem_def
        by (simp add: sdiv_minus_one)
    next
      case n: False
      then show ?thesis
        unfolding cpu_div_def zero_operand Let_def a checked_div_rem_def put_quotient_def overflows_def using False nz Word
        by (simp split: if_splits)
    qed
  next
    case Dword
    let ?D = "push_bit 32 (ucast (read_gpr32 s 2)) OR (ucast (read_gpr32 s 0) :: u64)"
    have a: "sint ?D = dividend w s" "sint v = sval w v"
      using Dword by (simp_all add: sint_signed_of dividend_def acc_wide_def sval_signed_of pair_or)
    show ?thesis
    proof (cases "dividend w s = - 9223372036854775808 \<and> sval w v = - 1")
      case True
      then show ?thesis
        using o [of "dividend w s"] Dword unfolding cpu_div_def zero_operand Let_def a checked_div_rem_def
        by (simp add: sdiv_minus_one)
    next
      case n: False
      then show ?thesis
        unfolding cpu_div_def zero_operand Let_def a checked_div_rem_def put_quotient_def overflows_def using False nz Dword
        by (simp split: if_splits)
    qed
  qed
qed

lemma signed_acc_quotient:
  assumes "gpr_ok s" "\<not> overflows w q" "\<not> overflows w r"
  shows "signed_of (wbits w) (acc_low w (put_quotient w q r s)) = q" "signed_of (wbits w) (acc_high w (put_quotient w q r s)) = r"
proof -
  have r: "- (2 ^ (wbits w - 1)) \<le> x \<and> x < 2 ^ (wbits w - 1)" if "\<not> overflows w x" for x
    using that by (simp only: overflows_def not_not wtop_def)
  show "signed_of (wbits w) (acc_low w (put_quotient w q r s)) = q"
    using r [OF assms(2)] by (intro signed_of_mod acc_put_quotient(1) [OF assms(1)] fits_le32(2)) blast+
  show "signed_of (wbits w) (acc_high w (put_quotient w q r s)) = r"
    using r [OF assms(3)] by (intro signed_of_mod acc_put_quotient(2) [OF assms(1)] fits_le32(2)) blast+
qed

lemma remainder_fits: "sval w v \<noteq> 0 \<Longrightarrow> \<not> overflows w (a smod sval w v)"
  using smod_int_range [of "sval w v" a] acc_signed_bounds(2) [of w v] by (auto simp: overflows_def)

text \<open>C18: Division of the accumulator is exact at every width, signed and unsigned. It faults with the divide error,
  before any register is written, exactly when the divisor is zero or the quotient does not fit; otherwise quotient
  times divisor plus remainder is the double-width dividend, the remainder is smaller than the divisor and, signed,
  has the sign of the dividend, and every flag is left alone.\<close>

theorem div_exact:
  assumes ok: "gpr_ok s"
  shows "(case cpu_div s v False w of
      Inl e \<Rightarrow> e = divide_error \<and> (uval w v = 0 \<or> 2 ^ wbits w \<le> acc_wide w s div uval w v)
    | Inr t \<Rightarrow> acc_low w t * uval w v + acc_high w t = acc_wide w s \<and> acc_high w t < uval w v \<and> (\<forall>f. flag t f = flag s f)) \<and>
    (case cpu_div s v True w of
      Inl e \<Rightarrow> e = divide_error \<and> (sval w v = 0 \<or> overflows w (dividend w s sdiv sval w v))
    | Inr t \<Rightarrow> signed_of (wbits w) (acc_low w t) * sval w v + signed_of (wbits w) (acc_high w t) = dividend w s \<and>
        \<bar>signed_of (wbits w) (acc_high w t)\<bar> < \<bar>sval w v\<bar> \<and>
        (signed_of (wbits w) (acc_high w t) \<noteq> 0 \<longrightarrow> sgn (signed_of (wbits w) (acc_high w t)) = sgn (dividend w s)) \<and>
        (\<forall>f. flag t f = flag s f))"
    (is "?unsigned \<and> ?signed")
proof
  let ?D = "acc_wide w s" and ?d = "uval w v"
  show ?unsigned
  proof (cases "?d = 0 \<or> 2 ^ wbits w \<le> ?D div ?d")
    case True
    then show ?thesis by (simp add: div_unsigned)
  next
    case False
    have m: "?D mod ?d < 2 ^ wbits w" using False uval_less [of w v] mod_less_divisor [of ?d ?D] by linarith
    have "int (?D div ?d) mod 2 ^ wbits w = int (?D div ?d)" "int (?D mod ?d) mod 2 ^ wbits w = int (?D mod ?d)"
      using False m by (simp_all flip: of_nat_power add: zmod_int [symmetric] not_le)
    then have "acc_low w (put_quotient w (int (?D div ?d)) (int (?D mod ?d)) s) = ?D div ?d"
      "acc_high w (put_quotient w (int (?D div ?d)) (int (?D mod ?d)) s) = ?D mod ?d"
      using acc_put_quotient [OF ok, of w "int (?D div ?d)" "int (?D mod ?d)"] by simp_all
    then show ?thesis using False by (simp add: div_unsigned div_mult_mod_eq)
  qed
  let ?A = "dividend w s" and ?a = "sval w v"
  show ?signed
  proof (cases "?a = 0 \<or> overflows w (?A sdiv ?a)")
    case True
    then show ?thesis by (simp add: div_signed)
  next
    case False
    then have q: "\<not> overflows w (?A sdiv ?a)" "\<not> overflows w (?A smod ?a)" "?a \<noteq> 0" by (simp_all add: remainder_fits)
    have "\<bar>?A smod ?a\<bar> < \<bar>?a\<bar>" using smod_int_range [OF q(3), of ?A] by auto
    moreover have "?A smod ?a \<noteq> 0 \<Longrightarrow> sgn (?A smod ?a) = sgn ?A"
    proof -
      assume n: "?A smod ?a \<noteq> 0"
      have "?A smod ?a = sgn ?A * (\<bar>?A\<bar> mod \<bar>?a\<bar>)" by (simp add: signed_modulo_int_def)
      moreover have "0 \<le> \<bar>?A\<bar> mod \<bar>?a\<bar>" using q(3) by simp
      then have "\<bar>?A\<bar> mod \<bar>?a\<bar> = 0 \<or> 0 < \<bar>?A\<bar> mod \<bar>?a\<bar>" by linarith
      ultimately show ?thesis using n by (auto simp: sgn_mult)
    qed
    moreover have "?A sdiv ?a * ?a + ?A smod ?a = ?A" by (simp add: sdiv_mult_smod_eq)
    ultimately show ?thesis
      using False signed_acc_quotient [OF ok q(1,2)] by (simp add: div_signed)
  qed
qed

theorem div_exact_witness:
  "(case cpu_div loaded_cpu 2 False Byte of Inl e \<Rightarrow> False | Inr t \<Rightarrow> acc_low Byte t * 2 + acc_high Byte t = 511) \<and>
   (case cpu_div loaded_cpu 2 True Byte of Inl e \<Rightarrow> e = divide_error | Inr t \<Rightarrow> False)"
proof -
  have v: "uval Byte 2 = 2" "sval Byte 2 = 2" by (simp_all add: uval_def sval_def)
  have "dividend Byte loaded_cpu = 511" by (simp add: dividend_def loaded_cpu_acc signed_of_def)
  then have o: "overflows Byte (dividend Byte loaded_cpu sdiv sval Byte 2)"
    by (simp add: v overflows_def signed_divide_int_def)
  show ?thesis
    using div_exact [OF loaded_cpu_ok(2), where v=2 and w=Byte] o v
      div_unsigned [of loaded_cpu 2 Byte] div_signed [of loaded_cpu 2 Byte]
    by (simp add: loaded_cpu_acc del: acc_low.simps acc_high.simps)
qed

end
