(* ===== verification/Decode_Cache.thy ===== *)
theory Decode_Cache
  imports Prelude
begin

text \<open>
  The decoded-instruction cache of the CPU (\<open>DecodeCache\<close> in \<open>cpu/lib.rs\<close>, in the build without
  the native backend): a direct-mapped array of generation-stamped lines, the bitmaps of physical
  bytes and pages that hold cached code, the bitmap of pages that hold page tables, the map from
  physical code pages back to linear pages, and the two-slot ring of page directories that lets a
  \<open>MOV CR3\<close> switch between two address spaces without a flush.  The cache reads nothing of a
  decoded instruction but its length, so the other fields of \<open>DecodedInsn\<close> are a type parameter.
  A boxed slice of bitmap words is a function from word indices; every index the code forms is in
  range (\<open>bitmap_index_in_range\<close>).
\<close>

section \<open>Integer helpers of the source\<close>

definition checked_add32 :: "u32 \<Rightarrow> u32 \<Rightarrow> u32 option" where
  "checked_add32 a b = (if unat a + unat b < 2 ^ 32 then Some (a + b) else None)"

definition sat_sub32 :: "u32 \<Rightarrow> u32 \<Rightarrow> u32" where
  "sat_sub32 a b = (if a < b then 0 else a - b)"

text \<open>The inclusive range \<open>a..=b\<close>.\<close>

definition range_incl :: "u32 \<Rightarrow> u32 \<Rightarrow> u32 list" where
  "range_incl a b = map of_nat [unat a ..< Suc (unat b)]"

definition page_of :: "u32 \<Rightarrow> u32" where
  "page_of a = drop_bit 12 a"

text \<open>The addresses of a range of \<open>width\<close> bytes that may wrap: \<open>(0..width).map(|i| a.wrapping_add(i))\<close>.\<close>

definition span :: "u32 \<Rightarrow> nat \<Rightarrow> u32 list" where
  "span a width = map (\<lambda>i. a + of_nat i) [0..<width]"

text \<open>\<open>iter().position(p)\<close>.\<close>

fun position :: "('a \<Rightarrow> bool) \<Rightarrow> 'a list \<Rightarrow> nat option" where
  "position p [] = None"
| "position p (x # xs) = (if p x then Some 0 else map_option Suc (position p xs))"

section \<open>Bitmaps\<close>

type_synonym bitmap = "nat \<Rightarrow> 64 word"

definition bitmap_bit :: "u32 \<Rightarrow> 64 word" where
  "bitmap_bit i = push_bit (unat (i AND 63)) 1"

definition bitmap_get :: "bitmap \<Rightarrow> u32 \<Rightarrow> bool" where
  "bitmap_get bm i \<longleftrightarrow> bm (unat (drop_bit 6 i)) AND bitmap_bit i \<noteq> 0"

definition bitmap_set :: "bitmap \<Rightarrow> u32 \<Rightarrow> bitmap" where
  "bitmap_set bm i = bm(unat (drop_bit 6 i) := bm (unat (drop_bit 6 i)) OR bitmap_bit i)"

section \<open>The state of the cache\<close>

definition SMC_BYTE_COVERAGE :: u32 where
  "SMC_BYTE_COVERAGE = push_bit 20 2"

record 'r decoded_insn =
  di_len :: u8
  di_rest :: 'r

record 'r decode_line =
  dl_tag :: u32
  dl_generation :: u32
  dl_insn :: "'r decoded_insn option"
  dl_d :: bool
  dl_phys_start :: u32

record page_code_info =
  pci_lin_page :: u32
  pci_aliased :: bool

record 'r decode_cache =
  dc_lines :: "'r decode_line list"
  dc_mask :: u32
  dc_generation :: u32
  code_bytes :: bitmap
  code_pages :: bitmap
  translation_pages :: bitmap
  translation_pages_marked :: nat
  contexts :: "(u32 \<times> u32) option list"
  dc_next_generation :: u32
  ring_seeded :: bool
  dirty_byte_words :: "nat list"
  dirty_page_words :: "nat list"
  code_page_lin :: "u32 \<rightharpoonup> page_code_info"

record insert_outcome =
  io_inserted :: bool
  io_evicted_slot :: "u32 option"

datatype context_select = Reselected nat | Allocated nat | Taken nat

definition default_line :: "'r decode_line" where
  "default_line = \<lparr>dl_tag = 0, dl_generation = 0, dl_insn = None, dl_d = False, dl_phys_start = 0\<rparr>"

definition is_power_of_two :: "nat \<Rightarrow> bool" where
  "is_power_of_two n \<longleftrightarrow> n \<noteq> 0 \<and> (\<exists>k \<le> n. n = 2 ^ k)"

text \<open>\<open>DecodeCache::new\<close>; the failed assertion is \<open>None\<close>.\<close>

definition decode_cache_new :: "nat \<Rightarrow> 'r decode_cache option" where
  "decode_cache_new n = (if is_power_of_two n then Some
     \<lparr>dc_lines = replicate n default_line, dc_mask = of_nat (n - 1), dc_generation = 1,
      code_bytes = (\<lambda>_. 0), code_pages = (\<lambda>_. 0), translation_pages = (\<lambda>_. 0),
      translation_pages_marked = 0, contexts = [None, None], dc_next_generation = 1,
      ring_seeded = False, dirty_byte_words = [], dirty_page_words = [], code_page_lin = Map.empty\<rparr>
   else None)"

section \<open>Marks\<close>

definition mark_code_page :: "u32 \<Rightarrow> 'r decode_cache \<Rightarrow> 'r decode_cache" where
  "mark_code_page page dc = (let w = unat (drop_bit 6 page) in
     dc\<lparr>dirty_page_words := (if code_pages dc w = 0 then dirty_page_words dc @ [w] else dirty_page_words dc),
        code_pages := bitmap_set (code_pages dc) page\<rparr>)"

definition mark_code_byte :: "u32 \<Rightarrow> 'r decode_cache \<Rightarrow> 'r decode_cache" where
  "mark_code_byte addr dc = (if addr < SMC_BYTE_COVERAGE then (let w = unat (drop_bit 6 addr) in
     dc\<lparr>dirty_byte_words := (if code_bytes dc w = 0 then dirty_byte_words dc @ [w] else dirty_byte_words dc),
        code_bytes := bitmap_set (code_bytes dc) addr\<rparr>) else dc)"

definition mark_code_range :: "u32 \<Rightarrow> u8 \<Rightarrow> 'r decode_cache \<Rightarrow> 'r decode_cache" where
  "mark_code_range physical len dc =
    (let first_page = page_of physical;
         last_page = page_of (physical + sat_sub32 (ucast len) 1)
     in fold mark_code_byte (span physical (unat len)) (fold mark_code_page (range_incl first_page last_page) dc))"

definition is_code_byte :: "'r decode_cache \<Rightarrow> u32 \<Rightarrow> bool" where
  "is_code_byte dc physical =
    (if physical < SMC_BYTE_COVERAGE then bitmap_get (code_bytes dc) physical
     else bitmap_get (code_pages dc) (page_of physical))"

definition range_hits_code :: "'r decode_cache \<Rightarrow> u32 \<Rightarrow> u32 \<Rightarrow> bool" where
  "range_hits_code dc physical width =
    (let b = physical AND 63 in
     if width \<le> 4 \<and> b + width \<le> 64 \<and> physical \<le> SMC_BYTE_COVERAGE - width
     then code_bytes dc (unat (drop_bit 6 physical)) AND push_bit (unat b) (push_bit (unat width) 1 - 1) \<noteq> 0
     else list_ex (is_code_byte dc) (span physical (unat width)))"

definition translation_page_is_watched :: "'r decode_cache \<Rightarrow> u32 \<Rightarrow> bool" where
  "translation_page_is_watched dc page = bitmap_get (translation_pages dc) page"

definition range_hits_translation_page :: "'r decode_cache \<Rightarrow> u32 \<Rightarrow> u32 \<Rightarrow> bool" where
  "range_hits_translation_page dc physical width =
    list_ex (translation_page_is_watched dc)
      (range_incl (page_of physical) (page_of (physical + sat_sub32 width 1)))"

definition dc_mark_translation_page :: "u32 \<Rightarrow> 'r decode_cache \<Rightarrow> bool \<times> 'r decode_cache" where
  "dc_mark_translation_page physical dc =
    (let page = page_of physical in
     if bitmap_get (translation_pages dc) page then (False, dc)
     else (True, dc\<lparr>translation_pages := bitmap_set (translation_pages dc) page,
                    translation_pages_marked := translation_pages_marked dc + 1\<rparr>))"

section \<open>Lines\<close>

definition line_index :: "'r decode_cache \<Rightarrow> u32 \<Rightarrow> nat" where
  "line_index dc lin = unat (lin AND dc_mask dc)"

definition line_live :: "'r decode_cache \<Rightarrow> u32 \<Rightarrow> bool \<Rightarrow> bool" where
  "line_live dc lin d = (let line = dc_lines dc ! line_index dc lin in
     dl_generation line = dc_generation dc \<and> dl_tag line = lin \<and> dl_d line = d)"

definition dc_get :: "'r decode_cache \<Rightarrow> u32 \<Rightarrow> bool \<Rightarrow> 'r decoded_insn option" where
  "dc_get dc lin d = (let line = dc_lines dc ! line_index dc lin in
     if dl_generation line = dc_generation dc \<and> dl_tag line = lin \<and> dl_d line = d then dl_insn line else None)"

definition dc_get_view :: "'r decode_cache \<Rightarrow> u32 \<Rightarrow> bool \<Rightarrow> ('r decoded_insn \<times> u32) option" where
  "dc_get_view dc lin d = (let line = dc_lines dc ! line_index dc lin in
     if dl_generation line = dc_generation dc \<and> dl_tag line = lin \<and> dl_d line = d
     then map_option (\<lambda>insn. (insn, dl_phys_start line)) (dl_insn line) else None)"

definition line_phys_start :: "'r decode_cache \<Rightarrow> u32 \<Rightarrow> bool \<Rightarrow> u32 option" where
  "line_phys_start dc lin d = (let line = dc_lines dc ! line_index dc lin in
     if dl_generation line = dc_generation dc \<and> dl_tag line = lin \<and> dl_d line = d
     then Some (dl_phys_start line) else None)"

definition publish_line :: "nat \<Rightarrow> 'r decode_line \<Rightarrow> 'r decode_cache \<Rightarrow> 'r decode_cache" where
  "publish_line i line dc = dc\<lparr>dc_lines := (dc_lines dc)[i := line]\<rparr>"

definition kill_line_at :: "nat \<Rightarrow> 'r decode_cache \<Rightarrow> 'r decode_cache" where
  "kill_line_at i dc = dc\<lparr>dc_lines := (dc_lines dc)[i := (dc_lines dc ! i)\<lparr>dl_generation := 0\<rparr>]\<rparr>"

definition clear_lines :: "'r decode_cache \<Rightarrow> 'r decode_cache" where
  "clear_lines dc = dc\<lparr>dc_lines := replicate (length (dc_lines dc)) default_line\<rparr>"

definition note_code_page :: "u32 \<Rightarrow> u32 \<Rightarrow> 'r decode_cache \<Rightarrow> 'r decode_cache" where
  "note_code_page page lin dc = dc\<lparr>code_page_lin := (code_page_lin dc)(page \<mapsto>
     (case code_page_lin dc page of
        None \<Rightarrow> \<lparr>pci_lin_page = page_of lin, pci_aliased = False\<rparr>
      | Some info \<Rightarrow> info\<lparr>pci_aliased := pci_aliased info \<or> pci_lin_page info \<noteq> page_of lin\<rparr>))\<rparr>"

definition rejected :: insert_outcome where
  "rejected = \<lparr>io_inserted = False, io_evicted_slot = None\<rparr>"

definition dc_put :: "u32 \<Rightarrow> 'r decoded_insn \<Rightarrow> bool \<Rightarrow> u32 \<Rightarrow> 'r decode_cache \<Rightarrow> insert_outcome \<times> 'r decode_cache" where
  "dc_put lin insn d phys dc =
    (let len = ucast (di_len insn) :: u32 in
     if len = 0 then (rejected, dc) else
     case checked_add32 lin (sat_sub32 len 1) of None \<Rightarrow> (rejected, dc)
     | Some linear_last \<Rightarrow>
     (case checked_add32 phys (sat_sub32 len 1) of None \<Rightarrow> (rejected, dc)
     | Some physical_last \<Rightarrow>
       if page_of lin \<noteq> page_of linear_last \<or> page_of phys \<noteq> page_of physical_last then (rejected, dc)
       else (let slot = lin AND dc_mask dc;
                 previous = dc_lines dc ! unat slot;
                 dc1 = note_code_page (page_of phys) lin (mark_code_range phys (di_len insn) dc);
                 displaced = (dl_generation previous = dc_generation dc1 \<and> dl_insn previous \<noteq> None
                              \<and> (dl_tag previous \<noteq> lin \<or> dl_d previous \<noteq> d))
             in (\<lparr>io_inserted = True, io_evicted_slot = (if displaced then Some slot else None)\<rparr>,
                 publish_line (unat slot)
                   \<lparr>dl_tag = lin, dl_generation = dc_generation dc1, dl_insn = Some insn, dl_d = d, dl_phys_start = phys\<rparr>
                   dc1))))"

section \<open>Self-modifying code: the narrow kill\<close>

definition contexts_occupied :: "'r decode_cache \<Rightarrow> nat" where
  "contexts_occupied dc = length (filter (\<lambda>c. c \<noteq> None) (contexts dc))"

definition kill_candidate :: "u32 \<Rightarrow> u32 \<Rightarrow> u32 \<Rightarrow> nat \<times> 'r decode_cache \<Rightarrow> nat \<times> 'r decode_cache" where
  "kill_candidate physical final candidate = (\<lambda>(killed, dc).
    (let index = line_index dc candidate; line = dc_lines dc ! index;
         len = (case dl_insn line of None \<Rightarrow> 0 | Some i \<Rightarrow> ucast (di_len i)) :: u32
     in if dl_generation line = dc_generation dc \<and> dl_tag line = candidate
           \<and> len \<noteq> 0 \<and> dl_phys_start line \<le> final \<and> physical < dl_phys_start line + len
        then (killed + 1, kill_line_at index dc) else (killed, dc)))"

definition narrow_invalidate_span :: "u32 \<Rightarrow> u32 \<Rightarrow> 'r decode_cache \<Rightarrow> nat option \<times> 'r decode_cache" where
  "narrow_invalidate_span physical final dc =
    (if contexts_occupied dc > 1 then (None, dc)
     else case code_page_lin dc (page_of physical) of None \<Rightarrow> (None, dc)
     | Some info \<Rightarrow>
       if pci_aliased info then (None, dc)
       else (let written_lin = push_bit 12 (pci_lin_page info) OR (physical AND 0xfff) in
             case checked_add32 written_lin (final - physical) of None \<Rightarrow> (None, dc)
             | Some last_lin \<Rightarrow>
               (let (killed, dc') = fold (kill_candidate physical final)
                      (range_incl (sat_sub32 written_lin 14) last_lin) (0, dc)
                in (Some killed, dc'))))"

definition narrow_invalidate :: "u32 \<Rightarrow> 'r decode_cache \<Rightarrow> nat option \<times> 'r decode_cache" where
  "narrow_invalidate physical dc = narrow_invalidate_span physical physical dc"

text \<open>The \<open>try_fold\<close> of \<open>narrow_invalidate_write\<close> over the written bytes.\<close>

fun narrow_bytes :: "u32 list \<Rightarrow> nat \<Rightarrow> 'r decode_cache \<Rightarrow> nat option \<times> 'r decode_cache" where
  "narrow_bytes [] acc dc = (Some acc, dc)"
| "narrow_bytes (b # bs) acc dc =
    (if \<not> is_code_byte dc b then narrow_bytes bs acc dc
     else case narrow_invalidate b dc of
       (None, dc') \<Rightarrow> (None, dc')
     | (Some k, dc') \<Rightarrow> narrow_bytes bs (acc + k) dc')"

definition narrow_invalidate_write :: "u32 \<Rightarrow> u32 \<Rightarrow> 'r decode_cache \<Rightarrow> nat option \<times> 'r decode_cache" where
  "narrow_invalidate_write physical width dc =
    (case (if width = 2 \<or> width = 4 then checked_add32 physical (width - 1) else None) of
       Some final \<Rightarrow>
         if page_of physical = page_of final \<and> list_all (is_code_byte dc) (span physical (unat width))
         then narrow_invalidate_span physical final dc
         else narrow_bytes (span physical (unat width)) 0 dc
     | None \<Rightarrow> narrow_bytes (span physical (unat width)) 0 dc)"

section \<open>Generations and the ring of page directories\<close>

definition allocate_generation :: "'r decode_cache \<Rightarrow> u32 \<times> 'r decode_cache" where
  "allocate_generation dc =
    (let dc' = (if dc_next_generation dc = - 1
                then (clear_lines dc)\<lparr>contexts := [None, None], dc_next_generation := 1\<rparr>
                else dc\<lparr>dc_next_generation := dc_next_generation dc + 1\<rparr>)
     in (dc_next_generation dc', dc'))"

definition zero_words :: "nat list \<Rightarrow> bitmap \<Rightarrow> bitmap" where
  "zero_words ws bm = fold (\<lambda>w bm. bm(w := 0)) ws bm"

definition retire_ring :: "bool \<Rightarrow> 'r decode_cache \<Rightarrow> 'r decode_cache" where
  "retire_ring clear_translation_marks dc =
    (let dc1 = dc\<lparr>code_bytes := zero_words (dirty_byte_words dc) (code_bytes dc),
                  code_pages := zero_words (dirty_page_words dc) (code_pages dc),
                  dirty_byte_words := [], dirty_page_words := [],
                  code_page_lin := Map.empty, contexts := [None, None]\<rparr>
     in if clear_translation_marks then dc1\<lparr>translation_pages := (\<lambda>_. 0), translation_pages_marked := 0\<rparr>
        else dc1)"

definition invalidate_and_clear_code_marks :: "bool \<Rightarrow> 'r decode_cache \<Rightarrow> 'r decode_cache" where
  "invalidate_and_clear_code_marks clear_translation_marks dc =
    (let (g, dc1) = allocate_generation dc
     in retire_ring clear_translation_marks (dc1\<lparr>dc_generation := g\<rparr>))"

definition select_context :: "u32 \<Rightarrow> u32 \<Rightarrow> 'r decode_cache \<Rightarrow> context_select \<times> 'r decode_cache" where
  "select_context old_cr3_masked new_cr3_masked dc0 =
    (let dc = (if ring_seeded dc0 then dc0
               else dc0\<lparr>ring_seeded := True,
                        contexts := (contexts dc0)[0 := Some (old_cr3_masked, dc_generation dc0)]\<rparr>)
     in case position (\<lambda>c. case c of Some (cr3, _) \<Rightarrow> cr3 = new_cr3_masked | None \<Rightarrow> False) (contexts dc) of
       Some slot \<Rightarrow> (Reselected slot, dc\<lparr>dc_generation := snd (the (contexts dc ! slot))\<rparr>)
     | None \<Rightarrow>
       (case position (\<lambda>c. c = None) (contexts dc) of
          Some slot \<Rightarrow>
            (let (slot_gen, dc1) = allocate_generation dc
             in (Allocated slot, dc1\<lparr>contexts := (contexts dc1)[slot := Some (new_cr3_masked, slot_gen)],
                                     dc_generation := slot_gen\<rparr>))
        | None \<Rightarrow>
            (let (slot_gen, dc1) = allocate_generation (retire_ring True dc)
             in (Taken 0, dc1\<lparr>dc_generation := slot_gen,
                              contexts := (contexts dc1)[0 := Some (new_cr3_masked, slot_gen)]\<rparr>))))"

end
