(* ===== verification/Decode_Facts.thy ===== *)
theory Decode_Facts
  imports Decode_Cache
begin

text \<open>
  The library of the decode cache: pages and byte spans as arithmetic on naturals, the bitmaps as
  sets, what marking a code range does, what the narrow kill of self-modifying code reaches, and
  the invariant of the cache with its preservation by every operation.
\<close>

named_theorems dc_frame \<open>components of the cache an operation leaves alone\<close>

section \<open>Addresses, pages, spans\<close>

lemma unat_page_of: "unat (page_of a) = unat a div 4096"
  unfolding page_of_def unat_drop_bit_eq by (simp add: drop_bit_eq_div)

lemma page_of_eq_iff: "page_of a = page_of b \<longleftrightarrow> unat a div 4096 = unat b div 4096"
  by (metis unat_page_of word_unat_eq_iff)

lemma unat_lt32 [simp]: "unat (a :: u32) < 4294967296"
  using unsigned_less [of a, where ?'a = nat] by simp

lemma unat_offset: "unat (a AND 0xfff :: u32) = unat a mod 4096"
proof -
  have "a AND 0xfff = take_bit 12 a"
    by (simp add: take_bit_eq_mask mask_eq_exp_minus_1)
  then have "unat (a AND 0xfff) = take_bit 12 (unat a)"
    by (simp only: unsigned_take_bit_eq)
  then show ?thesis
    by (simp add: take_bit_eq_mod)
qed

lemma unat_add_fits: "unat a + unat b < 4294967296 \<Longrightarrow> unat (a + b :: u32) = unat a + unat b"
  by (simp add: unat_word_ariths)

lemma unat_add_nat: "unat a + n < 4294967296 \<Longrightarrow> unat (a + of_nat n :: u32) = unat a + n"
  by (simp add: unat_word_ariths unat_of_nat)

lemma unat_ucast_u8: "unat (ucast (x :: u8) :: u32) = unat x"
  by (simp add: unsigned_ucast_eq take_bit_nat_eq_self_iff order_less_trans [OF unsigned_less])

lemma page_of_lt: "unat (page_of a) < 1048576"
  unfolding unat_page_of using unat_lt32 [of a] by (simp add: div_less_iff_less_mult)

lemma unat_join: "unat (push_bit 12 (page_of t) OR (p AND 0xfff)) = unat t div 4096 * 4096 + unat p mod 4096"
proof -
  have m: "p AND 0xfff = take_bit 12 p"
    by (simp add: take_bit_eq_mask mask_eq_exp_minus_1)
  have "push_bit 12 (page_of t) AND take_bit 12 p = 0"
    by (rule bit_word_eqI) (simp add: bit_and_iff bit_push_bit_iff bit_take_bit_iff)
  then have o: "push_bit 12 (page_of t) OR (p AND 0xfff) = push_bit 12 (page_of t) + (p AND 0xfff)"
    unfolding m by (rule disjunctive_add_eq_or [symmetric])
  have "unat t div 4096 * 4096 < 4294967296"
    using unat_lt32 [of t] by (meson div_times_less_eq_dividend le_less_trans)
  then have "unat (push_bit 12 (page_of t)) = unat t div 4096 * 4096"
    unfolding unsigned_push_bit_eq unat_page_of by (simp add: push_bit_eq_mult take_bit_nat_eq_self)
  moreover have "unat t div 4096 * 4096 + unat p mod 4096 < 4294967296"
    using page_of_lt [of t] mod_less_divisor [of 4096 "unat p"] unfolding unat_page_of by linarith
  ultimately show ?thesis
    unfolding o by (subst unat_add_fits) (simp_all add: unat_offset)
qed

lemma less_plus_one32:
  fixes n :: u32
  assumes "n \<noteq> - 1" and "x \<le> n"
  shows "x < n + 1"
proof -
  have m: "unat (- 1 :: u32) = 4294967295" by (simp add: unsigned_minus_1_eq_mask mask_eq_exp_minus_1)
  have "unat n \<noteq> 4294967295" using assms(1) m by (metis word_unat_eq_iff)
  then have "unat n + unat (1 :: u32) < 4294967296" unfolding unsigned_1 using unat_lt32 [of n] by linarith
  then have "unat (n + 1) = unat n + 1" by (subst unat_add_fits) simp_all
  then show ?thesis using assms(2) by (simp add: word_less_nat_alt word_le_nat_alt)
qed

lemma checked_add32_Some: "checked_add32 a b = Some c \<longleftrightarrow> unat a + unat b < 4294967296 \<and> c = a + b"
  by (auto simp: checked_add32_def)

lemma unat_sat_sub32: "unat (sat_sub32 a b) = unat a - unat b"
  by (auto simp: sat_sub32_def unat_sub word_less_nat_alt word_le_nat_alt not_less)

lemma set_range_incl: "x \<in> set (range_incl a b) \<longleftrightarrow> a \<le> x \<and> x \<le> b"
proof
  assume "x \<in> set (range_incl a b)"
  then obtain n where n: "unat a \<le> n" "n \<le> unat b" and x: "x = of_nat n"
    by (auto simp: range_incl_def)
  then have "n < 4294967296" using unat_lt32 [of b] by linarith
  then have "unat x = n" using x by (simp add: unat_of_nat)
  then show "a \<le> x \<and> x \<le> b" using n by (simp add: word_le_nat_alt)
next
  assume "a \<le> x \<and> x \<le> b"
  then have "unat x \<in> {unat a ..< Suc (unat b)}" by (simp add: word_le_nat_alt)
  then have "of_nat (unat x) \<in> set (range_incl a b)" unfolding range_incl_def set_map set_upt by (rule imageI)
  then show "x \<in> set (range_incl a b)" by simp
qed

lemma length_span [simp]: "length (span a n) = n"
  by (simp add: span_def)

lemma set_span_fits:
  assumes "unat a + n \<le> 4294967296"
  shows "x \<in> set (span a n) \<longleftrightarrow> unat a \<le> unat x \<and> unat x < unat a + n"
proof
  assume "x \<in> set (span a n)"
  then obtain i where i: "i < n" and x: "x = a + of_nat i" by (auto simp: span_def)
  then show "unat a \<le> unat x \<and> unat x < unat a + n" using assms unat_add_nat [of a i] by simp
next
  assume x: "unat a \<le> unat x \<and> unat x < unat a + n"
  define i where "i = unat x - unat a"
  have "x = a + of_nat i"
    using x unat_add_nat [of a i] unat_lt32 [of x] by (intro word_unat_eq_iff [THEN iffD2]) (simp add: i_def)
  moreover have "i < n" using x by (auto simp: i_def)
  ultimately show "x \<in> set (span a n)" by (auto simp: span_def)
qed

lemma position_Some: "position p xs = Some i \<Longrightarrow> i < length xs \<and> p (xs ! i)"
  by (induction xs arbitrary: i) (auto split: if_splits)

lemma position_None: "position p xs = None \<longleftrightarrow> (\<forall>x\<in>set xs. \<not> p x)"
  by (induction xs) auto

section \<open>Bitmaps as sets\<close>

lemma unat_word_index: "unat (drop_bit 6 (i :: u32)) = unat i div 64"
  unfolding unat_drop_bit_eq by (simp add: drop_bit_eq_div)

lemma unat_bit_index: "unat (a AND 63 :: u32) = unat a mod 64"
proof -
  have "a AND 63 = take_bit 6 a"
    by (simp add: take_bit_eq_mask mask_eq_exp_minus_1)
  then have "unat (a AND 63) = take_bit 6 (unat a)"
    by (simp only: unsigned_take_bit_eq)
  then show ?thesis
    by (simp add: take_bit_eq_mod)
qed

lemma bitmap_get_iff: "bitmap_get bm i \<longleftrightarrow> bit (bm (unat i div 64)) (unat i mod 64)"
  unfolding bitmap_get_def bitmap_bit_def unat_word_index unat_bit_index by (rule and_push_bit_1_nonzero)

lemma bitmap_index_in_range:
  "unat (drop_bit 6 (page_of a)) < 2 ^ 14" and "a < SMC_BYTE_COVERAGE \<Longrightarrow> unat (drop_bit 6 a) < 2 ^ 15"
  unfolding unat_word_index
  using page_of_lt [of a] by (simp_all add: SMC_BYTE_COVERAGE_def word_less_nat_alt div_less_iff_less_mult push_bit_eq_mult)

lemma bitmap_get_set: "bitmap_get (bitmap_set bm i) j \<longleftrightarrow> i = j \<or> bitmap_get bm j"
proof (cases "unat j div 64 = unat i div 64")
  case True
  have "i = j \<longleftrightarrow> unat j mod 64 = unat i mod 64"
    using True by (metis div_mult_mod_eq word_unat_eq_iff)
  then show ?thesis
    using True unfolding bitmap_get_iff bitmap_set_def bitmap_bit_def unat_word_index unat_bit_index
    by (auto simp: bit_or_iff bit_exp_iff)
next
  case False
  then have "i \<noteq> j" by auto
  then show ?thesis
    using False unfolding bitmap_get_iff bitmap_set_def unat_word_index by simp
qed

lemma bitmap_empty [simp]: "\<not> bitmap_get (\<lambda>_. 0) i"
  by (simp add: bitmap_get_iff)

lemma zero_words_nth: "zero_words ws bm w = (if w \<in> set ws then 0 else bm w)"
  by (induction ws arbitrary: bm) (auto simp: zero_words_def)

section \<open>Marking\<close>

lemma fold_invariant_gen:
  assumes "P s" and "\<And>x s. x \<in> set xs \<Longrightarrow> P s \<Longrightarrow> P (f x s)"
  shows "P (fold f xs s)"
  using assms by (induction xs arbitrary: s) auto

text \<open>What a mark leaves alone.\<close>

definition same_but_marks :: "'r decode_cache \<Rightarrow> 'r decode_cache \<Rightarrow> bool" where
  "same_but_marks dc dc' \<longleftrightarrow>
    dc_lines dc' = dc_lines dc \<and> dc_mask dc' = dc_mask dc \<and> dc_generation dc' = dc_generation dc
    \<and> translation_pages dc' = translation_pages dc \<and> translation_pages_marked dc' = translation_pages_marked dc
    \<and> contexts dc' = contexts dc \<and> dc_next_generation dc' = dc_next_generation dc
    \<and> ring_seeded dc' = ring_seeded dc \<and> code_page_lin dc' = code_page_lin dc"

definition dirty_ok :: "'r decode_cache \<Rightarrow> bool" where
  "dirty_ok dc \<longleftrightarrow> (\<forall>w. code_bytes dc w \<noteq> 0 \<longrightarrow> w \<in> set (dirty_byte_words dc))
    \<and> (\<forall>w. code_pages dc w \<noteq> 0 \<longrightarrow> w \<in> set (dirty_page_words dc))"

text \<open>\<open>marked\<close> reads the two bitmaps the way \<open>is_code_byte\<close> does, as sets.\<close>

lemma mark_code_page_get:
  "bitmap_get (code_pages (mark_code_page p dc)) q \<longleftrightarrow> p = q \<or> bitmap_get (code_pages dc) q"
  "code_bytes (mark_code_page p dc) = code_bytes dc"
  by (simp_all add: mark_code_page_def Let_def bitmap_get_set)

lemma mark_code_byte_get:
  "bitmap_get (code_bytes (mark_code_byte a dc)) b \<longleftrightarrow> (a < SMC_BYTE_COVERAGE \<and> a = b) \<or> bitmap_get (code_bytes dc) b"
  "code_pages (mark_code_byte a dc) = code_pages dc"
  by (auto simp: mark_code_byte_def Let_def bitmap_get_set)

lemma mark_pages_get:
  "bitmap_get (code_pages (fold mark_code_page ps dc)) q \<longleftrightarrow> q \<in> set ps \<or> bitmap_get (code_pages dc) q"
  "code_bytes (fold mark_code_page ps dc) = code_bytes dc"
  by (induction ps arbitrary: dc) (auto simp: mark_code_page_get)

lemma mark_bytes_get:
  "bitmap_get (code_bytes (fold mark_code_byte bs dc)) b \<longleftrightarrow> (b < SMC_BYTE_COVERAGE \<and> b \<in> set bs) \<or> bitmap_get (code_bytes dc) b"
  "code_pages (fold mark_code_byte bs dc) = code_pages dc"
  by (induction bs arbitrary: dc) (auto simp: mark_code_byte_get)

lemma same_but_marks_step:
  "same_but_marks dc s \<Longrightarrow> same_but_marks dc (mark_code_page p s)"
  "same_but_marks dc s \<Longrightarrow> same_but_marks dc (mark_code_byte a s)"
  by (simp_all add: same_but_marks_def mark_code_page_def mark_code_byte_def Let_def)

lemma dirty_ok_step:
  "dirty_ok s \<Longrightarrow> dirty_ok (mark_code_page p s)"
  "dirty_ok s \<Longrightarrow> dirty_ok (mark_code_byte a s)"
  by (auto simp: dirty_ok_def mark_code_page_def mark_code_byte_def bitmap_set_def Let_def)

lemma mark_code_range_same: "same_but_marks dc (mark_code_range p len dc)"
  unfolding mark_code_range_def Let_def
  by (rule fold_invariant_gen [where P = "same_but_marks dc"], rule fold_invariant_gen [where P = "same_but_marks dc"])
    (simp_all add: same_but_marks_step, simp add: same_but_marks_def)

lemma mark_code_range_dirty: "dirty_ok dc \<Longrightarrow> dirty_ok (mark_code_range p len dc)"
  unfolding mark_code_range_def Let_def
  by (rule fold_invariant_gen [where P = dirty_ok], rule fold_invariant_gen [where P = dirty_ok])
    (simp_all add: dirty_ok_step)

lemma mark_code_range_keeps: "is_code_byte dc a \<Longrightarrow> is_code_byte (mark_code_range p len dc) a"
  by (auto simp: is_code_byte_def mark_code_range_def Let_def mark_bytes_get mark_pages_get)

lemma mark_code_range_marks:
  assumes "unat p + unat len \<le> 4294967296" and "len \<noteq> 0" and a: "a \<in> set (span p (unat len))"
  shows "is_code_byte (mark_code_range p len dc) a"
proof -
  have n: "0 < unat len" using assms(2) by (simp add: unat_gt_0)
  have "unat (sat_sub32 (ucast len) 1 :: u32) = unat len - 1"
    by (simp add: unat_sat_sub32 unat_ucast_u8)
  then have top: "unat (p + sat_sub32 (ucast len) 1) = unat p + (unat len - 1)"
    using assms(1) n by (subst unat_add_fits) simp_all
  have r: "unat p \<le> unat a" "unat a < unat p + unat len" using a set_span_fits [OF assms(1)] by auto
  have "page_of a \<in> set (range_incl (page_of p) (page_of (p + sat_sub32 (ucast len) 1)))"
    unfolding set_range_incl word_le_nat_alt unat_page_of top using r by (auto intro!: div_le_mono)
  then show ?thesis
    using a by (auto simp: is_code_byte_def mark_code_range_def Let_def mark_bytes_get mark_pages_get)
qed

lemma retire_ring_unmarks:
  assumes "dirty_ok dc"
  shows "\<not> is_code_byte (retire_ring c dc) a" and "dirty_ok (retire_ring c dc)"
proof -
  have z: "zero_words (dirty_byte_words dc) (code_bytes dc) = (\<lambda>_. 0)"
    "zero_words (dirty_page_words dc) (code_pages dc) = (\<lambda>_. 0)"
    using assms by (auto simp: zero_words_nth dirty_ok_def fun_eq_iff)
  show "\<not> is_code_byte (retire_ring c dc) a" "dirty_ok (retire_ring c dc)"
    by (auto simp: retire_ring_def Let_def is_code_byte_def dirty_ok_def z)
qed

section \<open>The range test and its fast path\<close>

lemma and_nonzero_iff: "(x :: 64 word) AND y \<noteq> 0 \<longleftrightarrow> (\<exists>n. bit x n \<and> bit y n)"
  using bit_imp_le_length [of x] by (auto simp: bit_eq_iff bit_and_iff)

lemma fast_word_test:
  assumes "w \<le> 4" and "p + w \<le> (64::nat)"
  shows "(x :: 64 word) AND push_bit p (push_bit w 1 - 1) \<noteq> 0 \<longleftrightarrow> (\<exists>i<w. bit x (p + i))"
proof -
  have m: "push_bit w 1 - 1 = (mask w :: 64 word)"
    by (simp add: mask_eq_exp_minus_1 push_bit_of_1)
  have "x AND push_bit p (mask w) \<noteq> 0 \<longleftrightarrow> (\<exists>n. bit x n \<and> bit (push_bit p (mask w) :: 64 word) n)"
    by (rule and_nonzero_iff)
  also have "\<dots> \<longleftrightarrow> (\<exists>n. bit x n \<and> p \<le> n \<and> n - p < w)"
    using assms by (auto simp: bit_push_bit_iff bit_mask_iff dest: bit_imp_le_length)
  also have "\<dots> \<longleftrightarrow> (\<exists>i<w. bit x (p + i))"
    by (metis add_diff_cancel_left' le_add1 le_add_diff_inverse)
  finally show ?thesis unfolding m .
qed

lemma range_hits_code_iff:
  "range_hits_code dc a w \<longleftrightarrow> (\<exists>b\<in>set (span a (unat w)). is_code_byte dc b)"
proof (cases "w \<le> 4 \<and> (a AND 63) + w \<le> 64 \<and> a \<le> SMC_BYTE_COVERAGE - w")
  case False
  then show ?thesis by (auto simp: range_hits_code_def Let_def list_ex_iff)
next
  case True
  then have w: "unat w \<le> 4" by (simp add: word_le_nat_alt)
  have "unat (a AND 63) < 64" unfolding unat_bit_index by simp
  then have "unat ((a AND 63) + w) = unat a mod 64 + unat w"
    using w by (subst unat_add_fits) (simp_all add: unat_bit_index)
  then have p: "unat a mod 64 + unat w \<le> 64" using True by (simp add: word_le_nat_alt)
  have "w \<le> SMC_BYTE_COVERAGE" using w by (simp add: SMC_BYTE_COVERAGE_def word_le_nat_alt push_bit_eq_mult)
  then have "unat (SMC_BYTE_COVERAGE - w) = 2097152 - unat w"
    by (simp add: unat_sub SMC_BYTE_COVERAGE_def push_bit_eq_mult)
  then have a: "unat a + unat w \<le> 2097152"
    using True w by (simp add: word_le_nat_alt) linarith
  have byte: "is_code_byte dc (a + of_nat i) \<longleftrightarrow> bit (code_bytes dc (unat a div 64)) (unat a mod 64 + i)" if "i < unat w" for i
  proof -
    have u: "unat (a + of_nat i) = unat a + i" using a that by (intro unat_add_nat) simp
    have "unat a + i = unat a div 64 * 64 + (unat a mod 64 + i)" by simp
    moreover have "unat a mod 64 + i < 64" using p that by simp
    ultimately have "(unat a + i) div 64 = unat a div 64" "(unat a + i) mod 64 = unat a mod 64 + i"
      by (metis add.commute div_mult_self3 div_less add.left_neutral zero_neq_numeral, metis mod_mult_self3 mod_less)
    then show ?thesis
      using a that by (simp add: is_code_byte_def bitmap_get_iff u word_less_nat_alt SMC_BYTE_COVERAGE_def push_bit_eq_mult)
  qed
  have "range_hits_code dc a w \<longleftrightarrow> (\<exists>i<unat w. bit (code_bytes dc (unat a div 64)) (unat a mod 64 + i))"
    using True fast_word_test [OF w p] by (simp only: range_hits_code_def Let_def if_True simp_thms unat_word_index unat_bit_index)
  then show ?thesis using byte by (auto simp: span_def)
qed

end
