(* ===== verification/Decode_Coherence.thy ===== *)
theory Decode_Coherence
  imports Decode_Facts
begin

text \<open>
  The invariant of the decode cache, that every operation keeps it, and that after a write has been
  reported no line within reach of the narrow scan that could still be served covers a written
  byte, whichever of the narrow kill and the wholesale flush answered.
\<close>

section \<open>The invariant\<close>

text \<open>The generations that are served now or can be served again after a \<open>MOV CR3\<close>.\<close>

definition live_gens :: "'r decode_cache \<Rightarrow> u32 set" where
  "live_gens dc = insert (dc_generation dc) {g. \<exists>x. Some (x, g) \<in> set (contexts dc)}"

definition live_lines :: "'r decode_cache \<Rightarrow> 'r decode_line set" where
  "live_lines dc = {line \<in> set (dc_lines dc). dl_generation line \<in> live_gens dc}"

definition line_len :: "'r decode_line \<Rightarrow> nat" where
  "line_len line = (case dl_insn line of None \<Rightarrow> 0 | Some insn \<Rightarrow> unat (di_len insn))"

definition covers :: "'r decode_line \<Rightarrow> u32 \<Rightarrow> bool" where
  "covers line b \<longleftrightarrow> b \<in> set (span (dl_phys_start line) (line_len line))"

text \<open>
  A line that can be served holds an instruction inside one page, at the same page offset in linear
  and physical memory; its bytes are marked as code, and its physical page leads back to its linear
  page unless it is known to be aliased.  Nothing bounds the length: \<open>put\<close> takes any instruction the
  decoder returns.
\<close>

definition line_fits :: "'r decode_line \<Rightarrow> bool" where
  "line_fits line \<longleftrightarrow> 0 < line_len line
    \<and> unat (dl_phys_start line) mod 4096 + line_len line \<le> 4096
    \<and> unat (dl_tag line) mod 4096 = unat (dl_phys_start line) mod 4096"

text \<open>
  The lines the backward scan of \<open>narrow_invalidate_span\<close> reaches from each of their bytes: it looks
  fourteen bytes back, and compares with an end address that wraps at the top of memory.
\<close>

definition line_short :: "'r decode_line \<Rightarrow> bool" where
  "line_short line \<longleftrightarrow> line_len line \<le> 15 \<and> unat (dl_phys_start line) + line_len line < 4294967296"

definition line_marked :: "'r decode_cache \<Rightarrow> 'r decode_line \<Rightarrow> bool" where
  "line_marked dc line \<longleftrightarrow> (\<forall>b. covers line b \<longrightarrow> is_code_byte dc b)
    \<and> (\<exists>info. code_page_lin dc (page_of (dl_phys_start line)) = Some info
             \<and> (pci_aliased info \<or> pci_lin_page info = page_of (dl_tag line)))"

definition dc_shape :: "'r decode_cache \<Rightarrow> bool" where
  "dc_shape dc \<longleftrightarrow> dc_lines dc \<noteq> [] \<and> dc_mask dc = of_nat (length (dc_lines dc) - 1) \<and> length (contexts dc) = 2"

definition gens_ok :: "'r decode_cache \<Rightarrow> bool" where
  "gens_ok dc \<longleftrightarrow> (\<forall>g \<in> live_gens dc. 0 < g \<and> g \<le> dc_next_generation dc)
    \<and> (\<forall>line \<in> set (dc_lines dc). dl_generation line \<le> dc_next_generation dc)
    \<and> (contexts_occupied dc \<le> 1 \<longrightarrow> live_gens dc = {dc_generation dc})"

definition lines_ok :: "'r decode_cache \<Rightarrow> bool" where
  "lines_ok dc \<longleftrightarrow> (\<forall>i < length (dc_lines dc). dl_generation (dc_lines dc ! i) \<in> live_gens dc \<longrightarrow>
      line_fits (dc_lines dc ! i) \<and> line_marked dc (dc_lines dc ! i) \<and> line_index dc (dl_tag (dc_lines dc ! i)) = i)"

definition dc_ok :: "'r decode_cache \<Rightarrow> bool" where
  "dc_ok dc \<longleftrightarrow> dc_shape dc \<and> gens_ok dc \<and> lines_ok dc \<and> dirty_ok dc"

lemma dc_okI: "dc_shape dc \<Longrightarrow> gens_ok dc \<Longrightarrow> lines_ok dc \<Longrightarrow> dirty_ok dc \<Longrightarrow> dc_ok dc"
  by (simp add: dc_ok_def)

lemma line_index_less: "dc_shape dc \<Longrightarrow> line_index dc lin < length (dc_lines dc)"
proof -
  assume s: "dc_shape dc"
  have "unat (lin AND dc_mask dc) \<le> unat (dc_mask dc)"
    using word_and_le1 [of lin "dc_mask dc"] by (simp add: word_le_nat_alt)
  also have "\<dots> \<le> length (dc_lines dc) - 1"
    using s by (simp add: dc_shape_def unat_of_nat)
  also have "\<dots> < length (dc_lines dc)"
    using s by (simp add: dc_shape_def)
  finally show ?thesis by (simp add: line_index_def)
qed

lemma live_lines_nth: "line \<in> live_lines dc \<longleftrightarrow>
    (\<exists>i < length (dc_lines dc). line = dc_lines dc ! i \<and> dl_generation (dc_lines dc ! i) \<in> live_gens dc)"
  by (auto simp: live_lines_def in_set_conv_nth)

lemma zero_not_live: "gens_ok dc \<Longrightarrow> 0 \<notin> live_gens dc"
  by (auto simp: gens_ok_def)

lemma live_gens_cur [simp]: "dc_generation dc \<in> live_gens dc"
  by (simp add: live_gens_def)

lemma dc_get_live:
  assumes "dc_ok dc" and "dc_get dc lin d = Some insn"
  obtains line where "line \<in> live_lines dc" and "dl_insn line = Some insn" and "dl_tag line = lin"
    and "dl_d line = d" and "line_phys_start dc lin d = Some (dl_phys_start line)"
proof
  let ?l = "dc_lines dc ! line_index dc lin"
  have i: "line_index dc lin < length (dc_lines dc)" using assms(1) line_index_less by (auto simp: dc_ok_def)
  show "?l \<in> live_lines dc" "dl_insn ?l = Some insn" "dl_tag ?l = lin" "dl_d ?l = d"
    "line_phys_start dc lin d = Some (dl_phys_start ?l)"
    using assms(2) i by (auto simp: dc_get_def line_phys_start_def live_lines_def Let_def split: if_splits)
qed

section \<open>Killing lines\<close>

definition killed_from :: "'r decode_cache \<Rightarrow> 'r decode_cache \<Rightarrow> bool" where
  "killed_from dc dc' \<longleftrightarrow> (\<exists>ls. dc' = dc\<lparr>dc_lines := ls\<rparr> \<and> length ls = length (dc_lines dc)
     \<and> (\<forall>i < length ls. ls ! i = dc_lines dc ! i \<or> ls ! i = (dc_lines dc ! i)\<lparr>dl_generation := 0\<rparr>))"

lemma killed_from_refl [simp]: "killed_from dc dc"
  unfolding killed_from_def by (rule exI [of _ "dc_lines dc"]) simp

lemma killed_from_trans:
  assumes "killed_from a b" and "killed_from b c"
  shows "killed_from a c"
proof -
  obtain ls where ls: "b = a\<lparr>dc_lines := ls\<rparr>" "length ls = length (dc_lines a)"
      "\<And>i. i < length ls \<Longrightarrow> ls ! i = dc_lines a ! i \<or> ls ! i = (dc_lines a ! i)\<lparr>dl_generation := 0\<rparr>"
    using assms(1) by (auto simp: killed_from_def)
  obtain ms where ms: "c = b\<lparr>dc_lines := ms\<rparr>" "length ms = length ls"
      "\<And>i. i < length ms \<Longrightarrow> ms ! i = ls ! i \<or> ms ! i = (ls ! i)\<lparr>dl_generation := 0\<rparr>"
    using assms(2) ls(1) by (auto simp: killed_from_def)
  have "ms ! i = dc_lines a ! i \<or> ms ! i = (dc_lines a ! i)\<lparr>dl_generation := 0\<rparr>" if "i < length ms" for i
    using ls(3) [of i] ms(2) ms(3) [of i] that by auto
  then show ?thesis
    unfolding killed_from_def using ls(1,2) ms(1,2) by (intro exI [of _ ms]) simp
qed

lemma killed_from_kill: "killed_from dc (kill_line_at i dc)"
  unfolding killed_from_def kill_line_at_def
  by (rule exI [of _ "(dc_lines dc)[i := (dc_lines dc ! i)\<lparr>dl_generation := 0\<rparr>]"], cases "i < length (dc_lines dc)")
    (simp_all add: nth_list_update)

lemma killed_from_same:
  assumes "killed_from dc dc'"
  shows "dc_mask dc' = dc_mask dc" "dc_generation dc' = dc_generation dc" "contexts dc' = contexts dc"
    "dc_next_generation dc' = dc_next_generation dc" "code_page_lin dc' = code_page_lin dc"
    "is_code_byte dc' = is_code_byte dc" "live_gens dc' = live_gens dc" "line_index dc' = line_index dc"
    "length (dc_lines dc') = length (dc_lines dc)" "contexts_occupied dc' = contexts_occupied dc"
    "dirty_ok dc' = dirty_ok dc" "translation_pages dc' = translation_pages dc" "ring_seeded dc' = ring_seeded dc"
  using assms by (auto simp: killed_from_def live_gens_def is_code_byte_def line_index_def contexts_occupied_def dirty_ok_def
    fun_eq_iff)

lemma killed_from_line:
  assumes "killed_from dc dc'" and "gens_ok dc" and "i < length (dc_lines dc')"
    and "dl_generation (dc_lines dc' ! i) \<in> live_gens dc'"
  shows "dc_lines dc' ! i = dc_lines dc ! i"
  using assms zero_not_live [OF assms(2)] killed_from_same(7) [OF assms(1)]
  by (auto simp: killed_from_def)

lemma killed_from_live: "killed_from dc dc' \<Longrightarrow> gens_ok dc \<Longrightarrow> live_lines dc' \<subseteq> live_lines dc"
  unfolding live_lines_nth subset_iff using killed_from_line killed_from_same(7,9) by metis

lemma killed_from_ok:
  assumes "killed_from dc dc'" and "dc_ok dc"
  shows "dc_ok dc'"
proof (rule dc_okI)
  note same = killed_from_same [OF assms(1)]
  have g: "gens_ok dc" and s: "dc_shape dc" and l: "lines_ok dc" and d: "dirty_ok dc"
    using assms(2) by (auto simp: dc_ok_def)
  show "dc_shape dc'" using s same(1,3,9) by (auto simp: dc_shape_def)
  show "dirty_ok dc'" using d same by simp
  have le: "dl_generation line \<le> dc_next_generation dc" if "line \<in> set (dc_lines dc')" for line
  proof -
    obtain i where "i < length (dc_lines dc')" "line = dc_lines dc' ! i" using \<open>line \<in> _\<close> by (auto simp: in_set_conv_nth)
    then have "line = dc_lines dc ! i \<or> dl_generation line = 0" "i < length (dc_lines dc)"
      using assms(1) by (auto simp: killed_from_def)
    then show ?thesis using g nth_mem [of i "dc_lines dc"] by (auto simp: gens_ok_def)
  qed
  show "gens_ok dc'" using g same le by (simp add: gens_ok_def)
  show "lines_ok dc'"
    unfolding lines_ok_def line_marked_def same
    using l killed_from_line [OF assms(1) g] same(7,9) by (auto simp: lines_ok_def line_marked_def)
qed

definition kill_hit :: "u32 \<Rightarrow> u32 \<Rightarrow> 'r decode_cache \<Rightarrow> u32 \<Rightarrow> bool" where
  "kill_hit p f dc c \<longleftrightarrow> (let line = dc_lines dc ! line_index dc c in
     dl_generation line = dc_generation dc \<and> dl_tag line = c \<and> line_len line \<noteq> 0
     \<and> dl_phys_start line \<le> f \<and> p < dl_phys_start line + of_nat (line_len line))"

lemma kill_candidate_eq:
  "kill_candidate p f c (n, dc) = (if kill_hit p f dc c then (n + 1, kill_line_at (line_index dc c) dc) else (n, dc))"
proof -
  have u: "of_nat (unat x) = (ucast x :: u32)" for x :: u8
    by simp
  have z: "(ucast x :: u32) = 0 \<longleftrightarrow> unat x = 0" for x :: u8
    by (simp only: word_unat_eq_iff unat_ucast_u8 unsigned_0)
  show ?thesis
    by (cases "dl_insn (dc_lines dc ! line_index dc c)")
      (auto simp: kill_candidate_def kill_hit_def line_len_def Let_def u z)
qed

lemma kill_hit_mono:
  assumes "killed_from dc dc'" and "dc_ok dc" and "kill_hit p f dc' c"
  shows "kill_hit p f dc c"
proof -
  note same = killed_from_same [OF assms(1)]
  have "line_index dc c < length (dc_lines dc')"
    using assms(2) same(9) line_index_less by (auto simp: dc_ok_def)
  moreover have "dl_generation (dc_lines dc' ! line_index dc c) \<in> live_gens dc'"
    using assms(3) same(8) by (simp add: kill_hit_def Let_def live_gens_def)
  ultimately have "dc_lines dc' ! line_index dc c = dc_lines dc ! line_index dc c"
    using killed_from_line [OF assms(1)] assms(2) by (simp add: dc_ok_def)
  then show ?thesis
    using assms(3) same(2,8) by (simp add: kill_hit_def Let_def)
qed

lemma kill_fold:
  assumes "dc_ok dc" and "fold (kill_candidate p f) cs (n, dc) = (k, dc')"
  shows "killed_from dc dc' \<and> (\<forall>c\<in>set cs. \<not> kill_hit p f dc' c)"
  using assms
proof (induction cs arbitrary: n dc)
  case (Cons c cs)
  obtain n1 dc1 where step: "kill_candidate p f c (n, dc) = (n1, dc1)" by fastforce
  have dc1: "dc1 = (if kill_hit p f dc c then kill_line_at (line_index dc c) dc else dc)"
    using step by (auto simp: kill_candidate_eq split: if_splits)
  then have k1: "killed_from dc dc1" by (simp add: killed_from_kill)
  have rest: "fold (kill_candidate p f) cs (n1, dc1) = (k, dc')" using Cons.prems(2) step by simp
  have ok1: "dc_ok dc1" using killed_from_ok [OF k1 Cons.prems(1)] .
  have ih: "killed_from dc1 dc'" "\<forall>c\<in>set cs. \<not> kill_hit p f dc' c"
    using Cons.IH [OF ok1 rest] by auto
  have "line_index dc c < length (dc_lines dc)"
    using Cons.prems(1) line_index_less by (auto simp: dc_ok_def)
  moreover have "0 \<noteq> dc_generation dc"
    using Cons.prems(1) zero_not_live live_gens_cur unfolding dc_ok_def by metis
  ultimately have "\<not> kill_hit p f dc1 c"
    by (auto simp: dc1 kill_hit_def kill_line_at_def line_index_def Let_def)
  then have "\<not> kill_hit p f dc' c" using kill_hit_mono [OF ih(1) ok1] by blast
  then show ?case using ih killed_from_trans [OF k1] by auto
qed simp

lemma same_page_nat:
  assumes "s mod 4096 + l \<le> 4096" and "s \<le> b" and "b < s + (l::nat)"
  shows "b div 4096 = s div 4096"
proof -
  define q r where "q = s div 4096" and "r = s mod 4096"
  have e: "s = 4096 * q + r" by (simp add: q_def r_def)
  have "4096 * q \<le> b" "b < 4096 * Suc q"
    using assms(2,3) assms(1) [folded r_def] by (simp_all add: e)
  then show ?thesis unfolding q_def [symmetric] by (rule div_nat_eqI)
qed

lemma page_fits_top: "unat (p :: u32) mod 4096 + n \<le> 4096 \<Longrightarrow> unat p + n \<le> 4294967296"
proof -
  assume fit: "unat p mod 4096 + n \<le> 4096"
  define q where "q = unat p div 4096"
  have "q < 1048576" unfolding q_def using unat_lt32 [of p] by (intro less_mult_imp_div_less) simp
  moreover have "unat p = q * 4096 + unat p mod 4096" by (simp add: q_def)
  ultimately show ?thesis using fit by linarith
qed

lemma covers_page:
  assumes "line_fits line" and "covers line b"
  shows "page_of (dl_phys_start line) = page_of b"
proof -
  let ?S = "unat (dl_phys_start line)" and ?L = "line_len line"
  have fit: "?S mod 4096 + ?L \<le> 4096" using assms(1) by (auto simp: line_fits_def)
  have b: "?S \<le> unat b" "unat b < ?S + ?L"
    using assms(2) set_span_fits [of "dl_phys_start line" ?L] page_fits_top [OF fit] by (auto simp: covers_def)
  show ?thesis using same_page_nat [OF fit b] by (simp add: page_of_eq_iff)
qed

text \<open>A short line that covers a byte of the written span starts at one of the scanned addresses.\<close>

lemma covering_start_in_scan:
  assumes fits: "line_fits line" and short: "line_short line" and cov: "covers line b" and pb: "p \<le> b" "b \<le> f" and pf: "page_of p = page_of f"
  defines "w \<equiv> push_bit 12 (page_of (dl_tag line)) OR (p AND 0xfff)"
  assumes l: "checked_add32 w (f - p) = Some l"
  shows "page_of (dl_phys_start line) = page_of p" and "dl_tag line \<in> set (range_incl (sat_sub32 w 14) l)"
    and "dl_phys_start line \<le> f" and "p < dl_phys_start line + of_nat (line_len line)"
proof -
  let ?S = "unat (dl_phys_start line)" and ?T = "unat (dl_tag line)" and ?L = "line_len line"
  have fit: "0 < ?L" "?L \<le> 15" "?S mod 4096 + ?L \<le> 4096" "?S + ?L < 4294967296" "?T mod 4096 = ?S mod 4096"
    using fits short by (auto simp: line_fits_def line_short_def)
  have b: "?S \<le> unat b" "unat b < ?S + ?L"
    using cov set_span_fits [of "dl_phys_start line" ?L] fit(4) by (auto simp: covers_def)
  have pbf: "unat p \<le> unat b" "unat b \<le> unat f" using pb by (simp_all add: word_le_nat_alt)
  have q: "unat p div 4096 = unat f div 4096" using pf by (simp add: page_of_eq_iff)
  have same: "?S div 4096 = unat p div 4096"
    using covers_page [OF fits cov] q div_le_mono [OF pbf(1), of 4096] div_le_mono [OF pbf(2), of 4096]
    by (simp add: page_of_eq_iff)
  then show "page_of (dl_phys_start line) = page_of p" by (simp add: page_of_eq_iff)
  have w: "unat w = ?T div 4096 * 4096 + unat p mod 4096" unfolding w_def by (rule unat_join)
  have fp: "unat (f - p) = unat f - unat p" using pbf by (intro unat_sub) (simp add: word_le_nat_alt)
  have ul: "unat l = unat w + (unat f - unat p)"
    using l fp by (auto simp: checked_add32_Some unat_add_fits)
  have T: "?T = ?T div 4096 * 4096 + ?S mod 4096" using fit(5) div_mult_mod_eq [of ?T 4096] by simp
  have S: "?S = unat p div 4096 * 4096 + ?S mod 4096" using same div_mult_mod_eq [of ?S 4096] by simp
  have P: "unat p = unat p div 4096 * 4096 + unat p mod 4096" by simp
  have "unat w - 14 \<le> ?T" using T S P w b pbf fit(2) by linarith
  moreover have "?T \<le> unat l" using T S P w ul b pbf by linarith
  ultimately show "dl_tag line \<in> set (range_incl (sat_sub32 w 14) l)"
    by (simp add: set_range_incl word_le_nat_alt unat_sat_sub32)
  show "dl_phys_start line \<le> f" using b pbf by (simp add: word_le_nat_alt)
  show "p < dl_phys_start line + of_nat ?L"
    using b pbf fit(4) by (simp add: word_less_nat_alt unat_add_nat)
qed

lemma narrow_span:
  assumes ok: "dc_ok dc" and pf: "page_of p = page_of f" and r: "narrow_invalidate_span p f dc = (r, dc')"
  shows "killed_from dc dc'"
    and "\<lbrakk>r \<noteq> None; line \<in> live_lines dc'; line_short line; p \<le> b; b \<le> f\<rbrakk> \<Longrightarrow> \<not> covers line b"
proof -
  show k: "killed_from dc dc'"
    using r kill_fold [OF ok] by (fastforce simp: narrow_invalidate_span_def Let_def split: if_splits option.splits prod.splits)
  assume "r \<noteq> None" and line: "line \<in> live_lines dc'" and short: "line_short line" and pb: "p \<le> b" "b \<le> f"
  then obtain info l n where one: "contexts_occupied dc \<le> 1" and info: "code_page_lin dc (page_of p) = Some info"
    "\<not> pci_aliased info" and l: "checked_add32 (push_bit 12 (pci_lin_page info) OR (p AND 0xfff)) (f - p) = Some l"
    and run: "fold (kill_candidate p f) (range_incl (sat_sub32 (push_bit 12 (pci_lin_page info) OR (p AND 0xfff)) 14) l) (0, dc) = (n, dc')"
    using r by (auto simp: narrow_invalidate_span_def Let_def split: if_splits option.splits prod.splits)
  note same = killed_from_same [OF k]
  obtain i where i: "i < length (dc_lines dc')" "line = dc_lines dc' ! i" "dl_generation line \<in> live_gens dc'"
    using line by (auto simp: live_lines_nth)
  have gens: "gens_ok dc" and lines: "lines_ok dc" using ok by (auto simp: dc_ok_def)
  have old: "line = dc_lines dc ! i" using killed_from_line [OF k gens i(1)] i by simp
  have good: "line_fits line" "line_marked dc line" "line_index dc (dl_tag line) = i"
    using lines i same(7,9) old by (auto simp: lines_ok_def)
  show "\<not> covers line b"
  proof
    assume cov: "covers line b"
    have "page_of (dl_phys_start line) = page_of p"
    proof -
      have "page_of b = page_of p"
        using pb pf div_le_mono [of "unat p" "unat b" 4096] div_le_mono [of "unat b" "unat f" 4096]
        by (simp add: page_of_eq_iff word_le_nat_alt)
      then show ?thesis using covers_page [OF good(1) cov] by simp
    qed
    then have "pci_lin_page info = page_of (dl_tag line)"
      using good(2) info by (auto simp: line_marked_def)
    note scan = covering_start_in_scan [OF good(1) short cov pb pf, folded this, OF l]
    have "dl_generation line = dc_generation dc'"
      using i(3) gens one same by (auto simp: gens_ok_def)
    then have "kill_hit p f dc' (dl_tag line)"
      using scan good i same(8) by (auto simp: kill_hit_def Let_def line_fits_def)
    then show False using kill_fold [OF ok run] scan(2) by blast
  qed
qed

lemma narrow_bytes_kill:
  assumes "dc_ok dc" and "narrow_bytes bs acc dc = (r, dc')"
  shows "killed_from dc dc' \<and> (r \<noteq> None \<longrightarrow> (\<forall>line\<in>live_lines dc'. line_short line \<longrightarrow> (\<forall>b\<in>set bs. \<not> covers line b)))"
  using assms
proof (induction bs acc dc rule: narrow_bytes.induct)
  case (2 b bs acc dc)
  show ?case
  proof (cases "is_code_byte dc b")
    case False
    then have ih: "killed_from dc dc'" "r \<noteq> None \<longrightarrow> (\<forall>line\<in>live_lines dc'. line_short line \<longrightarrow> (\<forall>b\<in>set bs. \<not> covers line b))"
      using 2 by auto
    have "\<not> covers line b" if "line \<in> live_lines dc'" for line
      using that False 2(3) killed_from_live [OF ih(1)]
      by (auto simp: dc_ok_def lines_ok_def live_lines_nth subset_iff line_marked_def)
    then show ?thesis using ih by auto
  next
    case True
    obtain r1 dc1 where n: "narrow_invalidate b dc = (r1, dc1)" by fastforce
    note span1 = narrow_span [OF 2(3) refl n [unfolded narrow_invalidate_def]]
    show ?thesis
    proof (cases r1)
      case None
      then show ?thesis using 2(4) True n span1(1) by simp
    next
      case (Some k)
      have ok1: "dc_ok dc1" using killed_from_ok [OF span1(1) 2(3)] .
      have "narrow_bytes bs (acc + k) dc1 = (r, dc')" using 2(4) True n Some by simp
      then have ih: "killed_from dc1 dc'" "r \<noteq> None \<longrightarrow> (\<forall>line\<in>live_lines dc'. line_short line \<longrightarrow> (\<forall>b\<in>set bs. \<not> covers line b))"
        using 2(2) True n Some ok1 by auto
      have "\<not> covers line b" if "line \<in> live_lines dc'" "line_short line" for line
        using span1(2) [of line b] Some killed_from_live [OF ih(1)] ok1 that by (auto simp: dc_ok_def)
      then show ?thesis using ih killed_from_trans [OF span1(1) ih(1)] by auto
    qed
  qed
qed simp

lemma narrow_write_kill:
  assumes ok: "dc_ok dc" and fits: "unat p + unat w \<le> 4294967296"
    and run: "narrow_invalidate_write p w dc = (r, dc')"
  shows "killed_from dc dc'"
    and "\<lbrakk>r \<noteq> None; line \<in> live_lines dc'; line_short line; b \<in> set (span p (unat w))\<rbrakk> \<Longrightarrow> \<not> covers line b"
proof -
  have "killed_from dc dc' \<and> (r \<noteq> None \<longrightarrow> (\<forall>line\<in>live_lines dc'. line_short line \<longrightarrow> (\<forall>b\<in>set (span p (unat w)). \<not> covers line b)))"
  proof (cases "narrow_bytes (span p (unat w)) 0 dc = (r, dc')")
    case True
    then show ?thesis using narrow_bytes_kill [OF ok] by blast
  next
    case False
    then obtain f where w: "w = 2 \<or> w = 4" and f: "checked_add32 p (w - 1) = Some f"
      and pf: "page_of p = page_of f" and n: "narrow_invalidate_span p f dc = (r, dc')"
      using run by (auto simp: narrow_invalidate_write_def split: if_splits option.splits)
    have "unat (w - 1) = unat w - 1" using w by auto
    then have uf: "unat f = unat p + (unat w - 1)" using f by (auto simp: checked_add32_Some unat_add_fits)
    have pos: "0 < unat w" using w by auto
    have "p \<le> b \<and> b \<le> f" if "b \<in> set (span p (unat w))" for b
      using that uf pos unfolding set_span_fits [OF fits] word_le_nat_alt by linarith
    then show ?thesis using narrow_span [OF ok pf n] by blast
  qed
  then show "killed_from dc dc'"
    "\<lbrakk>r \<noteq> None; line \<in> live_lines dc'; line_short line; b \<in> set (span p (unat w))\<rbrakk> \<Longrightarrow> \<not> covers line b" by auto
qed

section \<open>Generations\<close>

lemma dc_ok_step:
  assumes ok: "dc_ok dc" and new: "dc_shape dc'" "gens_ok dc'" "dirty_ok dc'"
    and frame: "length (dc_lines dc') = length (dc_lines dc)" "dc_mask dc' = dc_mask dc"
    and lines: "\<And>i. i < length (dc_lines dc) \<Longrightarrow> dl_generation (dc_lines dc' ! i) \<in> live_gens dc' \<Longrightarrow>
        dc_lines dc' ! i = dc_lines dc ! i \<and> dl_generation (dc_lines dc ! i) \<in> live_gens dc
        \<and> is_code_byte dc' = is_code_byte dc \<and> code_page_lin dc' = code_page_lin dc"
  shows "dc_ok dc' \<and> live_lines dc' \<subseteq> live_lines dc"
proof
  have old: "lines_ok dc" using ok by (simp add: dc_ok_def)
  have "lines_ok dc'"
    unfolding lines_ok_def
  proof (intro allI impI)
    fix i assume i: "i < length (dc_lines dc')" "dl_generation (dc_lines dc' ! i) \<in> live_gens dc'"
    note l = lines [OF i(1) [unfolded frame(1)] i(2)]
    then have "line_fits (dc_lines dc ! i) \<and> line_marked dc (dc_lines dc ! i) \<and> line_index dc (dl_tag (dc_lines dc ! i)) = i"
      using old i(1) frame(1) by (simp add: lines_ok_def)
    then show "line_fits (dc_lines dc' ! i) \<and> line_marked dc' (dc_lines dc' ! i) \<and> line_index dc' (dl_tag (dc_lines dc' ! i)) = i"
      using l frame(2) by (simp add: line_marked_def line_index_def)
  qed
  then show "dc_ok dc'" using new by (simp add: dc_ok_def)
  show "live_lines dc' \<subseteq> live_lines dc" unfolding live_lines_nth subset_iff using lines frame(1) by metis
qed

text \<open>\<open>allocate_generation\<close> mints a value that no line and no other context carries, also when the
  counter wraps: then every line and both slots are cleared first.\<close>

definition context_gens :: "'r decode_cache \<Rightarrow> u32 set" where
  "context_gens dc = {g. \<exists>x. Some (x, g) \<in> set (contexts dc)}"

lemma allocate_fresh:
  assumes shape: "dc_shape dc" and gens: "gens_ok dc" and dirty: "dirty_ok dc" and a: "allocate_generation dc = (g, dc1)"
  shows "g = dc_next_generation dc1" "0 < g"
    and "line \<in> set (dc_lines dc1) \<Longrightarrow> dl_generation line < g"
    and "h \<in> context_gens dc1 \<Longrightarrow> 0 < h \<and> h < g"
    and "(dc_lines dc1 = dc_lines dc \<and> contexts dc1 = contexts dc)
         \<or> (dc_lines dc1 = replicate (length (dc_lines dc)) default_line \<and> contexts dc1 = [None, None])"
    and "dc_mask dc1 = dc_mask dc" "is_code_byte dc1 = is_code_byte dc" "code_page_lin dc1 = code_page_lin dc"
    and "dirty_ok dc1" "length (dc_lines dc1) = length (dc_lines dc)" "length (contexts dc1) = 2"
    and "translation_pages dc1 = translation_pages dc" "ring_seeded dc1 = ring_seeded dc"
proof -
  have inc: "x \<le> dc_next_generation dc \<Longrightarrow> x < dc_next_generation dc + 1" if "dc_next_generation dc \<noteq> - 1" for x
    using that by (rule less_plus_one32)
  have a': "(dc_next_generation dc = - 1 \<and> g = 1
        \<and> dc1 = dc\<lparr>dc_lines := replicate (length (dc_lines dc)) default_line, contexts := [None, None], dc_next_generation := 1\<rparr>)
      \<or> (dc_next_generation dc \<noteq> - 1 \<and> g = dc_next_generation dc + 1 \<and> dc1 = dc\<lparr>dc_next_generation := dc_next_generation dc + 1\<rparr>)"
    using a by (auto simp: allocate_generation_def Let_def clear_lines_def split: if_splits)
  show "g = dc_next_generation dc1" "dc_mask dc1 = dc_mask dc" "is_code_byte dc1 = is_code_byte dc"
    "code_page_lin dc1 = code_page_lin dc" "dirty_ok dc1" "length (dc_lines dc1) = length (dc_lines dc)"
    "length (contexts dc1) = 2" "translation_pages dc1 = translation_pages dc" "ring_seeded dc1 = ring_seeded dc"
    "(dc_lines dc1 = dc_lines dc \<and> contexts dc1 = contexts dc)
         \<or> (dc_lines dc1 = replicate (length (dc_lines dc)) default_line \<and> contexts dc1 = [None, None])"
    using a' shape dirty by (auto simp: is_code_byte_def fun_eq_iff dirty_ok_def dc_shape_def)
  show "0 < g" using a' inc [of 0] by auto
  show "dl_generation line < g" if "line \<in> set (dc_lines dc1)"
    using that a' gens inc [of "dl_generation line"] by (auto simp: default_line_def gens_ok_def)
  have old: "h \<in> context_gens dc \<Longrightarrow> 0 < h \<and> h \<le> dc_next_generation dc"
    using gens by (simp add: context_gens_def gens_ok_def live_gens_def)
  show "0 < h \<and> h < g" if "h \<in> context_gens dc1"
  proof -
    have "dc_next_generation dc \<noteq> - 1 \<and> g = dc_next_generation dc + 1 \<and> h \<in> context_gens dc"
      using that a' by (auto simp: context_gens_def)
    then show ?thesis using old inc [of h] by blast
  qed
qed

lemma live_gens_context: "live_gens dc = insert (dc_generation dc) (context_gens dc)"
  by (simp add: live_gens_def context_gens_def)

lemma retire_ring_frame:
  "dc_lines (retire_ring c dc) = dc_lines dc" "dc_mask (retire_ring c dc) = dc_mask dc"
  "dc_generation (retire_ring c dc) = dc_generation dc" "contexts (retire_ring c dc) = [None, None]"
  "dc_next_generation (retire_ring c dc) = dc_next_generation dc" "ring_seeded (retire_ring c dc) = ring_seeded dc"
  by (simp_all add: retire_ring_def Let_def)

lemma retire_ring_parts:
  assumes "dc_ok dc"
  shows "dc_shape (retire_ring c dc)" "gens_ok (retire_ring c dc)" "dirty_ok (retire_ring c dc)"
proof -
  have gens: "gens_ok dc" and shape: "dc_shape dc" and dirty: "dirty_ok dc" using assms by (auto simp: dc_ok_def)
  show "dc_shape (retire_ring c dc)" using shape by (simp add: dc_shape_def retire_ring_frame)
  show "dirty_ok (retire_ring c dc)" using retire_ring_unmarks(2) [OF dirty] .
  have "live_gens (retire_ring c dc) = {dc_generation dc}" by (simp add: live_gens_def retire_ring_frame)
  then show "gens_ok (retire_ring c dc)"
    using gens live_gens_cur [of dc] by (simp add: gens_ok_def retire_ring_frame)
qed

text \<open>Switching to a freshly minted generation: nothing that was live stays live but what the
  remaining contexts name.\<close>

lemma fresh_switch:
  assumes ok: "dc_ok dc" and base: "dc0 = dc \<or> dc0 = retire_ring True dc" and a: "allocate_generation dc0 = (g, dc1)"
    and new: "dc_lines dc' = dc_lines dc1" "dc_mask dc' = dc_mask dc1" "dc_generation dc' = g"
      "dc_next_generation dc' = dc_next_generation dc1" "length (contexts dc') = 2" "dirty_ok dc'"
    and ctx: "context_gens dc' \<subseteq> insert g (context_gens dc1)" "contexts_occupied dc' \<le> 1 \<Longrightarrow> context_gens dc' \<subseteq> {g}"
    and marks: "context_gens dc' \<subseteq> {g} \<or> (is_code_byte dc' = is_code_byte dc1 \<and> code_page_lin dc' = code_page_lin dc1)"
  shows "dc_ok dc' \<and> live_lines dc' \<subseteq> live_lines dc" and "context_gens dc' \<subseteq> {g} \<Longrightarrow> live_lines dc' = {}"
proof -
  have parts: "dc_shape dc0" "gens_ok dc0" "dirty_ok dc0"
    using base ok retire_ring_parts [of dc True] by (auto simp: dc_ok_def)
  have len: "length (dc_lines dc0) = length (dc_lines dc)" "dc_mask dc0 = dc_mask dc"
    using base by (auto simp: retire_ring_frame)
  note f = allocate_fresh [OF parts a, unfolded len]
  have live: "live_gens dc' \<subseteq> insert g (context_gens dc1)" using ctx(1) new(3) by (auto simp: live_gens_context)
  have line: "dl_generation (dc_lines dc1 ! i) < g" if "i < length (dc_lines dc)" for i
    using f(3) [of "dc_lines dc1 ! i"] that f(10) by simp
  have shape: "dc_shape dc'" using ok new f(6,10) unfolding dc_ok_def dc_shape_def by (metis length_0_conv)
  have bound: "0 < h \<and> h \<le> g" if "h \<in> live_gens dc'" for h using that live f(2,4) by (auto intro: less_imp_le)
  have gens: "gens_ok dc'"
    unfolding gens_ok_def
  proof (intro conjI ballI impI)
    show "0 < h" "h \<le> dc_next_generation dc'" if "h \<in> live_gens dc'" for h
      using bound [OF that] new(4) f(1) by simp_all
    show "dl_generation l \<le> dc_next_generation dc'" if "l \<in> set (dc_lines dc')" for l
      using f(3) that new(1,4) f(1) by (simp add: less_imp_le)
    show "live_gens dc' = {dc_generation dc'}" if "contexts_occupied dc' \<le> 1"
      using ctx(2) [OF that] new(3) by (auto simp: live_gens_context)
  qed
  have none: "dl_generation (dc_lines dc' ! i) \<noteq> g" if "i < length (dc_lines dc)" for i
    using line [OF that] new(1) by simp
  show "dc_ok dc' \<and> live_lines dc' \<subseteq> live_lines dc"
  proof (rule dc_ok_step [OF ok shape gens new(6)])
    show "length (dc_lines dc') = length (dc_lines dc)" "dc_mask dc' = dc_mask dc" using new f by simp_all
    fix i assume i: "i < length (dc_lines dc)" and lv: "dl_generation (dc_lines dc' ! i) \<in> live_gens dc'"
    have in1: "dl_generation (dc_lines dc' ! i) \<in> context_gens dc1" using lv live none [OF i] by auto
    have m: "is_code_byte dc' = is_code_byte dc1 \<and> code_page_lin dc' = code_page_lin dc1"
      using marks lv none [OF i] new(3) by (auto simp: live_gens_context)
    have "contexts dc1 \<noteq> [None, None]" using in1 by (auto simp: context_gens_def)
    then have same: "dc_lines dc1 = dc_lines dc" "contexts dc1 = contexts dc" "dc0 = dc"
      using f(5) base by (auto simp: retire_ring_frame)
    then have "context_gens dc1 = context_gens dc" by (simp add: context_gens_def)
    then show "dc_lines dc' ! i = dc_lines dc ! i \<and> dl_generation (dc_lines dc ! i) \<in> live_gens dc
        \<and> is_code_byte dc' = is_code_byte dc \<and> code_page_lin dc' = code_page_lin dc"
      using m in1 same new(1) f(7,8) by (simp add: live_gens_context)
  qed
  show "live_lines dc' = {}" if "context_gens dc' \<subseteq> {g}"
  proof -
    have "live_gens dc' = {g}" using that new(3) by (auto simp: live_gens_context)
    then show ?thesis using none new(1) f(10) by (fastforce simp: live_lines_nth)
  qed
qed

lemma invalidate_ok:
  assumes ok: "dc_ok dc"
  shows "dc_ok (invalidate_and_clear_code_marks c dc)" and "live_lines (invalidate_and_clear_code_marks c dc) = {}"
    and "contexts (invalidate_and_clear_code_marks c dc) = [None, None]"
proof -
  obtain g dc1 where a: "allocate_generation dc = (g, dc1)" by fastforce
  let ?d = "retire_ring c (dc1\<lparr>dc_generation := g\<rparr>)"
  have e: "invalidate_and_clear_code_marks c dc = ?d" by (simp add: invalidate_and_clear_code_marks_def a)
  have dirty: "dirty_ok (dc1\<lparr>dc_generation := g\<rparr>)"
    using allocate_fresh(9) [OF _ _ _ a] ok by (simp add: dirty_ok_def dc_ok_def)
  have none: "context_gens ?d \<subseteq> {g}" by (simp add: context_gens_def retire_ring_frame)
  have "(dc_ok ?d \<and> live_lines ?d \<subseteq> live_lines dc) \<and> live_lines ?d = {}"
    by (intro conjI impI fresh_switch [OF ok disjI1 [OF refl] a]) (use none in \<open>auto simp: retire_ring_frame intro: retire_ring_unmarks(2) [OF dirty]\<close>)
  then show "dc_ok (invalidate_and_clear_code_marks c dc)" "live_lines (invalidate_and_clear_code_marks c dc) = {}"
    "contexts (invalidate_and_clear_code_marks c dc) = [None, None]"
    unfolding e by (auto simp: retire_ring_frame)
qed

text \<open>A reported write: the decode half of \<open>note_code_write_inner\<close>.\<close>

definition note_write_lines :: "u32 \<Rightarrow> u32 \<Rightarrow> 'r decode_cache \<Rightarrow> 'r decode_cache" where
  "note_write_lines physical width dc0 =
    (let dc = (if range_hits_translation_page dc0 physical width
               then invalidate_and_clear_code_marks False dc0 else dc0)
     in if range_hits_code dc physical width
        then (case narrow_invalidate_write physical width dc of
                (Some kills, dc') \<Rightarrow> dc'
              | (None, dc') \<Rightarrow> invalidate_and_clear_code_marks False dc')
        else dc)"

lemma note_write_ok:
  assumes ok: "dc_ok dc" and fits: "unat p + unat w \<le> 4294967296"
  shows "dc_ok (note_write_lines p w dc)" and "live_lines (note_write_lines p w dc) \<subseteq> live_lines dc"
    and "\<lbrakk>line \<in> live_lines (note_write_lines p w dc); line_short line; b \<in> set (span p (unat w))\<rbrakk> \<Longrightarrow> \<not> covers line b"
proof -
  define dc1 where "dc1 = (if range_hits_translation_page dc p w then invalidate_and_clear_code_marks False dc else dc)"
  have ok1: "dc_ok dc1" and sub1: "live_lines dc1 \<subseteq> live_lines dc"
    using ok invalidate_ok [OF ok] by (auto simp: dc1_def)
  define r where "r = narrow_invalidate_write p w dc1"
  have e: "note_write_lines p w dc = (if range_hits_code dc1 p w then
      (case r of (Some _, d) \<Rightarrow> d | (None, d) \<Rightarrow> invalidate_and_clear_code_marks False d) else dc1)"
    by (simp add: note_write_lines_def dc1_def [symmetric] r_def Let_def)
  have "dc_ok (note_write_lines p w dc) \<and> live_lines (note_write_lines p w dc) \<subseteq> live_lines dc1
     \<and> (\<forall>line\<in>live_lines (note_write_lines p w dc). line_short line \<longrightarrow> (\<forall>b\<in>set (span p (unat w)). \<not> covers line b))"
  proof (cases "range_hits_code dc1 p w")
    case False
    then have "\<not> covers line b" if "line \<in> live_lines dc1" "b \<in> set (span p (unat w))" for line b
      using that ok1 by (auto simp: range_hits_code_iff dc_ok_def lines_ok_def live_lines_nth line_marked_def)
    then show ?thesis using False ok1 by (simp add: e)
  next
    case True
    obtain res dc2 where n: "r = (res, dc2)" by fastforce
    note kill = narrow_write_kill [OF ok1 fits n [unfolded r_def]]
    have ok2: "dc_ok dc2" using killed_from_ok [OF kill(1) ok1] .
    have sub2: "live_lines dc2 \<subseteq> live_lines dc1" using killed_from_live [OF kill(1)] ok1 by (simp add: dc_ok_def)
    show ?thesis
      using True n ok2 sub2 kill(2) invalidate_ok [OF ok2] by (cases res) (auto simp: e)
  qed
  then show "dc_ok (note_write_lines p w dc)" "live_lines (note_write_lines p w dc) \<subseteq> live_lines dc"
    "\<lbrakk>line \<in> live_lines (note_write_lines p w dc); line_short line; b \<in> set (span p (unat w))\<rbrakk> \<Longrightarrow> \<not> covers line b"
    using sub1 by auto
qed

section \<open>Filling a line and switching the page directory\<close>

lemma dc_put_cases:
  assumes "dc_put lin insn d phys dc = (res, dc')"
  shows "(dc' = dc \<and> \<not> io_inserted res) \<or> (io_inserted res \<and> di_len insn \<noteq> 0
      \<and> unat phys + (unat (di_len insn) - 1) < 4294967296
      \<and> page_of phys = page_of (phys + sat_sub32 (ucast (di_len insn)) 1)
      \<and> dc' = publish_line (line_index dc lin)
          \<lparr>dl_tag = lin, dl_generation = dc_generation dc, dl_insn = Some insn, dl_d = d, dl_phys_start = phys\<rparr>
          (note_code_page (page_of phys) lin (mark_code_range phys (di_len insn) dc)))"
proof -
  have g: "dc_generation (note_code_page pg l (mark_code_range p n dc)) = dc_generation dc" for pg l p n
    using mark_code_range_same [of dc p n] by (simp add: note_code_page_def same_but_marks_def)
  have u: "unat (sat_sub32 (ucast n) 1 :: u32) = unat n - 1" for n :: u8
    by (simp add: unat_sat_sub32 unat_ucast_u8)
  show ?thesis
    using assms
    by (auto simp: dc_put_def Let_def g u rejected_def checked_add32_Some line_index_def split: if_splits option.splits)
qed

end
