(* ===== verification/Decode_Steps.thy ===== *)
theory Decode_Steps
  imports Decode_Coherence
begin

text \<open>
  The decode cache as a transition system: lines are filled with what the decoder returned, memory is
  written and the write reported, the cache is flushed, page directories are switched and page
  tables are watched.  In every reachable state a hit returns an instruction some fill put there, and
  its bytes are still those of the fill when it has at most fifteen of them; an instruction with
  more prefixes than that escapes the narrow kill.
\<close>

lemma same_page_fits:
  assumes "p div 4096 = (p + (n - 1)) div 4096" and "0 < (n::nat)"
  shows "p mod 4096 + n \<le> 4096"
proof -
  define q r where "q = p div 4096" and "r = p mod 4096"
  have p: "p = 4096 * q + r" by (simp add: q_def r_def)
  have "p + (n - 1) < 4096 * Suc q"
    using assms(1) [folded q_def] by (simp add: dividend_less_div_times)
  then show ?thesis unfolding r_def [symmetric] using p assms(2) by simp
qed

lemma put_fits:
  assumes "dc_put lin insn d phys dc = (res, dc')" and "io_inserted res"
  shows "unat phys mod 4096 + unat (di_len insn) \<le> 4096"
proof -
  have n0: "di_len insn \<noteq> 0" and fit: "unat phys + (unat (di_len insn) - 1) < 4294967296"
    and pg: "page_of phys = page_of (phys + sat_sub32 (ucast (di_len insn)) 1)"
    using dc_put_cases [OF assms(1)] assms(2) by auto
  have "unat (phys + sat_sub32 (ucast (di_len insn)) 1) = unat phys + (unat (di_len insn) - 1)"
    using fit by (subst unat_add_fits) (simp_all add: unat_sat_sub32 unat_ucast_u8)
  then show ?thesis
    using pg n0 by (intro same_page_fits) (simp_all add: page_of_eq_iff unat_gt_0)
qed

lemma dc_put_ok:
  assumes ok: "dc_ok dc" and off: "unat lin mod 4096 = unat phys mod 4096"
    and put: "dc_put lin insn d phys dc = (res, dc')"
  shows "dc_ok dc' \<and> live_lines dc' \<subseteq> insert
      \<lparr>dl_tag = lin, dl_generation = dc_generation dc, dl_insn = Some insn, dl_d = d, dl_phys_start = phys\<rparr> (live_lines dc)"
    (is "_ \<and> _ \<subseteq> insert ?new _")
  using dc_put_cases [OF put]
proof (elim disjE conjE)
  assume "dc' = dc"
  then show ?thesis using ok by auto
next
  let ?m = "mark_code_range phys (di_len insn) dc" and ?i = "line_index dc lin"
  assume ins: "io_inserted res" and n0: "di_len insn \<noteq> 0" and fit: "unat phys + (unat (di_len insn) - 1) < 4294967296"
    and dc': "dc' = publish_line ?i ?new (note_code_page (page_of phys) lin ?m)"
  have shape: "dc_shape dc" and gens: "gens_ok dc" and lines: "lines_ok dc" and dirty: "dirty_ok dc"
    using ok by (auto simp: dc_ok_def)
  have same: "same_but_marks dc ?m" by (rule mark_code_range_same)
  have f: "dc_lines dc' = (dc_lines dc)[?i := ?new]" "dc_mask dc' = dc_mask dc" "dc_generation dc' = dc_generation dc"
    "contexts dc' = contexts dc" "dc_next_generation dc' = dc_next_generation dc"
    "is_code_byte dc' = is_code_byte ?m" "dirty_ok dc' = dirty_ok ?m"
    "code_page_lin dc' = code_page_lin (note_code_page (page_of phys) lin dc)"
    using same by (auto simp: dc' publish_line_def note_code_page_def same_but_marks_def is_code_byte_def dirty_ok_def fun_eq_iff)
  have lg: "live_gens dc' = live_gens dc" using f by (simp add: live_gens_def)
  have i: "?i < length (dc_lines dc)" using line_index_less [OF shape] .
  have n: "0 < unat (di_len insn)" using n0 by (simp add: unat_gt_0)
  have "unat phys mod 4096 + unat (di_len insn) \<le> 4096" by (rule put_fits [OF put ins])
  then have new_fits: "line_fits ?new" using n off by (simp add: line_fits_def line_len_def)
  have new_marked: "line_marked dc' ?new"
    using mark_code_range_marks [of phys "di_len insn" _ dc] n0 n fit
    by (auto simp: line_marked_def covers_def line_len_def f note_code_page_def split: option.splits)
  have keep: "line_marked dc' line" if "line_marked dc line" for line
  proof -
    obtain info where "code_page_lin dc (page_of (dl_phys_start line)) = Some info"
        "pci_aliased info \<or> pci_lin_page info = page_of (dl_tag line)"
      using \<open>line_marked dc line\<close> by (auto simp: line_marked_def)
    then have "\<exists>info. code_page_lin dc' (page_of (dl_phys_start line)) = Some info
             \<and> (pci_aliased info \<or> pci_lin_page info = page_of (dl_tag line))"
      by (cases "page_of phys = page_of (dl_phys_start line)") (auto simp: f note_code_page_def)
    then show ?thesis
      using that by (auto simp: line_marked_def f(6) intro: mark_code_range_keeps)
  qed
  have "lines_ok dc'"
    unfolding lines_ok_def
  proof (intro allI impI)
    fix j assume j: "j < length (dc_lines dc')" "dl_generation (dc_lines dc' ! j) \<in> live_gens dc'"
    show "line_fits (dc_lines dc' ! j) \<and> line_marked dc' (dc_lines dc' ! j) \<and> line_index dc' (dl_tag (dc_lines dc' ! j)) = j"
    proof (cases "j = ?i")
      case True
      then show ?thesis using i new_fits new_marked f(1,2) by (simp add: line_index_def)
    next
      case False
      then show ?thesis using j lines keep f(1,2) lg by (simp add: lines_ok_def line_index_def)
    qed
  qed
  moreover have "gens_ok dc'"
  proof -
    have "dl_generation l \<le> dc_next_generation dc" if "l \<in> set (dc_lines dc')" for l
      using that gens set_update_subset_insert [of "dc_lines dc" ?i ?new] live_gens_cur [of dc]
      by (auto simp: f(1) gens_ok_def)
    then show ?thesis using gens lg f(3-5) by (simp add: gens_ok_def contexts_occupied_def)
  qed
  moreover have "dc_shape dc'" using shape f by (simp add: dc_shape_def)
  moreover have "dirty_ok dc'" using mark_code_range_dirty [OF dirty] f(7) by simp
  ultimately have "dc_ok dc'" by (simp add: dc_ok_def)
  moreover have "live_lines dc' \<subseteq> insert ?new (live_lines dc)"
    using set_update_subset_insert [of "dc_lines dc" ?i ?new] by (auto simp: live_lines_def lg f(1))
  ultimately show ?thesis ..
qed

lemma mark_translation_frame:
  assumes "dc_mark_translation_page p dc = (r, dc')"
  shows "dc' = dc\<lparr>translation_pages := translation_pages dc', translation_pages_marked := translation_pages_marked dc'\<rparr>"
    and "bitmap_get (translation_pages dc') q \<longleftrightarrow> q = page_of p \<or> bitmap_get (translation_pages dc) q"
  using assms by (auto simp: dc_mark_translation_page_def Let_def bitmap_get_set split: if_splits)

lemma mark_translation_ok:
  assumes ok: "dc_ok dc" and m: "dc_mark_translation_page p dc = (r, dc')"
  shows "dc_ok dc'" and "live_lines dc' = live_lines dc"
proof -
  define t n where "t = translation_pages dc'" and "n = translation_pages_marked dc'"
  have e: "dc' = dc\<lparr>translation_pages := t, translation_pages_marked := n\<rparr>"
    using mark_translation_frame(1) [OF m] by (simp add: t_def n_def)
  have c: "is_code_byte dc' = is_code_byte dc" "live_gens dc' = live_gens dc" "dirty_ok dc' = dirty_ok dc"
    "contexts_occupied dc' = contexts_occupied dc"
    by (simp_all add: e is_code_byte_def fun_eq_iff live_gens_def dirty_ok_def contexts_occupied_def)
  have "dc_shape dc'" "gens_ok dc'" "dirty_ok dc'"
    using ok c unfolding dc_ok_def dc_shape_def gens_ok_def by (simp_all add: e)
  then have "dc_ok dc' \<and> live_lines dc' \<subseteq> live_lines dc"
    using c by (intro dc_ok_step [OF ok]) (simp_all add: e)
  then show "dc_ok dc'" "live_lines dc' = live_lines dc"
    using c(2) by (auto simp: live_lines_def e)
qed

text \<open>The seed of slot 0 on the first \<open>MOV CR3\<close>.\<close>

definition seeded :: "u32 \<Rightarrow> 'r decode_cache \<Rightarrow> 'r decode_cache" where
  "seeded old dc0 = (if ring_seeded dc0 then dc0
     else dc0\<lparr>ring_seeded := True, contexts := (contexts dc0)[0 := Some (old, dc_generation dc0)]\<rparr>)"

lemma two_slots: "length (xs :: 'a list) = 2 \<Longrightarrow> \<exists>a b. xs = [a, b]"
  by (auto simp: numeral_2_eq_2 length_Suc_conv)

lemma seeded_ok:
  assumes ok: "dc_ok dc"
  shows "dc_ok (seeded old dc) \<and> live_lines (seeded old dc) \<subseteq> live_lines dc"
proof (cases "ring_seeded dc")
  case True
  then show ?thesis using ok by (simp add: seeded_def)
next
  case False
  obtain a b where ab: "contexts dc = [a, b]" using ok two_slots [of "contexts dc"] by (auto simp: dc_ok_def dc_shape_def)
  let ?d = "seeded old dc"
  have e: "?d = dc\<lparr>ring_seeded := True, contexts := [Some (old, dc_generation dc), b]\<rparr>"
    using False ab by (simp add: seeded_def)
  have sub: "live_gens ?d \<subseteq> live_gens dc" using ab by (auto simp: e live_gens_def)
  have one: "contexts_occupied ?d \<le> 1 \<Longrightarrow> live_gens ?d = {dc_generation ?d}"
    by (cases b) (auto simp: e contexts_occupied_def live_gens_def)
  have c: "is_code_byte ?d = is_code_byte dc" "dirty_ok ?d = dirty_ok dc"
    by (simp_all add: e is_code_byte_def fun_eq_iff dirty_ok_def)
  have "dc_shape ?d" "dirty_ok ?d" using ok c ab by (simp_all add: e dc_ok_def dc_shape_def)
  moreover have "gens_ok ?d"
    using ok sub one unfolding dc_ok_def gens_ok_def by (auto simp: e subset_iff)
  ultimately show ?thesis using c sub by (intro dc_ok_step [OF ok]) (auto simp: e)
qed

lemma select_context_ok:
  assumes ok0: "dc_ok dc0" and sel: "select_context old new dc0 = (res, dc')"
  shows "dc_ok dc' \<and> live_lines dc' \<subseteq> live_lines dc0"
proof -
  define dc where "dc = seeded old dc0"
  have ok: "dc_ok dc" and sub0: "live_lines dc \<subseteq> live_lines dc0" using seeded_ok [OF ok0] by (auto simp: dc_def)
  obtain a b where ab: "contexts dc = [a, b]" using ok two_slots [of "contexts dc"] by (auto simp: dc_ok_def dc_shape_def)
  note gens = ok [unfolded dc_ok_def, THEN conjunct2, THEN conjunct1]
  let ?hit = "\<lambda>c. case c of Some (cr3, _) \<Rightarrow> cr3 = new | None \<Rightarrow> False"
  have "dc_ok dc' \<and> live_lines dc' \<subseteq> live_lines dc"
  proof (cases "position ?hit (contexts dc)")
    case (Some slot)
    then obtain cr3 g where c: "contexts dc ! slot = Some (cr3, g)" "slot < length (contexts dc)"
      using position_Some [OF Some] by (auto split: option.splits prod.splits)
    have e: "dc' = dc\<lparr>dc_generation := g\<rparr>"
      using sel Some c by (auto simp: select_context_def dc_def [unfolded seeded_def, symmetric] Let_def)
    have g: "g \<in> context_gens dc" using c nth_mem [OF c(2)] by (auto simp: context_gens_def)
    have sub: "live_gens dc' \<subseteq> live_gens dc" using g by (auto simp: e live_gens_context context_gens_def)
    have one: "contexts_occupied dc' \<le> 1 \<Longrightarrow> live_gens dc' = {dc_generation dc'}"
    proof -
      assume "contexts_occupied dc' \<le> 1"
      then have "live_gens dc = {dc_generation dc}" using gens by (simp add: e gens_ok_def contexts_occupied_def)
      then show "live_gens dc' = {dc_generation dc'}" using g sub by (auto simp: e live_gens_context)
    qed
    have m: "is_code_byte dc' = is_code_byte dc" "dirty_ok dc' = dirty_ok dc"
      by (simp_all add: e is_code_byte_def fun_eq_iff dirty_ok_def)
    have "dc_shape dc'" "dirty_ok dc'" using ok m by (simp_all add: e dc_ok_def dc_shape_def)
    moreover have "gens_ok dc'" using gens sub one unfolding gens_ok_def by (auto simp: e subset_iff)
    ultimately show ?thesis using m sub by (intro dc_ok_step [OF ok]) (auto simp: e)
  next
    case None
    show ?thesis
    proof (cases "position (\<lambda>c. c = None) (contexts dc)")
      case (Some slot)
      obtain g dc1 where al: "allocate_generation dc = (g, dc1)" by fastforce
      have e: "dc' = dc1\<lparr>contexts := (contexts dc1)[slot := Some (new, g)], dc_generation := g\<rparr>"
        using sel None Some al by (auto simp: select_context_def dc_def [unfolded seeded_def, symmetric] Let_def)
      have dirty: "dirty_ok dc" using ok by (simp add: dc_ok_def)
      note f = allocate_fresh [OF ok [unfolded dc_ok_def, THEN conjunct1] gens dirty al]
      obtain a1 b1 where ab1: "contexts dc1 = [a1, b1]" using two_slots [OF f(11)] by auto
      have slot: "slot = 0 \<or> slot = 1" using position_Some [OF Some] ab by auto
      show ?thesis
        using slot ab1 f(9)
        by (intro fresh_switch(1) [OF ok disjI1 [OF refl] al])
          (auto simp: e context_gens_def contexts_occupied_def is_code_byte_def fun_eq_iff dirty_ok_def split: if_splits)
    next
      case full: None
      obtain g dc1 where al: "allocate_generation (retire_ring True dc) = (g, dc1)" by fastforce
      have e: "dc' = dc1\<lparr>dc_generation := g, contexts := (contexts dc1)[0 := Some (new, g)]\<rparr>"
        using sel None full al by (auto simp: select_context_def dc_def [unfolded seeded_def, symmetric] Let_def)
      note f = allocate_fresh [OF retire_ring_parts [OF ok] al]
      have none: "contexts dc1 = [None, None]" using f(5) by (auto simp: retire_ring_frame)
      show ?thesis
        using f(9) none
        by (intro fresh_switch(1) [OF ok disjI2 [OF refl] al])
          (auto simp: e context_gens_def contexts_occupied_def is_code_byte_def fun_eq_iff dirty_ok_def)
    qed
  qed
  then show ?thesis using sub0 by blast
qed

section \<open>Reachable caches\<close>

lemma decode_cache_new_ok:
  assumes "decode_cache_new n = Some dc"
  shows "dc_ok dc" and "live_lines dc = {}"
  using assms
  by (auto simp: decode_cache_new_def is_power_of_two_def dc_ok_def dc_shape_def gens_ok_def lines_ok_def
      dirty_ok_def live_lines_def live_gens_def default_line_def split: if_splits)

text \<open>
  The history of fills: each \<open>put\<close> that was tried, with the memory the instruction was decoded from.
  The instruction is whatever the decoder (\<open>cpu/decode.rs\<close>) returned; nothing is assumed of it.
\<close>

record 'r fill_event =
  fe_lin :: u32
  fe_d :: bool
  fe_phys :: u32
  fe_insn :: "'r decoded_insn"
  fe_mem :: "u32 \<Rightarrow> u8"

inductive decode_reach :: "'r fill_event list \<Rightarrow> 'r decode_cache \<Rightarrow> (u32 \<Rightarrow> u8) \<Rightarrow> bool" where
  power_on: "decode_cache_new n = Some dc \<Longrightarrow> decode_reach [] dc m"
| fill: "decode_reach h dc m \<Longrightarrow> unat lin mod 4096 = unat phys mod 4096 \<Longrightarrow>
    dc_put lin insn d phys dc = (outcome, dc') \<Longrightarrow>
    decode_reach (\<lparr>fe_lin = lin, fe_d = d, fe_phys = phys, fe_insn = insn, fe_mem = m\<rparr> # h) dc' m"
| store: "decode_reach h dc m \<Longrightarrow> unat p + unat w \<le> 4294967296 \<Longrightarrow>
    (\<And>a. a \<notin> set (span p (unat w)) \<Longrightarrow> m' a = m a) \<Longrightarrow> decode_reach h (note_write_lines p w dc) m'"
| flush: "decode_reach h dc m \<Longrightarrow> decode_reach h (invalidate_and_clear_code_marks c dc) m"
| switch: "decode_reach h dc m \<Longrightarrow> select_context old new dc = (res, dc') \<Longrightarrow> decode_reach h dc' m"
| watch: "decode_reach h dc m \<Longrightarrow> dc_mark_translation_page p dc = (edge, dc') \<Longrightarrow> decode_reach h dc' m"

text \<open>A line was filled by \<open>e\<close>, and, when it is short, memory still holds the bytes of that fill.\<close>

definition filled_by :: "(u32 \<Rightarrow> u8) \<Rightarrow> 'r decode_line \<Rightarrow> 'r fill_event \<Rightarrow> bool" where
  "filled_by m line e \<longleftrightarrow> fe_lin e = dl_tag line \<and> fe_d e = dl_d line \<and> fe_phys e = dl_phys_start line
    \<and> Some (fe_insn e) = dl_insn line \<and> (line_short line \<longrightarrow> (\<forall>b. covers line b \<longrightarrow> m b = fe_mem e b))"

definition lines_current :: "'r fill_event list \<Rightarrow> (u32 \<Rightarrow> u8) \<Rightarrow> 'r decode_cache \<Rightarrow> bool" where
  "lines_current h m dc \<longleftrightarrow> (\<forall>line \<in> live_lines dc. \<exists>e \<in> set h. filled_by m line e)"

lemma lines_current_sub: "lines_current h m dc \<Longrightarrow> live_lines dc' \<subseteq> live_lines dc \<Longrightarrow> lines_current h m dc'"
  by (auto simp: lines_current_def)

lemma decode_reach_inv:
  assumes "decode_reach h dc m"
  shows "dc_ok dc \<and> lines_current h m dc"
  using assms
proof induction
  case (power_on n dc m)
  then show ?case using decode_cache_new_ok [of n dc] by (simp add: lines_current_def)
next
  case (fill h dc m lin phys insn d outcome dc')
  let ?line = "\<lparr>dl_tag = lin, dl_generation = dc_generation dc, dl_insn = Some insn, dl_d = d, dl_phys_start = phys\<rparr>"
  let ?e = "\<lparr>fe_lin = lin, fe_d = d, fe_phys = phys, fe_insn = insn, fe_mem = m\<rparr>"
  have put: "dc_ok dc'" "live_lines dc' \<subseteq> insert ?line (live_lines dc)"
    using dc_put_ok [OF conjunct1 [OF fill.IH] fill.hyps(2,3)] by auto
  have "filled_by m ?line ?e" by (simp add: filled_by_def)
  then have "\<exists>e \<in> set (?e # h). filled_by m line e" if "line \<in> live_lines dc'" for line
    using that put(2) fill.IH by (cases "line = ?line") (auto simp: lines_current_def)
  then show ?case using put(1) unfolding lines_current_def by blast
next
  case (store h dc m p w m')
  note wr = note_write_ok [OF conjunct1 [OF store.IH] store.hyps(2)]
  have "\<exists>e \<in> set h. filled_by m' line e" if l: "line \<in> live_lines (note_write_lines p w dc)" for line
  proof -
    obtain e where e: "e \<in> set h" "filled_by m line e" using l wr(2) store.IH by (auto simp: lines_current_def)
    have "m' b = m b" if "line_short line" "covers line b" for b
      using wr(3) [OF l that(1), of b] that(2) store.hyps(3) [of b] by blast
    then show ?thesis using e by (auto simp: filled_by_def)
  qed
  then show ?case using wr(1) by (simp add: lines_current_def)
next
  case (flush h dc m c)
  then show ?case using invalidate_ok [of dc c] by (simp add: lines_current_def)
next
  case (switch h dc m old new res dc')
  then show ?case using select_context_ok [of dc old new res dc'] lines_current_sub by blast
next
  case (watch h dc m p edge dc')
  then show ?case using mark_translation_ok [of dc p edge dc'] by (simp add: lines_current_def)
qed

lemma dc_get_put:
  assumes "dc_shape dc" and "dc_put lin insn d phys dc = (res, dc')" and "io_inserted res"
  shows "dc_get dc' lin d = Some insn" and "line_phys_start dc' lin d = Some phys"
proof -
  have f: "dc_lines (note_code_page pg l (mark_code_range p n dc)) = dc_lines dc"
    "dc_mask (note_code_page pg l (mark_code_range p n dc)) = dc_mask dc"
    "dc_generation (note_code_page pg l (mark_code_range p n dc)) = dc_generation dc" for pg l p n
    using mark_code_range_same [of dc p n] by (simp_all add: note_code_page_def same_but_marks_def)
  have "dc' = publish_line (line_index dc lin)
      \<lparr>dl_tag = lin, dl_generation = dc_generation dc, dl_insn = Some insn, dl_d = d, dl_phys_start = phys\<rparr>
      (note_code_page (page_of phys) lin (mark_code_range phys (di_len insn) dc))"
    using dc_put_cases [OF assms(2)] assms(3) by blast
  then show "dc_get dc' lin d = Some insn" "line_phys_start dc' lin d = Some phys"
    using line_index_less [OF assms(1), of lin] f
    by (simp_all add: dc_get_def line_phys_start_def publish_line_def line_index_def Let_def)
qed

lemma nth_update_replicate: "i < n \<Longrightarrow> (replicate n x)[j := y] ! i = (if i = j then y else x)"
  by (auto simp: nth_list_update)

text \<open>The first fill of a fresh cache: one live line, no page directories, no watched tables.\<close>

lemma first_put:
  assumes new: "decode_cache_new n = Some dc0" and put: "dc_put lin insn d phys dc0 = (res, dc1)" and ins: "io_inserted res"
  shows "contexts_occupied dc1 = 0" and "\<not> range_hits_translation_page dc1 p w"
    and "code_page_lin dc1 (page_of phys) = Some \<lparr>pci_lin_page = page_of lin, pci_aliased = False\<rparr>"
    and "kill_hit p f dc1 c \<Longrightarrow> c = lin"
    and "is_code_byte dc1 b \<longleftrightarrow> is_code_byte (mark_code_range phys (di_len insn) dc0) b"
proof -
  let ?m = "mark_code_range phys (di_len insn) dc0"
  let ?new = "\<lparr>dl_tag = lin, dl_generation = dc_generation dc0, dl_insn = Some insn, dl_d = d, dl_phys_start = phys\<rparr>"
  have dc1: "dc1 = publish_line (line_index dc0 lin) ?new (note_code_page (page_of phys) lin ?m)"
    using dc_put_cases [OF put] ins by blast
  have f: "dc_lines dc1 = (dc_lines dc0)[line_index dc0 lin := ?new]" "dc_mask dc1 = dc_mask dc0"
    "dc_generation dc1 = dc_generation dc0" "contexts dc1 = contexts dc0" "translation_pages dc1 = translation_pages dc0"
    "code_page_lin ?m = code_page_lin dc0"
    using mark_code_range_same [of dc0 phys "di_len insn"]
    by (simp_all add: dc1 publish_line_def note_code_page_def same_but_marks_def)
  have fresh: "contexts dc0 = [None, None]" "translation_pages dc0 = (\<lambda>_. 0)" "code_page_lin dc0 = Map.empty"
    "dc_generation dc0 = 1" "dc_lines dc0 = replicate n default_line"
    using new by (auto simp: decode_cache_new_def split: if_splits)
  have shape: "dc_shape dc0" using decode_cache_new_ok(1) [OF new] by (simp add: dc_ok_def)
  show "contexts_occupied dc1 = 0" by (simp add: contexts_occupied_def f fresh)
  show "\<not> range_hits_translation_page dc1 p w"
    by (simp add: range_hits_translation_page_def translation_page_is_watched_def f fresh list_ex_iff)
  show "code_page_lin dc1 (page_of phys) = Some \<lparr>pci_lin_page = page_of lin, pci_aliased = False\<rparr>"
    using f(6) by (simp add: dc1 publish_line_def note_code_page_def fresh)
  show "c = lin" if "kill_hit p f dc1 c"
  proof -
    have i: "line_index dc1 c = line_index dc0 c" by (simp only: line_index_def f(2))
    have "line_index dc0 c < n" using line_index_less [OF shape, of c] by (simp only: fresh(5) length_replicate)
    then have at: "dc_lines dc1 ! line_index dc1 c = (if line_index dc0 c = line_index dc0 lin then ?new else default_line)"
      unfolding i f(1) fresh(5) by (rule nth_update_replicate)
    have "dl_generation (dc_lines dc1 ! line_index dc1 c) = 1" "dl_tag (dc_lines dc1 ! line_index dc1 c) = c"
      using that by (simp_all only: kill_hit_def Let_def f(3) fresh(4))
    then show ?thesis unfolding at by (cases "line_index dc0 c = line_index dc0 lin") (simp_all add: default_line_def)
  qed
  show "is_code_byte dc1 b \<longleftrightarrow> is_code_byte ?m b"
    by (simp add: dc1 is_code_byte_def publish_line_def note_code_page_def)
qed

text \<open>A NOP at physical \<open>0x2010\<close>, executed at linear \<open>0x1010\<close>, and a store to the byte after it.\<close>

definition nop_fill :: "(u32 \<Rightarrow> u8) \<Rightarrow> u8 fill_event" where
  "nop_fill m = \<lparr>fe_lin = 0x1010, fe_d = False, fe_phys = 0x2010, fe_insn = \<lparr>di_len = 1, di_rest = 0x90\<rparr>, fe_mem = m\<rparr>"

lemma example_filled:
  "\<exists>dc. decode_reach [nop_fill (\<lambda>_. 0x90)] dc (\<lambda>_. 0x90) \<and> dc_get dc 0x1010 False = Some \<lparr>di_len = 1, di_rest = 0x90\<rparr>
     \<and> note_write_lines 0x2011 1 dc = dc"
proof -
  have "is_power_of_two 16" unfolding is_power_of_two_def by (intro conjI exI [of _ 4]) simp_all
  then obtain dc0 :: "u8 decode_cache" where new: "decode_cache_new 16 = Some dc0" by (simp add: decode_cache_new_def)
  obtain res dc where put: "dc_put 0x1010 \<lparr>di_len = 1, di_rest = 0x90\<rparr> False 0x2010 dc0 = (res, dc)" by fastforce
  have ok: "dc_shape dc0" using decode_cache_new_ok(1) [OF new] by (simp add: dc_ok_def)
  have ins: "io_inserted res"
    using put by (simp add: dc_put_def checked_add32_def sat_sub32_def page_of_def Let_def split: if_splits) auto
  have reach: "decode_reach [nop_fill (\<lambda>_. 0x90)] dc (\<lambda>_. 0x90)"
    unfolding nop_fill_def by (rule decode_reach.fill [OF decode_reach.power_on [OF new] _ put]) simp
  have "code_bytes dc0 = (\<lambda>_. 0)" using new by (auto simp: decode_cache_new_def split: if_splits)
  then have "\<not> is_code_byte dc 0x2011"
    unfolding first_put(5) [OF new put ins]
    by (simp add: is_code_byte_def mark_code_range_def mark_code_byte_get mark_pages_get SMC_BYTE_COVERAGE_def span_def Let_def)
  then have "\<not> range_hits_code dc 0x2011 1" by (simp add: range_hits_code_iff span_def)
  then have "note_write_lines 0x2011 1 dc = dc"
    using first_put(2) [OF new put ins] by (simp add: note_write_lines_def)
  then show ?thesis using reach dc_get_put(1) [OF ok put ins] by auto
qed

text \<open>C2: the decode cache does not serve an instruction whose bytes have changed.  Whatever interleaving
  of fills, reported writes, flushes, page-directory switches and page-table watches has happened, a
  hit for a linear address returns an instruction that a fill put there for that address and code
  size, at the physical address the line recorded, which has the page offset of the linear address;
  and when the instruction has at most fifteen bytes and ends below the last byte of physical
  memory, memory holds now, in all the bytes its length covers, what it held at that fill.  Both
  conditions are needed: the decoder takes any number of prefixes and the top of memory is not
  excluded either (see the last two sections).\<close>

theorem decode_cache_coherent:
  assumes "decode_reach h dc m" and "dc_get dc lin d = Some insn"
  shows "\<exists>phys. \<exists>e \<in> set h. line_phys_start dc lin d = Some phys \<and> phys AND 0xfff = lin AND 0xfff
     \<and> fe_lin e = lin \<and> fe_d e = d \<and> fe_phys e = phys \<and> fe_insn e = insn
     \<and> (unat (di_len insn) \<le> 15 \<and> unat phys + unat (di_len insn) < 4294967296 \<longrightarrow>
         (\<forall>b \<in> set (span phys (unat (di_len insn))). m b = fe_mem e b))"
proof -
  have inv: "dc_ok dc" "lines_current h m dc" using decode_reach_inv [OF assms(1)] by auto
  obtain line where l: "line \<in> live_lines dc" "dl_insn line = Some insn" "dl_tag line = lin" "dl_d line = d"
      "line_phys_start dc lin d = Some (dl_phys_start line)"
    using dc_get_live [OF inv(1) assms(2)] by blast
  have "line_fits line" using l(1) inv(1) by (auto simp: live_lines_nth dc_ok_def lines_ok_def)
  then have off: "dl_phys_start line AND 0xfff = lin AND 0xfff"
    using l(3) by (auto simp: line_fits_def word_unat_eq_iff unat_offset)
  obtain e where "e \<in> set h" "filled_by m line e" using l(1) inv(2) by (auto simp: lines_current_def)
  then show ?thesis using l off
    by (intro exI [of _ "dl_phys_start line"] bexI [of _ e])
      (auto simp: filled_by_def covers_def line_len_def line_short_def)
qed

text \<open>In the witness the byte after the instruction has been overwritten since the fill.\<close>

theorem decode_cache_coherent_witness:
  "\<exists>dc m. m 0x2011 = 0xcc \<and> decode_reach [nop_fill (\<lambda>_. 0x90)] dc m \<and> dc_get dc 0x1010 False \<noteq> None
     \<and> line_phys_start dc 0x1010 False = Some 0x2010 \<and> m 0x2010 = 0x90"
proof -
  let ?m = "(\<lambda>_. 0x90)(0x2011 := 0xcc)" and ?i = "\<lparr>di_len = 1, di_rest = 0x90 :: u8\<rparr>"
  obtain dc where dc: "decode_reach [nop_fill (\<lambda>_. 0x90)] dc (\<lambda>_. 0x90)" "dc_get dc 0x1010 False = Some ?i"
      "note_write_lines 0x2011 1 dc = dc"
    using example_filled by blast
  have "decode_reach [nop_fill (\<lambda>_. 0x90)] (note_write_lines 0x2011 1 dc) ?m"
    by (rule decode_reach.store [OF dc(1)]) (auto simp: span_def)
  then have r: "decode_reach [nop_fill (\<lambda>_. 0x90)] dc ?m" by (simp only: dc(3))
  have "line_phys_start dc 0x1010 False = Some 0x2010"
    using decode_cache_coherent [OF r dc(2)] by (auto simp: nop_fill_def)
  then show ?thesis using r dc(2) by (intro exI [of _ dc] exI [of _ ?m]) simp
qed

text \<open>C25: the one-load fast path of \<open>range_hits_code\<close> agrees with the byte-by-byte test, and the dirty
  lists make a wholesale flush forget every code mark: after \<open>retire_ring\<close> of a reachable cache no
  byte of the physical address space is marked.\<close>

theorem code_marks_exact:
  assumes "decode_reach h dc m"
  shows "range_hits_code dc p w = list_ex (is_code_byte dc) (span p (unat w)) \<and> \<not> is_code_byte (retire_ring c dc) a"
  using decode_reach_inv [OF assms] retire_ring_unmarks(1) [of dc c a]
  by (simp add: range_hits_code_iff list_ex_iff dc_ok_def)

theorem code_marks_exact_witness:
  "\<exists>dc. dc_get dc 0x1010 False \<noteq> None \<and> decode_reach [nop_fill (\<lambda>_. 0x90)] dc (\<lambda>_. 0x90)
     \<and> range_hits_code dc 0x2010 4 = list_ex (is_code_byte dc) [0x2010, 0x2011, 0x2012, 0x2013]
     \<and> \<not> is_code_byte (retire_ring False dc) 0x2010"
proof -
  obtain dc where dc: "decode_reach [nop_fill (\<lambda>_. 0x90)] dc (\<lambda>_. 0x90)" "dc_get dc 0x1010 False \<noteq> None"
    using example_filled by auto
  have "span 0x2010 (unat (4 :: u32)) = [0x2010, 0x2011, 0x2012, 0x2013]" by (simp add: span_def upt_rec)
  then show ?thesis using code_marks_exact [OF dc(1), where p = "0x2010" and w = 4 and c = False and a = "0x2010"] dc by auto
qed

section \<open>Instructions with more than fourteen prefixes\<close>

text \<open>
  The prefix loop of the decoder, over the bytes \<open>fetch_u8\<close> delivers; a fetch that faults is the end
  of the list and \<open>None\<close>.  Nothing counts the prefixes.
\<close>

datatype segment_index = Es | Cs | Ss | Ds | Fs | Gs

datatype rep_kind = Repe | Repne

record prefixes =
  operand_size_override :: bool
  address_size_override :: bool
  lock :: bool
  rep :: "rep_kind option"
  segment_override :: "segment_index option"

definition default_prefixes :: prefixes where
  "default_prefixes = \<lparr>operand_size_override = False, address_size_override = False, lock = False,
     rep = None, segment_override = None\<rparr>"

definition apply_prefix :: "u8 \<Rightarrow> prefixes \<Rightarrow> prefixes option" where
  "apply_prefix byte p =
    (if byte = 0x26 then Some (p\<lparr>segment_override := Some Es\<rparr>)
     else if byte = 0x2e then Some (p\<lparr>segment_override := Some Cs\<rparr>)
     else if byte = 0x36 then Some (p\<lparr>segment_override := Some Ss\<rparr>)
     else if byte = 0x3e then Some (p\<lparr>segment_override := Some Ds\<rparr>)
     else if byte = 0x64 then Some (p\<lparr>segment_override := Some Fs\<rparr>)
     else if byte = 0x65 then Some (p\<lparr>segment_override := Some Gs\<rparr>)
     else if byte = 0x66 then Some (p\<lparr>operand_size_override := True\<rparr>)
     else if byte = 0x67 then Some (p\<lparr>address_size_override := True\<rparr>)
     else if byte = 0xf0 then Some (p\<lparr>lock := True\<rparr>)
     else if byte = 0xf3 then Some (p\<lparr>rep := Some Repe\<rparr>)
     else if byte = 0xf2 then Some (p\<lparr>rep := Some Repne\<rparr>)
     else None)"

fun read_prefixes_loop :: "prefixes \<Rightarrow> u8 list \<Rightarrow> ((prefixes \<times> u8) \<times> u8 list) option" where
  "read_prefixes_loop p [] = None"
| "read_prefixes_loop p (byte # bytes) = (case apply_prefix byte p of
     Some p' \<Rightarrow> read_prefixes_loop p' bytes
   | None \<Rightarrow> Some ((p, byte), bytes))"

definition read_prefixes :: "u8 list \<Rightarrow> ((prefixes \<times> u8) \<times> u8 list) option" where
  "read_prefixes = read_prefixes_loop default_prefixes"

definition is_prefix_byte :: "u8 \<Rightarrow> bool" where
  "is_prefix_byte byte \<longleftrightarrow> apply_prefix byte default_prefixes \<noteq> None"

lemma apply_prefix_None: "apply_prefix byte p = None \<longleftrightarrow> \<not> is_prefix_byte byte"
  by (simp add: is_prefix_byte_def apply_prefix_def)

lemma read_prefixes_loop_all:
  "list_all is_prefix_byte ps \<Longrightarrow> \<not> is_prefix_byte opc \<Longrightarrow>
   \<exists>p'. read_prefixes_loop p (ps @ opc # rest) = Some ((p', opc), rest)"
proof (induction ps arbitrary: p)
  case Nil
  then show ?case by (simp add: apply_prefix_None [of opc p, symmetric])
next
  case (Cons b ps)
  then obtain p' where "apply_prefix b p = Some p'" using apply_prefix_None [of b p] by auto
  then show ?case using Cons by simp
qed

text \<open>The candidates of the narrow scan for byte \<open>k\<close> of an instruction stop short of its start when \<open>k > 14\<close>.\<close>

lemma scan_misses_start:
  assumes fit: "unat phys mod 4096 + k < 4096" and off: "unat lin mod 4096 = unat phys mod 4096" and k: "14 < k"
  shows "lin \<notin> set (range_incl (sat_sub32 (push_bit 12 (page_of lin) OR ((phys + of_nat k) AND 0xfff)) 14) l)"
    and "page_of (phys + of_nat k) = page_of phys"
proof -
  have top: "unat phys + k < 4294967296" using page_fits_top [of phys "Suc k"] fit by simp
  have m: "(unat phys + k) mod 4096 = unat phys mod 4096 + k"
    using mod_add_left_eq [of "unat phys" 4096 k] mod_less [OF fit] by (simp only:)
  have "unat (push_bit 12 (page_of lin) OR ((phys + of_nat k) AND 0xfff)) = unat lin div 4096 * 4096 + (unat lin mod 4096 + k)"
    unfolding unat_join unat_add_nat [OF top] m off ..
  also have "\<dots> = unat lin + k" by simp
  finally show "lin \<notin> set (range_incl (sat_sub32 (push_bit 12 (page_of lin) OR ((phys + of_nat k) AND 0xfff)) 14) l)"
    using k by (auto simp: set_range_incl word_le_nat_alt unat_sat_sub32)
  show "page_of (phys + of_nat k) = page_of phys"
    unfolding page_of_eq_iff unat_add_nat [OF top]
    using fit by (intro same_page_nat [where l = "Suc k"]) simp_all
qed

lemma kill_fold_others: "(\<And>c. c \<in> set cs \<Longrightarrow> \<not> kill_hit p f dc c) \<Longrightarrow> fold (kill_candidate p f) cs (n, dc) = (n, dc)"
  by (induction cs) (simp_all add: kill_candidate_eq)

lemma long_line_survives:
  assumes new: "decode_cache_new n = Some dc0" and off: "unat lin mod 4096 = unat phys mod 4096"
    and put: "dc_put lin insn d phys dc0 = (res, dc1)" and ins: "io_inserted res"
    and k: "14 < k" "k < unat (di_len insn)"
  shows "note_write_lines (phys + of_nat k) 1 dc1 = dc1"
proof -
  let ?p = "phys + of_nat k"
  have len: "unat phys mod 4096 + unat (di_len insn) \<le> 4096"
    by (rule put_fits [OF put ins])
  then have fit: "unat phys mod 4096 + k < 4096" using k(2) by simp
  note scan = scan_misses_start [OF fit off k(1)]
  note first = first_put [OF new put ins]
  have "narrow_invalidate ?p dc1 = (Some 0, dc1)"
  proof -
    let ?w = "push_bit 12 (page_of lin) OR (?p AND 0xfff)"
    have "fold (kill_candidate ?p ?p) (range_incl (sat_sub32 ?w 14) ?w) (0, dc1) = (0, dc1)"
      using first(4) scan(1) by (intro kill_fold_others) blast
    moreover have "checked_add32 ?w (?p - ?p) = Some ?w" by (simp add: checked_add32_def)
    ultimately show ?thesis
      by (simp add: narrow_invalidate_def narrow_invalidate_span_def first(1,3) scan(2) Let_def)
  qed
  then have "narrow_invalidate_write ?p 1 dc1 = (Some 0, dc1)"
    by (simp add: narrow_invalidate_write_def span_def)
  then show ?thesis using first(2) by (simp add: note_write_lines_def)
qed

text \<open>C38: an instruction with fifteen or more prefixes stays cached when its opcode is overwritten.  The
  prefix loop accepts any number of prefix bytes, and the cache takes the decoded instruction, whose
  length is then more than fifteen; a reported write to the opcode byte, which is marked as code,
  looks only fourteen bytes back, reports the write as handled and leaves the line live, so the next
  fetch is served the old instruction.  The length field has eight bits: at most 254 prefixes.\<close>

theorem long_instruction_stale:
  assumes "list_all is_prefix_byte ps" and "\<not> is_prefix_byte opc" and "15 \<le> length ps" and "length ps < 255"
    and "decode_cache_new n = Some dc0" and "unat lin mod 4096 = unat phys mod 4096" and "di_len insn = of_nat (length ps + 1)"
    and "dc_put lin insn d phys dc0 = (res, dc1)" and "io_inserted res"
  shows "(\<exists>p. read_prefixes (ps @ opc # rest) = Some ((p, opc), rest))
     \<and> is_code_byte dc1 (phys + of_nat (length ps))
     \<and> dc_get (note_write_lines (phys + of_nat (length ps)) 1 dc1) lin d = Some insn"
proof -
  have len: "unat (di_len insn) = length ps + 1"
    unfolding assms(7) unat_of_nat using assms(4) by (intro mod_less) simp
  have "note_write_lines (phys + of_nat (length ps)) 1 dc1 = dc1"
    using long_line_survives [OF assms(5,6,8,9)] assms(3) len by simp
  moreover have "dc_get dc1 lin d = Some insn"
    using dc_get_put(1) [OF _ assms(8,9)] decode_cache_new_ok(1) [OF assms(5)] by (simp add: dc_ok_def)
  moreover have "is_code_byte dc1 (phys + of_nat (length ps))"
  proof -
    have "phys + of_nat (length ps) \<in> set (span phys (unat (di_len insn)))" unfolding span_def len by simp
    moreover have "unat phys + unat (di_len insn) \<le> 4294967296" by (rule page_fits_top [OF put_fits [OF assms(8,9)]])
    moreover have "di_len insn \<noteq> 0" using len by auto
    ultimately show ?thesis unfolding first_put(5) [OF assms(5,8,9)] by (intro mark_code_range_marks)
  qed
  ultimately show ?thesis using read_prefixes_loop_all [OF assms(1,2)] by (simp add: read_prefixes_def)
qed

text \<open>Sixteen operand-size prefixes and a NOP, of which the NOP is overwritten.\<close>

theorem long_instruction_stale_witness:
  "\<exists>dc :: u8 decode_cache. (\<exists>p. read_prefixes (replicate 16 0x66 @ [0x90]) = Some ((p, 0x90), []))
     \<and> dc_get (note_write_lines 0x2020 1 dc) 0x1010 False = Some \<lparr>di_len = 17, di_rest = 0x90\<rparr>"
proof -
  have "is_power_of_two 16" unfolding is_power_of_two_def by (intro conjI exI [of _ 4]) simp_all
  then obtain dc0 :: "u8 decode_cache" where new: "decode_cache_new 16 = Some dc0" by (simp add: decode_cache_new_def)
  obtain res dc where put: "dc_put 0x1010 \<lparr>di_len = 17, di_rest = 0x90\<rparr> False 0x2010 dc0 = (res, dc)" by fastforce
  have ins: "io_inserted res"
    using put by (simp add: dc_put_def checked_add32_def sat_sub32_def page_of_def Let_def split: if_splits) auto
  have "list_all is_prefix_byte (replicate 16 0x66)" "\<not> is_prefix_byte 0x90"
    by (simp_all add: list_all_iff is_prefix_byte_def apply_prefix_def)
  then show ?thesis
    using long_instruction_stale [of "replicate 16 0x66" "0x90", OF _ _ _ _ new _ _ put ins, of "[]"] by (intro exI [of _ dc]) simp
qed

section \<open>An instruction that ends at the last byte of physical memory\<close>

text \<open>
  \<open>narrow_invalidate_span\<close> compares the written byte with \<open>phys_start.wrapping_add(len)\<close>, which is
  zero for an instruction that ends at physical address \<open>0xffffffff\<close>: the narrow path reports the
  write as handled and leaves the line live.
\<close>

lemma narrow_kill_misses_top:
  assumes line: "\<And>i. i < length (dc_lines dc) \<Longrightarrow> dl_generation (dc_lines dc ! i) = dc_generation dc \<Longrightarrow>
      dl_phys_start (dc_lines dc ! i) = - 1 \<and> line_len (dc_lines dc ! i) = 1"
    and shape: "dc_shape dc" and one: "contexts_occupied dc \<le> 1"
    and page: "code_page_lin dc (page_of (- 1)) = Some \<lparr>pci_lin_page = page_of lin, pci_aliased = False\<rparr>"
  shows "narrow_invalidate (- 1) dc = (Some 0, dc)"
proof -
  have "\<not> kill_hit (- 1) (- 1) dc c" for c
    using line [OF line_index_less [OF shape], of c] by (auto simp: kill_hit_def Let_def)
  then show ?thesis
    using one page by (simp add: narrow_invalidate_def narrow_invalidate_span_def kill_fold_others checked_add32_def)
qed

end
