(* ===== verification/Tlb.thy ===== *)
theory Tlb
  imports Decode_Facts
begin

text \<open>
  The translation lookaside buffer (\<open>Tlb\<close> in \<open>cpu/paging.rs\<close>): 1024 direct-mapped entries stamped
  with a generation, one generation per slot of the page-directory ring, and the minting of fresh
  generations.  An index that the source checks (a slot of the two-element array) is an option.
\<close>

section \<open>Model\<close>

definition TLB_ENTRIES :: nat where
  "TLB_ENTRIES = 1024"

record tlb_entry =
  te_tag :: u32
  te_phys :: u32
  te_generation :: u32
  te_writable :: bool
  te_user :: bool
  te_dirty :: bool

definition tlb_empty_entry :: tlb_entry where
  "tlb_empty_entry = \<lparr>te_tag = 0, te_phys = 0, te_generation = 0, te_writable = False, te_user = False, te_dirty = False\<rparr>"

record tlb =
  tlb_entries :: "tlb_entry list"
  tlb_generation :: u32
  tlb_generations :: "u32 list"
  tlb_live :: nat
  tlb_next_generation :: u32

definition tlb_default :: tlb where
  "tlb_default = \<lparr>tlb_entries = replicate TLB_ENTRIES tlb_empty_entry, tlb_generation = 1, tlb_generations = [1, 2],
     tlb_live = 0, tlb_next_generation = 3\<rparr>"

definition tlb_slot :: "u32 \<Rightarrow> nat" where
  "tlb_slot page = unat page AND (TLB_ENTRIES - 1)"

definition tlb_lookup :: "tlb \<Rightarrow> u32 \<Rightarrow> tlb_entry option" where
  "tlb_lookup t page = (let e = tlb_entries t ! tlb_slot page in
     if te_generation e = tlb_generation t \<and> te_tag e = page then Some e else None)"

definition tlb_insert :: "u32 \<Rightarrow> u32 \<Rightarrow> bool \<Rightarrow> bool \<Rightarrow> bool \<Rightarrow> tlb \<Rightarrow> tlb_entry option \<times> tlb" where
  "tlb_insert page phys writable user dirty t =
    (let slot = tlb_slot page; previous = tlb_entries t ! slot in
     (if te_generation previous \<noteq> 0 then Some previous else None,
      t\<lparr>tlb_entries := (tlb_entries t)[slot :=
          \<lparr>te_tag = page, te_phys = phys, te_generation = tlb_generation t, te_writable = writable,
           te_user = user, te_dirty = dirty\<rparr>]\<rparr>))"

definition tlb_invalidate :: "u32 \<Rightarrow> tlb \<Rightarrow> tlb" where
  "tlb_invalidate page t =
    (let slot = tlb_slot page; e = tlb_entries t ! slot in
     if te_generation e = tlb_generation t \<and> te_tag e = page
     then t\<lparr>tlb_entries := (tlb_entries t)[slot := tlb_empty_entry]\<rparr> else t)"

definition mint_generation :: "tlb \<Rightarrow> u32 \<times> tlb" where
  "mint_generation t0 =
    (let t = (if tlb_next_generation t0 = 0
              then t0\<lparr>tlb_entries := replicate TLB_ENTRIES tlb_empty_entry, tlb_next_generation := 1\<rparr> else t0)
     in (tlb_next_generation t, t\<lparr>tlb_next_generation := tlb_next_generation t + 1\<rparr>))"

definition select_generation :: "nat \<Rightarrow> tlb \<Rightarrow> tlb option" where
  "select_generation slot t =
    (if slot < length (tlb_generations t)
     then Some (t\<lparr>tlb_live := slot, tlb_generation := tlb_generations t ! slot\<rparr>) else None)"

definition tlb_allocate_generation :: "nat \<Rightarrow> tlb \<Rightarrow> tlb option" where
  "tlb_allocate_generation slot t0 =
    (let (g, t) = mint_generation t0 in
     if slot < length (tlb_generations t)
     then Some (t\<lparr>tlb_generations := (tlb_generations t)[slot := g], tlb_live := slot, tlb_generation := g\<rparr>) else None)"

definition flush_live_slot :: "tlb \<Rightarrow> tlb" where
  "flush_live_slot t0 =
    (let (g, t) = mint_generation t0 in
     t\<lparr>tlb_generations := (tlb_generations t)[tlb_live t := g], tlb_generation := g\<rparr>)"

definition retire_all_slots :: "tlb \<Rightarrow> tlb" where
  "retire_all_slots t0 =
    (let (g0, t1) = mint_generation t0;
         (g1, t2) = mint_generation (t1\<lparr>tlb_generations := (tlb_generations t1)[0 := g0]\<rparr>)
     in t2\<lparr>tlb_generations := (tlb_generations t2)[1 := g1], tlb_live := 0, tlb_generation := g0\<rparr>)"

definition retire_dormant_slot :: "tlb \<Rightarrow> tlb" where
  "retire_dormant_slot t0 =
    (let dormant = 1 - tlb_live t0; (g, t) = mint_generation t0
     in t\<lparr>tlb_generations := (tlb_generations t)[dormant := g]\<rparr>)"

section \<open>Invariant, and what a slot serves\<close>

text \<open>The two slots hold different generations, both below the next one to be minted.\<close>

definition tlb_ok :: "tlb \<Rightarrow> bool" where
  "tlb_ok t \<longleftrightarrow> length (tlb_entries t) = TLB_ENTRIES \<and> length (tlb_generations t) = 2 \<and> tlb_live t < 2
    \<and> tlb_generation t = tlb_generations t ! tlb_live t
    \<and> tlb_generations t ! 0 \<noteq> tlb_generations t ! 1
    \<and> (\<forall>g \<in> set (tlb_generations t). 0 < g \<and> g < tlb_next_generation t)
    \<and> (\<forall>e \<in> set (tlb_entries t). te_generation e < tlb_next_generation t)"

text \<open>Room for \<open>k\<close> more generations before the counter wraps.\<close>

definition tlb_room :: "nat \<Rightarrow> tlb \<Rightarrow> bool" where
  "tlb_room k t \<longleftrightarrow> unat (tlb_next_generation t) + k < 4294967296"

definition serves :: "tlb \<Rightarrow> nat \<Rightarrow> tlb_entry \<Rightarrow> bool" where
  "serves t s e \<longleftrightarrow> tlb_entries t ! tlb_slot (te_tag e) = e \<and> te_generation e = tlb_generations t ! s"

lemma tlb_slot_less [simp]: "tlb_slot p < TLB_ENTRIES"
proof -
  have "unat p AND 1023 = take_bit 10 (unat p)" by (simp add: take_bit_eq_mask mask_eq_exp_minus_1)
  then show ?thesis by (simp add: tlb_slot_def TLB_ENTRIES_def take_bit_eq_mod)
qed

lemma slot_of_generation:
  assumes "tlb_ok t" and "s < 2" and "tlb_generations t ! s = tlb_generation t"
  shows "s = tlb_live t"
proof -
  have "tlb_generations t ! 0 \<noteq> tlb_generations t ! 1" "tlb_generation t = tlb_generations t ! tlb_live t" "tlb_live t < 2"
    using assms(1) by (simp_all add: tlb_ok_def)
  moreover have "s = 0 \<or> s = 1" "tlb_live t < 2 \<Longrightarrow> tlb_live t = 0 \<or> tlb_live t = 1" using assms(2) by linarith+
  ultimately show ?thesis using assms(3) by metis
qed

lemma slot_gen_bounds:
  assumes "tlb_ok t" and "s < 2"
  shows "0 < tlb_generations t ! s" and "tlb_generations t ! s < tlb_next_generation t"
  using assms nth_mem [of s "tlb_generations t"] by (simp_all add: tlb_ok_def)

lemma tlb_next_pos: "tlb_ok t \<Longrightarrow> 0 < tlb_next_generation t"
  using slot_gen_bounds [of t 0] by (meson order_less_trans zero_less_numeral)

lemma tlb_default_ok: "tlb_ok tlb_default"
  by (simp add: tlb_ok_def tlb_default_def TLB_ENTRIES_def tlb_empty_entry_def)

lemma tlb_default_serves: "\<not> serves tlb_default s e" if "s < 2"
  using that by (auto simp: serves_def tlb_default_def tlb_empty_entry_def less_2_cases_iff)

lemma tlb_lookup_serves:
  assumes "tlb_ok t"
  shows "tlb_lookup t page = Some e \<longleftrightarrow> te_tag e = page \<and> serves t (tlb_live t) e"
  using assms by (auto simp: tlb_lookup_def serves_def tlb_ok_def Let_def)

lemma tlb_insert_ok:
  assumes ok: "tlb_ok t" and ins: "tlb_insert page phys w u d t = (prev, t')"
  shows "tlb_ok t'" and "tlb_live t' = tlb_live t" and "tlb_next_generation t' = tlb_next_generation t"
    and "\<lbrakk>s < 2; serves t' s e\<rbrakk> \<Longrightarrow> serves t s e \<or> (s = tlb_live t \<and>
        e = \<lparr>te_tag = page, te_phys = phys, te_generation = tlb_generation t, te_writable = w, te_user = u, te_dirty = d\<rparr>)"
proof -
  let ?new = "\<lparr>te_tag = page, te_phys = phys, te_generation = tlb_generation t, te_writable = w, te_user = u, te_dirty = d\<rparr>"
  have t': "t' = t\<lparr>tlb_entries := (tlb_entries t)[tlb_slot page := ?new]\<rparr>"
    using ins by (auto simp: tlb_insert_def Let_def)
  show "tlb_live t' = tlb_live t" "tlb_next_generation t' = tlb_next_generation t" by (simp_all add: t')
  have cur: "tlb_generation t < tlb_next_generation t" using ok by (auto simp: tlb_ok_def)
  show "tlb_ok t'"
    using ok cur set_update_subset_insert [of "tlb_entries t" "tlb_slot page" ?new] by (auto simp: tlb_ok_def t')
  assume s: "s < 2" and sv: "serves t' s e"
  show "serves t s e \<or> (s = tlb_live t \<and> e = ?new)"
  proof (cases "tlb_slot (te_tag e) = tlb_slot page")
    case True
    then have e: "e = ?new" using sv ok by (auto simp: serves_def t' tlb_ok_def)
    moreover have "s = tlb_live t"
      using sv e by (intro slot_of_generation [OF ok s]) (simp add: serves_def t')
    ultimately show ?thesis by simp
  next
    case False
    then show ?thesis using sv by (auto simp: serves_def t')
  qed
qed

lemma tlb_invalidate_ok:
  assumes ok: "tlb_ok t"
  shows "tlb_ok (tlb_invalidate page t)" and "tlb_live (tlb_invalidate page t) = tlb_live t"
    and "tlb_next_generation (tlb_invalidate page t) = tlb_next_generation t"
    and "\<lbrakk>s < 2; serves (tlb_invalidate page t) s e\<rbrakk> \<Longrightarrow> serves t s e \<and> (s = tlb_live t \<longrightarrow> te_tag e \<noteq> page)"
proof -
  note n0 = tlb_next_pos [OF ok]
  show "tlb_live (tlb_invalidate page t) = tlb_live t" "tlb_next_generation (tlb_invalidate page t) = tlb_next_generation t"
    by (simp_all add: tlb_invalidate_def Let_def)
  show "tlb_ok (tlb_invalidate page t)"
    using ok n0 set_update_subset_insert [of "tlb_entries t" "tlb_slot page" tlb_empty_entry]
    by (auto simp: tlb_ok_def tlb_invalidate_def Let_def tlb_empty_entry_def)
  assume s: "s < 2" and sv: "serves (tlb_invalidate page t) s e"
  have gen: "te_generation e \<noteq> 0"
    using slot_gen_bounds(1) [OF ok s] sv by (auto simp: serves_def tlb_invalidate_def Let_def split: if_splits)
  have len: "length (tlb_entries t) = TLB_ENTRIES" "tlb_generation t = tlb_generations t ! tlb_live t"
    using ok by (simp_all add: tlb_ok_def)
  show "serves t s e \<and> (s = tlb_live t \<longrightarrow> te_tag e \<noteq> page)"
  proof (cases "te_generation (tlb_entries t ! tlb_slot page) = tlb_generation t \<and> te_tag (tlb_entries t ! tlb_slot page) = page")
    case True
    then have "tlb_slot (te_tag e) \<noteq> tlb_slot page"
      using sv gen len by (auto simp: tlb_invalidate_def serves_def Let_def tlb_empty_entry_def)
    then show ?thesis using sv True by (auto simp: tlb_invalidate_def serves_def Let_def)
  next
    case False
    then show ?thesis using sv len by (auto simp: tlb_invalidate_def serves_def Let_def)
  qed
qed

section \<open>Minting\<close>

lemma mint_ok:
  assumes ok: "tlb_ok t" and room: "tlb_room (Suc k) t" and m: "mint_generation t = (g, t')"
  shows "t' = t\<lparr>tlb_next_generation := tlb_next_generation t'\<rparr>" and "tlb_ok t'" and "tlb_room k t'"
    and "g < tlb_next_generation t'" and "0 < g" and "g \<notin> set (tlb_generations t)" 
    and "e \<in> set (tlb_entries t) \<Longrightarrow> te_generation e < g"
    and "\<forall>h \<in> set (tlb_generations t). h < g"
proof -
  have n0: "tlb_next_generation t \<noteq> 0" using tlb_next_pos [OF ok] by simp
  have g: "g = tlb_next_generation t" "t' = t\<lparr>tlb_next_generation := tlb_next_generation t + 1\<rparr>"
    using m n0 by (auto simp: mint_generation_def Let_def)
  have u: "unat (tlb_next_generation t + 1) = unat (tlb_next_generation t) + 1"
    using room by (subst unat_add_fits) (simp_all add: tlb_room_def)
  then have lt: "x < tlb_next_generation t + 1" if "x < tlb_next_generation t" for x
    using that by (simp add: word_less_nat_alt)
  show "t' = t\<lparr>tlb_next_generation := tlb_next_generation t'\<rparr>" by (simp add: g)
  show "tlb_ok t'" using ok lt by (auto simp: tlb_ok_def g)
  show "tlb_room k t'" using room by (simp add: tlb_room_def g u)
  show "g < tlb_next_generation t'" using u by (simp add: g word_less_nat_alt)
  show "0 < g" using n0 g by (simp add: word_gt_0)
  show "g \<notin> set (tlb_generations t)" "\<forall>h \<in> set (tlb_generations t). h < g" using ok g by (auto simp: tlb_ok_def)
  show "te_generation e < g" if "e \<in> set (tlb_entries t)" using that ok g by (simp add: tlb_ok_def)
qed

text \<open>Giving slot \<open>s\<close> a freshly minted generation empties it and leaves the other slot alone.\<close>

definition remint :: "nat \<Rightarrow> tlb \<Rightarrow> tlb" where
  "remint s t0 = (let (g, t) = mint_generation t0 in t\<lparr>tlb_generations := (tlb_generations t)[s := g],
     tlb_generation := (if s = tlb_live t0 then g else tlb_generation t)\<rparr>)"

lemma remint_ok:
  assumes ok: "tlb_ok t" and room: "tlb_room (Suc k) t" and s: "s < 2"
  shows "tlb_ok (remint s t)" and "tlb_room k (remint s t)" and "tlb_live (remint s t) = tlb_live t"
    and "\<not> serves (remint s t) s e"
    and "\<lbrakk>r < 2; r \<noteq> s; serves (remint s t) r e\<rbrakk> \<Longrightarrow> serves t r e"
proof -
  obtain g t1 where m: "mint_generation t = (g, t1)" by fastforce
  note f = mint_ok [OF ok room m]
  define n where "n = tlb_next_generation t1"
  have t1: "t1 = t\<lparr>tlb_next_generation := n\<rparr>" using f(1) by (simp add: n_def)
  have e: "remint s t = t\<lparr>tlb_next_generation := n, tlb_generations := (tlb_generations t)[s := g],
      tlb_generation := (if s = tlb_live t then g else tlb_generation t)\<rparr>"
    by (simp add: remint_def m t1)
  have len: "length (tlb_generations t) = 2" using ok by (simp add: tlb_ok_def)
  have other: "tlb_generations t ! r \<noteq> g" if "r < 2" for r using f(6) that len nth_mem [of r "tlb_generations t"] by auto
  have ok1: "tlb_ok t1" by (rule f(2))
  have n: "g < n" using f(4) by (simp add: n_def)
  show "tlb_room k (remint s t)" "tlb_live (remint s t) = tlb_live t" using f(3) by (simp_all add: e tlb_room_def n_def)
  have set: "h \<in> set ((tlb_generations t)[s := g]) \<Longrightarrow> 0 < h \<and> h < n" for h
    using set_update_subset_insert [of "tlb_generations t" s g] ok1 f(5) n by (auto simp: tlb_ok_def t1)
  have ne: "(tlb_generations t)[s := g] ! 0 \<noteq> (tlb_generations t)[s := g] ! 1"
    using ok other [of 0] other [of 1] s len by (cases "s = 0") (auto simp: tlb_ok_def less_2_cases_iff)
  have gen: "(if s = tlb_live t then g else tlb_generation t) = (tlb_generations t)[s := g] ! tlb_live t"
    using ok len s by (simp add: tlb_ok_def)
  show "tlb_ok (remint s t)"
    unfolding tlb_ok_def using ok ok1 set ne gen by (simp add: e t1 tlb_ok_def)
  show "\<not> serves (remint s t) s e"
  proof
    assume "serves (remint s t) s e"
    then have v: "tlb_entries t ! tlb_slot (te_tag e) = e" "te_generation e = g" using s len by (simp_all add: serves_def e)
    have "e \<in> set (tlb_entries t)" using v(1) nth_mem [of "tlb_slot (te_tag e)" "tlb_entries t"] ok by (simp add: tlb_ok_def)
    then show False using f(7) v(2) by blast
  qed
  show "serves t r e" if "r < 2" "r \<noteq> s" "serves (remint s t) r e" using that by (simp add: serves_def e)
qed

lemma flush_live_slot_remint: "flush_live_slot t = remint (tlb_live t) t"
proof -
  have "tlb_live (snd (mint_generation t)) = tlb_live t" by (simp add: mint_generation_def Let_def)
  then show ?thesis by (auto simp: flush_live_slot_def remint_def split: prod.splits)
qed

lemma retire_dormant_remint:
  assumes "tlb_live t < 2"
  shows "retire_dormant_slot t = remint (1 - tlb_live t) t"
proof -
  have "1 - tlb_live t \<noteq> tlb_live t" using assms by (auto simp: less_2_cases_iff)
  then show ?thesis by (simp add: retire_dormant_slot_def remint_def split: prod.splits)
qed

lemma select_generation_ok:
  assumes ok: "tlb_ok t" and s: "s < 2"
  obtains t' where "select_generation s t = Some t'" and "tlb_ok t'" and "tlb_live t' = s"
    and "tlb_next_generation t' = tlb_next_generation t" and "\<And>r e. serves t' r e = serves t r e"
  using assms by (intro that [of "t\<lparr>tlb_live := s, tlb_generation := tlb_generations t ! s\<rparr>"])
    (auto simp: select_generation_def tlb_ok_def serves_def)

lemma allocate_remint:
  assumes ok: "tlb_ok t" and s: "s < 2"
  shows "tlb_allocate_generation s t = select_generation s (remint s t)"
  using assms by (auto simp: tlb_allocate_generation_def select_generation_def remint_def mint_generation_def tlb_ok_def Let_def)

lemma retire_all_remint:
  assumes ok: "tlb_ok t" and room: "tlb_room (Suc (Suc k)) t"
  shows "Some (retire_all_slots t) = select_generation 0 (remint 1 (remint 0 t))"
  using assms by (auto simp: retire_all_slots_def select_generation_def remint_def mint_generation_def tlb_ok_def Let_def)

lemma retire_all_ok:
  assumes ok: "tlb_ok t" and room: "tlb_room (Suc (Suc k)) t"
  shows "tlb_ok (retire_all_slots t)" and "tlb_room k (retire_all_slots t)" and "tlb_live (retire_all_slots t) = 0"
    and "s < 2 \<Longrightarrow> \<not> serves (retire_all_slots t) s e"
proof -
  note r0 = remint_ok [OF ok room, of 0]
  note r1 = remint_ok [of "remint 0 t" k 1]
  obtain t' where t': "select_generation 0 (remint 1 (remint 0 t)) = Some t'" "tlb_ok t'" "tlb_live t' = 0"
      "tlb_next_generation t' = tlb_next_generation (remint 1 (remint 0 t))"
      "\<And>r e. serves t' r e = serves (remint 1 (remint 0 t)) r e"
    using select_generation_ok [of "remint 1 (remint 0 t)" 0] r0(1,2) r1(1) by (metis one_less_numeral_iff semiring_norm(76) zero_less_numeral)
  have e: "retire_all_slots t = t'" using retire_all_remint [OF ok room] t'(1) by simp
  show "tlb_ok (retire_all_slots t)" "tlb_live (retire_all_slots t) = 0" by (simp_all add: e t')
  show "tlb_room k (retire_all_slots t)" using r1(2) r0(1,2) by (simp add: e tlb_room_def t'(4))
  show "\<not> serves (retire_all_slots t) s e" if "s < 2"
    using that r0(1,2,4) r1(4,5) less_2_cases [OF that] by (auto simp: e t'(5))
qed

lemma allocate_ok:
  assumes ok: "tlb_ok t" and room: "tlb_room (Suc k) t" and s: "s < 2"
  obtains t' where "tlb_allocate_generation s t = Some t'" and "tlb_ok t'" and "tlb_room k t'" and "tlb_live t' = s"
    and "\<And>e. \<not> serves t' s e" and "\<And>r e. r < 2 \<Longrightarrow> r \<noteq> s \<Longrightarrow> serves t' r e \<Longrightarrow> serves t r e"
proof -
  note r = remint_ok [OF ok room s]
  obtain t' where "select_generation s (remint s t) = Some t'" "tlb_ok t'" "tlb_live t' = s"
      "tlb_next_generation t' = tlb_next_generation (remint s t)" "\<And>r e. serves t' r e = serves (remint s t) r e"
    using select_generation_ok [OF r(1) s] by metis
  then show ?thesis using r allocate_remint [OF ok s] by (intro that [of t']) (auto simp: tlb_room_def)
qed

section \<open>The generation counter wraps\<close>

lemma flush_run:
  assumes "0 < k" and "k \<le> 4294967293"
  shows "(flush_live_slot ^^ k) tlb_default =
    tlb_default\<lparr>tlb_generation := of_nat (k + 2), tlb_generations := [of_nat (k + 2), 2], tlb_next_generation := of_nat (k + 3)\<rparr>"
  using assms
proof (induction k)
  case (Suc k)
  show ?case
  proof (cases "k = 0")
    case True
    then show ?thesis by (simp add: flush_live_slot_def mint_generation_def tlb_default_def Let_def)
  next
    case False
    then have ih: "(flush_live_slot ^^ k) tlb_default =
      tlb_default\<lparr>tlb_generation := of_nat (k + 2), tlb_generations := [of_nat (k + 2), 2], tlb_next_generation := of_nat (k + 3)\<rparr>"
      using Suc by simp
    have "unat (of_nat (k + 3) :: u32) = k + 3" unfolding unat_of_nat using Suc.prems by simp
    then have "(of_nat (k + 3) :: u32) \<noteq> 0" by (metis add_is_0 unat_0 zero_neq_numeral)
    then show ?thesis
      unfolding funpow.simps o_def ih
      by (simp add: flush_live_slot_def mint_generation_def tlb_default_def Let_def add.commute)
  qed
qed simp

text \<open>C40: two slots can come to share a generation, against the comment on \<open>next_generation\<close> (\<open>a value
  handed to one slot can never collide with the other's\<close>): after 4294967295 flushes of the live slot
  the counter has wrapped and mints 2 again, which is still the generation of the dormant slot; an
  entry then inserted for the live page directory is returned under the other one.\<close>

theorem tlb_generation_collision:
  "let t = (flush_live_slot ^^ 4294967295) tlb_default; t' = snd (tlb_insert page phys w u d t)
   in \<exists>t''. select_generation 1 t' = Some t'' \<and> tlb_live t' = 0 \<and> tlb_live t'' = 1
        \<and> map_option te_phys (tlb_lookup t'' page) = Some phys"
proof -
  let ?b = "replicate TLB_ENTRIES tlb_empty_entry"
  have "(flush_live_slot ^^ 4294967295) tlb_default = flush_live_slot (flush_live_slot ((flush_live_slot ^^ 4294967293) tlb_default))"
  proof -
    have "4294967295 = Suc (Suc 4294967293)" by simp
    then show ?thesis by (simp only: funpow.simps o_apply)
  qed
  also have "\<dots> = tlb_default\<lparr>tlb_generation := 2, tlb_generations := [2, 2], tlb_next_generation := 3\<rparr>"
    unfolding flush_run [of 4294967293, simplified]
    by (simp add: flush_live_slot_def mint_generation_def tlb_default_def Let_def)
  finally have t: "(flush_live_slot ^^ 4294967295) tlb_default = tlb_default\<lparr>tlb_generation := 2, tlb_generations := [2, 2], tlb_next_generation := 3\<rparr>" .
  show ?thesis
    unfolding t Let_def
    by (simp add: tlb_insert_def select_generation_def tlb_lookup_def tlb_default_def Let_def)
qed

end
