(* ===== verification/Page_Caches.thy ===== *)
theory Page_Caches
  imports Decode_Facts
begin

text \<open>
  The smaller caches of \<open>cpu/paging.rs\<close>: host pages for data accesses, the eip-window prefetch and the
  instruction-fetch pages, and the contract they share: a cache that may forget, but never answers
  with anything but what was last filled in.  Host pointers and segment registers are type
  parameters; reading through a host pointer is the parameter \<open>deref\<close>.
\<close>

section \<open>The contract\<close>

text \<open>
  \<open>fill\<close> stores a value under a key, \<open>forget\<close> drops entries.  After a fill the key maps to the new value
  and any other key to what it mapped to or to nothing.
\<close>

locale lossy_cache =
  fixes lookup :: "'s \<Rightarrow> 'k \<Rightarrow> 'v option"
    and fill :: "'k \<Rightarrow> 'v \<Rightarrow> 's \<Rightarrow> 's"
    and forget :: "'s \<Rightarrow> 's"
    and inv :: "'s \<Rightarrow> bool"
    and admissible :: "'k \<Rightarrow> 'v \<Rightarrow> bool"
  assumes fill_same: "inv s \<Longrightarrow> admissible k v \<Longrightarrow> lookup (fill k v s) k = Some v"
    and fill_other: "inv s \<Longrightarrow> admissible k v \<Longrightarrow> k' \<noteq> k \<Longrightarrow> lookup (fill k v s) k' = Some v' \<Longrightarrow> lookup s k' = Some v'"
    and forget_all: "inv s \<Longrightarrow> lookup (forget s) k = None"
    and inv_fill: "inv s \<Longrightarrow> inv (fill k v s)"
    and inv_forget: "inv s \<Longrightarrow> inv (forget s)"
begin

text \<open>A history of fills and flushes, and the map it describes.\<close>

fun run :: "('k \<times> 'v) option list \<Rightarrow> 's \<Rightarrow> 's" where
  "run [] s = s"
| "run (Some (k, v) # ops) s = run ops (fill k v s)"
| "run (None # ops) s = run ops (forget s)"

fun track :: "('k \<times> 'v) option list \<Rightarrow> ('k \<rightharpoonup> 'v) \<Rightarrow> ('k \<rightharpoonup> 'v)" where
  "track [] m = m"
| "track (Some (k, v) # ops) m = track ops (m(k \<mapsto> v))"
| "track (None # ops) m = track ops Map.empty"

lemma run_sound:
  assumes "inv s" and "\<And>k v. lookup s k = Some v \<Longrightarrow> m k = Some v"
    and "\<And>k v. Some (k, v) \<in> set ops \<Longrightarrow> admissible k v" and "lookup (run ops s) k = Some v"
  shows "track ops m k = Some v"
  using assms
proof (induction ops arbitrary: s m)
  case (Cons op ops)
  show ?case
  proof (cases op)
    case None
    have "track ops Map.empty k = Some v"
      using Cons.prems None by (intro Cons.IH [of "forget s"]) (auto simp: forget_all inv_forget)
    then show ?thesis by (simp add: None)
  next
    case (Some kv)
    obtain j w where kv: "kv = (j, w)" by fastforce
    have adm: "admissible j w" using Cons.prems(3) Some kv by simp
    have "track ops (m(j \<mapsto> w)) k = Some v"
    proof (rule Cons.IH [of "fill j w s"])
      show "(m(j \<mapsto> w)) i = Some x" if "lookup (fill j w s) i = Some x" for i x
        using that fill_same [OF Cons.prems(1) adm] fill_other [OF Cons.prems(1) adm] Cons.prems(2)
        by (cases "i = j") auto
    qed (use Cons.prems Some kv inv_fill in auto)
    then show ?thesis by (simp add: Some kv)
  qed
qed auto

end

section \<open>Host pages for data accesses\<close>

definition DIRECT_PAGE_CACHE_LINES :: nat where
  "DIRECT_PAGE_CACHE_LINES = 64"

record 'ptr direct_page =
  dp_physical_page :: u32
  dp_ptr :: 'ptr
  dp_len :: nat
  dp_mapping_epoch :: nat

record 'ptr direct_entry =
  de_physical_page :: u32
  de_ptr :: "'ptr option"

record 'ptr direct_cache =
  dpc_entries :: "'ptr direct_entry list"
  dpc_mapping_epoch :: nat

definition direct_entry_default :: "'ptr direct_entry" where
  "direct_entry_default = \<lparr>de_physical_page = - 1, de_ptr = None\<rparr>"

definition direct_cache_default :: "'ptr direct_cache" where
  "direct_cache_default = \<lparr>dpc_entries = replicate DIRECT_PAGE_CACHE_LINES direct_entry_default, dpc_mapping_epoch = 0\<rparr>"

definition direct_slot :: "u32 \<Rightarrow> nat" where
  "direct_slot page = unat (drop_bit 12 page) AND (DIRECT_PAGE_CACHE_LINES - 1)"

definition direct_get :: "'ptr direct_cache \<Rightarrow> u32 \<Rightarrow> 'ptr direct_entry option" where
  "direct_get c physical = (let page = physical AND NOT 0xfff; e = dpc_entries c ! direct_slot page in
     if de_physical_page e = page then Some e else None)"

definition direct_insert :: "'ptr direct_page \<Rightarrow> 'ptr direct_cache \<Rightarrow> 'ptr direct_cache" where
  "direct_insert page c0 =
    (let c = (if dpc_mapping_epoch c0 \<noteq> dp_mapping_epoch page
              then \<lparr>dpc_entries = replicate (length (dpc_entries c0)) direct_entry_default, dpc_mapping_epoch = dp_mapping_epoch page\<rparr>
              else c0)
     in c\<lparr>dpc_entries := (dpc_entries c)[direct_slot (dp_physical_page page) :=
           \<lparr>de_physical_page = dp_physical_page page, de_ptr = Some (dp_ptr page)\<rparr>]\<rparr>)"

definition direct_invalidate :: "'ptr direct_cache \<Rightarrow> 'ptr direct_cache" where
  "direct_invalidate c = \<lparr>dpc_entries = replicate (length (dpc_entries c)) direct_entry_default, dpc_mapping_epoch = 0\<rparr>"

definition direct_invalidate_range :: "u32 \<Rightarrow> u32 \<Rightarrow> 'ptr direct_cache \<Rightarrow> 'ptr direct_cache" where
  "direct_invalidate_range start stop c = c\<lparr>dpc_entries :=
     map (\<lambda>e. if start \<le> de_physical_page e \<and> de_physical_page e < stop then direct_entry_default else e) (dpc_entries c)\<rparr>"

section \<open>The prefetch window and the fetch pages\<close>

record 'seg prefetch_window =
  pw_bytes :: "u8 list"
  pw_cs :: 'seg
  pw_linear_base :: u32
  pw_physical_base :: u32
  pw_len :: u8

definition prefetch_invalidate :: "'seg prefetch_window \<Rightarrow> 'seg prefetch_window" where
  "prefetch_invalidate w = w\<lparr>pw_len := 0\<rparr>"

definition prefetch_get :: "'seg prefetch_window \<Rightarrow> 'seg \<Rightarrow> u32 \<Rightarrow> (u8 \<times> u32) option" where
  "prefetch_get w cs linear =
    (if pw_cs w \<noteq> cs then None
     else if linear < pw_linear_base w then None
     else (let offset = unat (linear - pw_linear_base w) in
           if offset < unat (pw_len w) then Some (pw_bytes w ! offset, pw_physical_base w + of_nat offset) else None))"

definition prefetch_overlaps :: "'seg prefetch_window \<Rightarrow> u32 \<Rightarrow> u32 \<Rightarrow> bool" where
  "prefetch_overlaps w physical width \<longleftrightarrow> pw_len w \<noteq> 0 \<and> width \<noteq> 0
    \<and> list_ex (\<lambda>a. a - physical < width) (span (pw_physical_base w) (unat (pw_len w)))"

definition FETCH_PAGE_CACHE_ENTRIES :: nat where
  "FETCH_PAGE_CACHE_ENTRIES = 4"

record ('seg, 'ptr) fetch_entry =
  fe_valid :: bool
  fe_cs :: 'seg
  fe_linear_page :: u32
  fe_physical_page :: u32
  fe_ptr :: 'ptr
  fe_len :: nat

definition fetch_slot :: "u32 \<Rightarrow> nat" where
  "fetch_slot linear = unat (drop_bit 12 linear) AND (FETCH_PAGE_CACHE_ENTRIES - 1)"

definition fetch_get :: "('ptr \<Rightarrow> nat \<Rightarrow> u8) \<Rightarrow> ('seg, 'ptr) fetch_entry list \<Rightarrow> 'seg \<Rightarrow> u32 \<Rightarrow> (u8 \<times> u32) option" where
  "fetch_get deref es cs linear =
    (let offset = unat (linear AND 0xfff); e = es ! fetch_slot linear in
     if fe_valid e \<and> fe_cs e = cs \<and> fe_linear_page e = linear AND NOT 0xfff \<and> offset < fe_len e
     then Some (deref (fe_ptr e) offset, fe_physical_page e + of_nat offset) else None)"

definition fetch_put :: "'seg \<Rightarrow> u32 \<Rightarrow> 'ptr direct_page \<Rightarrow> ('seg, 'ptr) fetch_entry list \<Rightarrow> ('seg, 'ptr) fetch_entry list" where
  "fetch_put cs linear page es = es[fetch_slot linear :=
     \<lparr>fe_valid = True, fe_cs = cs, fe_linear_page = linear AND NOT 0xfff, fe_physical_page = dp_physical_page page,
      fe_ptr = dp_ptr page, fe_len = dp_len page\<rparr>]"

definition fetch_invalidate :: "('seg, 'ptr) fetch_entry list \<Rightarrow> ('seg, 'ptr) fetch_entry list" where
  "fetch_invalidate es = map (\<lambda>e. e\<lparr>fe_valid := False\<rparr>) es"

section \<open>Both page caches keep the contract\<close>

lemma and_less_pow: "unat x AND (2 ^ k - 1) < (2 :: nat) ^ k"
  unfolding mask_eq_exp_minus_1 [symmetric] take_bit_eq_mask [symmetric] by (rule take_bit_nat_less_exp)

lemma direct_slot_less [simp]: "direct_slot p < DIRECT_PAGE_CACHE_LINES"
  using and_less_pow [of "drop_bit 12 p" 6] by (simp add: direct_slot_def DIRECT_PAGE_CACHE_LINES_def)

lemma fetch_slot_less [simp]: "fetch_slot p < FETCH_PAGE_CACHE_ENTRIES"
  using and_less_pow [of "drop_bit 12 p" 2] by (simp add: fetch_slot_def FETCH_PAGE_CACHE_ENTRIES_def)

text \<open>The host page recorded for a page address, with the mapping epoch it belongs to.\<close>

definition direct_lookup :: "'ptr direct_cache \<Rightarrow> u32 \<Rightarrow> ('ptr option \<times> nat) option" where
  "direct_lookup c page = (if page AND 0xfff = 0 then map_option (\<lambda>e. (de_ptr e, dpc_mapping_epoch c)) (direct_get c page) else None)"

definition direct_fill :: "u32 \<Rightarrow> 'ptr option \<times> nat \<Rightarrow> 'ptr direct_cache \<Rightarrow> 'ptr direct_cache" where
  "direct_fill page v c = (case v of (Some p, epoch) \<Rightarrow>
     direct_insert \<lparr>dp_physical_page = page, dp_ptr = p, dp_len = 4096, dp_mapping_epoch = epoch\<rparr> c | _ \<Rightarrow> c)"

lemma and_not_disjoint: "(a :: u32) AND m = 0 \<Longrightarrow> a AND NOT m = a"
  by (auto simp: bit_eq_iff bit_and_iff bit_not_iff)

lemmas page_aligned = and_not_disjoint [of _ "0xfff", simplified]

lemma minus_one_unaligned: "(- 1 :: u32) AND 0xfff \<noteq> 0"
  by simp

interpretation dpc: lossy_cache direct_lookup direct_fill direct_invalidate
  "\<lambda>c. length (dpc_entries c) = DIRECT_PAGE_CACHE_LINES" "\<lambda>page v. page AND 0xfff = 0 \<and> fst v \<noteq> None"
proof unfold_locales
  fix s :: "'a direct_cache" and k k' :: u32 and v v' :: "'a option \<times> nat"
  assume inv: "length (dpc_entries s) = DIRECT_PAGE_CACHE_LINES"
  show "direct_lookup (direct_invalidate s) k = None"
    using inv minus_one_unaligned
    by (auto simp: direct_lookup_def direct_get_def direct_invalidate_def direct_entry_default_def Let_def page_aligned)
  show "length (dpc_entries (direct_invalidate s)) = DIRECT_PAGE_CACHE_LINES"
    using inv by (simp add: direct_invalidate_def)
  show "length (dpc_entries (direct_fill k v s)) = DIRECT_PAGE_CACHE_LINES"
    using inv by (auto simp: direct_fill_def direct_insert_def Let_def split: prod.splits option.splits)
  assume adm: "k AND 0xfff = 0 \<and> fst v \<noteq> None"
  then obtain p n where v: "v = (Some p, n)" by (cases v) auto
  show "direct_lookup (direct_fill k v s) k = Some v"
    using inv adm by (simp add: v direct_lookup_def direct_fill_def direct_insert_def direct_get_def Let_def page_aligned)
  assume "k' \<noteq> k" and look: "direct_lookup (direct_fill k v s) k' = Some v'"
  then have al: "k' AND 0xfff = 0" by (simp add: direct_lookup_def split: if_splits)
  then have "k' \<noteq> - 1" using minus_one_unaligned by metis
  then show "direct_lookup s k' = Some v'"
    using look inv adm al \<open>k' \<noteq> k\<close>
    by (cases "direct_slot k' = direct_slot k")
      (auto simp: v direct_lookup_def direct_fill_def direct_insert_def direct_get_def direct_entry_default_def Let_def page_aligned split: if_splits)
qed

text \<open>The fetch cache, by code segment and linear page.\<close>

definition fetch_lookup :: "('seg, 'ptr) fetch_entry list \<Rightarrow> 'seg \<times> u32 \<Rightarrow> (u32 \<times> 'ptr \<times> nat) option" where
  "fetch_lookup es k = (let e = es ! fetch_slot (snd k) in
     if fe_valid e \<and> fe_cs e = fst k \<and> fe_linear_page e = snd k then Some (fe_physical_page e, fe_ptr e, fe_len e) else None)"

definition fetch_fill :: "'seg \<times> u32 \<Rightarrow> u32 \<times> 'ptr \<times> nat \<Rightarrow> ('seg, 'ptr) fetch_entry list \<Rightarrow> ('seg, 'ptr) fetch_entry list" where
  "fetch_fill k v es = (case v of (phys, p, n) \<Rightarrow>
     fetch_put (fst k) (snd k) \<lparr>dp_physical_page = phys, dp_ptr = p, dp_len = n, dp_mapping_epoch = 0\<rparr> es)"

interpretation fpc: lossy_cache fetch_lookup fetch_fill fetch_invalidate
  "\<lambda>es. length es = FETCH_PAGE_CACHE_ENTRIES" "\<lambda>k v. snd k AND 0xfff = 0"
proof unfold_locales
  fix s :: "('a, 'b) fetch_entry list" and k k' :: "'a \<times> u32" and v v' :: "u32 \<times> 'b \<times> nat"
  assume inv: "length s = FETCH_PAGE_CACHE_ENTRIES"
  show "fetch_lookup (fetch_invalidate s) k = None" "length (fetch_invalidate s) = FETCH_PAGE_CACHE_ENTRIES"
    "length (fetch_fill k v s) = FETCH_PAGE_CACHE_ENTRIES"
    using inv by (auto simp: fetch_lookup_def fetch_invalidate_def fetch_fill_def fetch_put_def Let_def split: prod.splits)
  assume adm: "snd k AND 0xfff = 0"
  show "fetch_lookup (fetch_fill k v s) k = Some v"
    using inv adm by (simp add: fetch_lookup_def fetch_fill_def fetch_put_def Let_def page_aligned split: prod.splits)
  assume "k' \<noteq> k" "fetch_lookup (fetch_fill k v s) k' = Some v'"
  then show "fetch_lookup s k' = Some v'"
    using inv adm
    by (cases "fetch_slot (snd k') = fetch_slot (snd k)")
      (auto simp: fetch_lookup_def fetch_fill_def fetch_put_def Let_def page_aligned prod_eq_iff split: prod.splits if_splits)
qed

lemma fetch_get_lookup:
  "fetch_get deref es cs linear = (case fetch_lookup es (cs, linear AND NOT 0xfff) of
     None \<Rightarrow> None
   | Some (phys, p, n) \<Rightarrow> if unat (linear AND 0xfff) < n
       then Some (deref p (unat (linear AND 0xfff)), phys + of_nat (unat (linear AND 0xfff))) else None)"
proof -
  have "drop_bit 12 (linear AND NOT 0xfff) = drop_bit 12 linear"
  proof (rule bit_word_eqI)
    have m: "(1048575 :: u32) = mask 20" by (simp add: mask_eq_exp_minus_1)
    have "bit (1048575 :: u32) n" if "bit linear (12 + n)" for n
      using bit_imp_le_length [OF that] unfolding m bit_mask_iff by simp
    then show "bit (drop_bit 12 (linear AND NOT 0xfff)) n \<longleftrightarrow> bit (drop_bit 12 linear) n" for n
      by (auto simp: bit_drop_bit_eq bit_and_iff bit_not_iff)
  qed
  then have "fetch_slot (linear AND NOT 0xfff) = fetch_slot linear" by (simp add: fetch_slot_def)
  then show ?thesis by (auto simp: fetch_get_def fetch_lookup_def Let_def)
qed

text \<open>
  What the two caches answer after any history of fills and flushes: a host page only under the
  mapping epoch and pointer last filled in for it, a fetch page only as last filled in for that code
  segment and linear page.
\<close>

lemma direct_cache_history:
  assumes "\<And>k v. Some (k, v) \<in> set ops \<Longrightarrow> k AND 0xfff = 0 \<and> fst v \<noteq> None"
    and "direct_lookup (dpc.run ops direct_cache_default) page = Some v"
  shows "dpc.track ops Map.empty page = Some v"
proof (rule dpc.run_sound [OF _ _ assms])
  show "Map.empty k = Some v" if "direct_lookup direct_cache_default k = Some v" for k and v :: "'a option \<times> nat"
    using that minus_one_unaligned
    by (auto simp: direct_lookup_def direct_get_def direct_cache_default_def direct_entry_default_def Let_def page_aligned split: if_splits)
qed (simp add: direct_cache_default_def)

end
