(* ===== verification/Paging.thy ===== *)
theory Paging
  imports Decode_Steps Tlb Page_Caches Memory
begin

text \<open>
  Address translation (\<open>translate_linear_checked\<close> in \<open>cpu/memory.rs\<close>) and the operations that move the
  mapping (\<open>MOV CR0\<close>, \<open>MOV CR3\<close>, \<open>INVLPG\<close>, the task switch, reported writes; \<open>cpu/core.rs\<close>), over the
  part of the processor they share: the translation buffer, the decode cache with its ring of page
  directories, the control registers, the fetch front end and the record of written pages.  The bus
  is a parameter, a dword read and a dword write; the performance counters are left out.
\<close>

section \<open>State\<close>

definition CR0_PG :: u32 where
  "CR0_PG = 0x80000000"

definition CR0_WP :: u32 where
  "CR0_WP = 0x00010000"

definition NO_LAST_WRITTEN_PAGE :: u32 where
  "NO_LAST_WRITTEN_PAGE = - 1"

datatype paging_accessor = Current | Supervisor

datatype internal_fault = BusFault bus_error | ExceptionFault u8 "u32 option"

record ('r, 'seg, 'ptr) mmu =
  m_tlb :: tlb
  m_decode :: "'r decode_cache"
  m_cr0 :: u32
  m_cr2 :: u32
  m_cr3 :: u32
  m_cpl :: u8
  m_code_page_valid :: bool
  m_prefetch :: "'seg prefetch_window"
  m_fetch_page :: "('seg, 'ptr) fetch_entry list"
  m_data_read_pages :: "'ptr direct_cache"
  m_data_write_pages :: "'ptr direct_cache"
  m_has_aperture_code :: bool
  m_written_pages :: "u32 option list"
  m_written_count :: nat
  m_written_overflow :: bool
  m_last_written_page :: u32

definition is_paging_enabled :: "('r, 'seg, 'ptr) mmu \<Rightarrow> bool" where
  "is_paging_enabled c \<longleftrightarrow> test (m_cr0 c) CR0_PG"

definition page_fault_code :: "bool \<Rightarrow> bool \<Rightarrow> bool \<Rightarrow> u32" where
  "page_fault_code present write user = of_bool present OR push_bit 1 (of_bool write) OR push_bit 2 (of_bool user)"

section \<open>Invalidation\<close>

definition record_write_page :: "u32 \<Rightarrow> ('r, 'seg, 'ptr) mmu \<Rightarrow> ('r, 'seg, 'ptr) mmu" where
  "record_write_page physical c =
    (let page = page_of physical in
     if m_last_written_page c = page then c
     else (let c = c\<lparr>m_last_written_page := page\<rparr> in
       if Some page \<in> set (m_written_pages c) then c
       else case position (\<lambda>s. s = None) (m_written_pages c) of
         Some i \<Rightarrow> c\<lparr>m_written_pages := (m_written_pages c)[i := Some page], m_written_count := m_written_count c + 1\<rparr>
       | None \<Rightarrow> c\<lparr>m_written_overflow := True\<rparr>))"

definition invalidate_fetch_frontend :: "('r, 'seg, 'ptr) mmu \<Rightarrow> ('r, 'seg, 'ptr) mmu" where
  "invalidate_fetch_frontend c = c\<lparr>m_code_page_valid := False, m_prefetch := prefetch_invalidate (m_prefetch c),
     m_fetch_page := fetch_invalidate (m_fetch_page c)\<rparr>"

definition invalidate_decode_frontend :: "bool \<Rightarrow> ('r, 'seg, 'ptr) mmu \<Rightarrow> ('r, 'seg, 'ptr) mmu" where
  "invalidate_decode_frontend clear_marks c = (let c = invalidate_fetch_frontend c in
     c\<lparr>m_decode := invalidate_and_clear_code_marks clear_marks (m_decode c), m_has_aperture_code := False\<rparr>)"

definition invalidate_code_caches :: "('r, 'seg, 'ptr) mmu \<Rightarrow> ('r, 'seg, 'ptr) mmu" where
  "invalidate_code_caches c = (let c = invalidate_decode_frontend False c in c\<lparr>m_tlb := retire_all_slots (m_tlb c)\<rparr>)"

definition invalidate_direct_pages :: "('r, 'seg, 'ptr) mmu \<Rightarrow> ('r, 'seg, 'ptr) mmu" where
  "invalidate_direct_pages c = c\<lparr>m_data_read_pages := direct_invalidate (m_data_read_pages c),
     m_data_write_pages := direct_invalidate (m_data_write_pages c), m_fetch_page := fetch_invalidate (m_fetch_page c)\<rparr>"

definition note_a20_changed :: "('r, 'seg, 'ptr) mmu \<Rightarrow> ('r, 'seg, 'ptr) mmu" where
  "note_a20_changed c = invalidate_direct_pages (invalidate_code_caches c)"

definition note_code_write :: "u32 \<Rightarrow> u32 \<Rightarrow> ('r, 'seg, 'ptr) mmu \<Rightarrow> bool \<times> ('r, 'seg, 'ptr) mmu" where
  "note_code_write physical width c0 =
    (let hit_page = range_hits_translation_page (m_decode c0) physical width;
         c1 = (if hit_page
               then c0\<lparr>m_decode := invalidate_and_clear_code_marks False (m_decode c0),
                       m_tlb := retire_all_slots (m_tlb c0), m_has_aperture_code := False,
                       m_fetch_page := fetch_invalidate (m_fetch_page c0)\<rparr>
               else c0);
         hit_code = range_hits_code (m_decode c1) physical width;
         c2 = (if hit_code
               then (case narrow_invalidate_write physical width (m_decode c1) of
                       (Some kills, dc) \<Rightarrow> c1\<lparr>m_decode := dc, m_fetch_page := fetch_invalidate (m_fetch_page c1)\<rparr>
                     | (None, dc) \<Rightarrow> c1\<lparr>m_decode := invalidate_and_clear_code_marks False dc,
                         m_tlb := retire_all_slots (m_tlb c1), m_has_aperture_code := False,
                         m_fetch_page := fetch_invalidate (m_fetch_page c1)\<rparr>)
               else c1)
     in (hit_page \<or> hit_code, c2))"

definition note_device_memory_write_range :: "u32 \<Rightarrow> u32 \<Rightarrow> ('r, 'seg, 'ptr) mmu \<Rightarrow> ('r, 'seg, 'ptr) mmu" where
  "note_device_memory_write_range physical width c =
    (if width = 0 then c
     else (let prefetch_hit = prefetch_overlaps (m_prefetch c) physical width;
               c1 = snd (note_code_write physical width c)
           in if prefetch_hit then c1\<lparr>m_prefetch := prefetch_invalidate (m_prefetch c1)\<rparr> else c1))"

definition mark_translation_page :: "u32 \<Rightarrow> ('r, 'seg, 'ptr) mmu \<Rightarrow> ('r, 'seg, 'ptr) mmu" where
  "mark_translation_page physical c = c\<lparr>m_decode := snd (dc_mark_translation_page physical (m_decode c))\<rparr>"

section \<open>Control registers\<close>

text \<open>\<open>flush_tlb_and_code_caches\<close>; its reason only selects a counter.\<close>

definition flush_tlb_and_code_caches :: "('r, 'seg, 'ptr) mmu \<Rightarrow> ('r, 'seg, 'ptr) mmu" where
  "flush_tlb_and_code_caches c = (let c = invalidate_decode_frontend True c in c\<lparr>m_tlb := retire_all_slots (m_tlb c)\<rparr>)"

text \<open>\<open>MOV CR3\<close>; a slot out of range would panic.\<close>

definition cr3_write :: "u32 \<Rightarrow> ('r, 'seg, 'ptr) mmu \<Rightarrow> ('r, 'seg, 'ptr) mmu option" where
  "cr3_write new_cr3 c0 =
    (let old_masked = m_cr3 c0 AND 0xfffff000;
         c = invalidate_fetch_frontend (c0\<lparr>m_cr3 := new_cr3\<rparr>);
         new_masked = new_cr3 AND 0xfffff000;
         (sel, dc) = select_context old_masked new_masked (m_decode c);
         c = c\<lparr>m_decode := dc\<rparr>
     in case sel of
          Reselected slot \<Rightarrow> map_option (\<lambda>t. c\<lparr>m_tlb := t\<rparr>) (select_generation slot (m_tlb c))
        | Allocated slot \<Rightarrow> map_option (\<lambda>t. c\<lparr>m_tlb := t\<rparr>) (tlb_allocate_generation slot (m_tlb c))
        | Taken slot \<Rightarrow> map_option (\<lambda>t. c\<lparr>m_has_aperture_code := False, m_tlb := t\<rparr>)
            (tlb_allocate_generation slot (retire_all_slots (m_tlb c))))"

definition flush_tlb_keep_code_caches :: "u32 \<Rightarrow> ('r, 'seg, 'ptr) mmu \<Rightarrow> ('r, 'seg, 'ptr) mmu" where
  "flush_tlb_keep_code_caches new_cr0 c =
    invalidate_fetch_frontend (if test new_cr0 CR0_PG then c\<lparr>m_tlb := flush_live_slot (m_tlb c)\<rparr> else c)"

definition cr0_write_moves_code_translation :: "u32 \<Rightarrow> u32 \<Rightarrow> bool" where
  "cr0_write_moves_code_translation old new =
    (let delta = old XOR new in test delta CR0_PG \<or> (test new CR0_PG \<and> test delta CR0_WP))"

text \<open>\<open>MOV CR0\<close>: the register is assigned and \<open>flush_tlb_for_cr0_write\<close> runs.\<close>

definition flush_tlb_for_cr0_write :: "u32 \<Rightarrow> u32 \<Rightarrow> ('r, 'seg, 'ptr) mmu \<Rightarrow> ('r, 'seg, 'ptr) mmu" where
  "flush_tlb_for_cr0_write old_cr0 new_cr0 c =
    (if cr0_write_moves_code_translation old_cr0 new_cr0 then flush_tlb_and_code_caches c
     else flush_tlb_keep_code_caches new_cr0 c)"

definition cr0_write :: "u32 \<Rightarrow> ('r, 'seg, 'ptr) mmu \<Rightarrow> ('r, 'seg, 'ptr) mmu" where
  "cr0_write value c = flush_tlb_for_cr0_write (m_cr0 c) value (c\<lparr>m_cr0 := value\<rparr>)"

text \<open>The CR3 reload of a task switch (\<open>load_task_state\<close> under paging).\<close>

definition task_cr3_load :: "u32 \<Rightarrow> ('r, 'seg, 'ptr) mmu \<Rightarrow> ('r, 'seg, 'ptr) mmu" where
  "task_cr3_load value c = (if test (m_cr0 c) CR0_PG then flush_tlb_and_code_caches (c\<lparr>m_cr3 := value\<rparr>) else c)"

definition apply_invlpg :: "u32 \<Rightarrow> ('r, 'seg, 'ptr) mmu \<Rightarrow> ('r, 'seg, 'ptr) mmu" where
  "apply_invlpg linear c =
    invalidate_decode_frontend False
      (c\<lparr>m_tlb := retire_dormant_slot (tlb_invalidate (page_of linear) (m_tlb c)),
         m_data_read_pages := direct_invalidate (m_data_read_pages c),
         m_data_write_pages := direct_invalidate (m_data_write_pages c)\<rparr>)"

section \<open>Translation\<close>

type_synonym 'b dword_read = "'b \<Rightarrow> u32 \<Rightarrow> (bus_error + u32) \<times> 'b"
type_synonym 'b dword_write = "'b \<Rightarrow> u32 \<Rightarrow> u32 \<Rightarrow> (bus_error + unit) \<times> 'b"

definition write_page_walk_entry ::
  "'b dword_write \<Rightarrow> u32 \<Rightarrow> u32 \<Rightarrow> ('r, 'seg, 'ptr) mmu \<Rightarrow> 'b \<Rightarrow> (internal_fault + unit) \<times> ('r, 'seg, 'ptr) mmu \<times> 'b" where
  "write_page_walk_entry wr physical value c b =
    (case wr b physical value of
       (Inl e, b') \<Rightarrow> (Inl (BusFault e), c, b')
     | (Inr _, b') \<Rightarrow> (Inr (), snd (note_code_write physical 4 (record_write_page physical c)), b'))"

definition page_fault :: "u32 \<Rightarrow> u32 \<Rightarrow> ('r, 'seg, 'ptr) mmu \<Rightarrow> 'b \<Rightarrow> (internal_fault + u32) \<times> ('r, 'seg, 'ptr) mmu \<times> 'b" where
  "page_fault linear code c b = (Inl (ExceptionFault 14 (Some code)), c\<lparr>m_cr2 := linear\<rparr>, b)"

text \<open>A store of the accessed (and dirty) bits, when they are not set yet.\<close>

definition set_entry_bits ::
  "'b dword_write \<Rightarrow> u32 \<Rightarrow> u32 \<Rightarrow> u32 \<Rightarrow> ('r, 'seg, 'ptr) mmu \<Rightarrow> 'b \<Rightarrow> (internal_fault + u32) \<times> ('r, 'seg, 'ptr) mmu \<times> 'b" where
  "set_entry_bits wr address entry bits c b =
    (if entry AND bits \<noteq> bits
     then (case write_page_walk_entry wr address (entry OR bits) c b of
             (Inl e, c', b') \<Rightarrow> (Inl e, c', b')
           | (Inr _, c', b') \<Rightarrow> (Inr (entry OR bits), c', b'))
     else (Inr entry, c, b))"

definition directory_address :: "u32 \<Rightarrow> u32 \<Rightarrow> u32" where
  "directory_address cr3 linear = (cr3 AND 0xfffff000) + (drop_bit 22 linear AND 0x3ff) * 4"

definition table_address :: "u32 \<Rightarrow> u32 \<Rightarrow> u32" where
  "table_address pde linear = (pde AND 0xfffff000) + (drop_bit 12 linear AND 0x3ff) * 4"

text \<open>The second level of the walk: table entry, protection, dirty bit, and the new TLB entry.\<close>

definition walk_table ::
  "'b dword_read \<Rightarrow> 'b dword_write \<Rightarrow> u32 \<Rightarrow> bool \<Rightarrow> bool \<Rightarrow> u32 \<Rightarrow> ('r, 'seg, 'ptr) mmu \<Rightarrow> 'b
    \<Rightarrow> (internal_fault + u32) \<times> ('r, 'seg, 'ptr) mmu \<times> 'b" where
  "walk_table rd wr linear write user pde c b =
    (case rd b (table_address pde linear) of
       (Inl e, b) \<Rightarrow> (Inl (BusFault e), c, b)
     | (Inr pte, b) \<Rightarrow>
       if \<not> test pte 1 then page_fault linear (page_fault_code False write user) c b
       else
         (let writable = test (pde AND pte) 2; user_accessible = test (pde AND pte) 4;
              wp = test (m_cr0 c) CR0_WP;
              protection_fault = (if user then \<not> user_accessible \<or> (write \<and> \<not> writable) else write \<and> wp \<and> \<not> writable)
          in if protection_fault then page_fault linear (page_fault_code True write user) c b
             else (case set_entry_bits wr (table_address pde linear) pte (if write then 0x60 else 0x20) c b of
                 (Inl e, c, b) \<Rightarrow> (Inl e, c, b)
               | (Inr pte, c, b) \<Rightarrow>
                 (let c = (if \<not> test pde 0x80 then mark_translation_page (pde AND 0xfffff000) c else c);
                      physical_page = pte AND 0xfffff000;
                      c = c\<lparr>m_tlb := snd (tlb_insert (page_of linear) physical_page writable user_accessible (test pte 0x40) (m_tlb c))\<rparr>;
                      physical = physical_page OR (linear AND 0xfff);
                      c = (if write then record_write_page physical c else c)
                  in (Inr physical, c, b)))))"

definition page_walk ::
  "'b dword_read \<Rightarrow> 'b dword_write \<Rightarrow> u32 \<Rightarrow> bool \<Rightarrow> bool \<Rightarrow> ('r, 'seg, 'ptr) mmu \<Rightarrow> 'b
    \<Rightarrow> (internal_fault + u32) \<times> ('r, 'seg, 'ptr) mmu \<times> 'b" where
  "page_walk rd wr linear write user c b =
    (case rd b (directory_address (m_cr3 c) linear) of
       (Inl e, b) \<Rightarrow> (Inl (BusFault e), c, b)
     | (Inr pde, b) \<Rightarrow>
       if \<not> test pde 1 then page_fault linear (page_fault_code False write user) c b
       else (case set_entry_bits wr (directory_address (m_cr3 c) linear) pde 0x20 c b of
             (Inl e, c, b) \<Rightarrow> (Inl e, c, b)
           | (Inr pde, c, b) \<Rightarrow>
             walk_table rd wr linear write user pde (mark_translation_page (m_cr3 c AND 0xfffff000) c) b))"

definition tlb_permits :: "u32 \<Rightarrow> bool \<Rightarrow> bool \<Rightarrow> tlb_entry \<Rightarrow> bool" where
  "tlb_permits cr0 write user e \<longleftrightarrow>
    (if user then te_user e \<and> (\<not> write \<or> te_writable e) else \<not> write \<or> \<not> test cr0 CR0_WP \<or> te_writable e)
    \<and> (\<not> write \<or> te_dirty e)"

definition translate_linear_checked ::
  "'b dword_read \<Rightarrow> 'b dword_write \<Rightarrow> u32 \<Rightarrow> bool \<Rightarrow> paging_accessor \<Rightarrow> ('r, 'seg, 'ptr) mmu \<Rightarrow> 'b
    \<Rightarrow> (internal_fault + u32) \<times> ('r, 'seg, 'ptr) mmu \<times> 'b" where
  "translate_linear_checked rd wr linear write accessor c b =
    (if \<not> is_paging_enabled c then (Inr linear, (if write then record_write_page linear c else c), b)
     else
       (let user = (case accessor of Current \<Rightarrow> m_cpl c = 3 | Supervisor \<Rightarrow> False) in
        case tlb_lookup (m_tlb c) (page_of linear) of
          Some e \<Rightarrow>
            if tlb_permits (m_cr0 c) write user e
            then (let physical = te_phys e OR (linear AND 0xfff)
                  in (Inr physical, (if write then record_write_page physical c else c), b))
            else page_walk rd wr linear write user c b
        | None \<Rightarrow> page_walk rd wr linear write user c b))"

definition translate_linear where
  "translate_linear rd wr linear write c b = translate_linear_checked rd wr linear write Current c b"

definition translate_linear_system where
  "translate_linear_system rd wr linear write c b = translate_linear_checked rd wr linear write Supervisor c b"

end
