(* ===== verification/Paging_Bus.thy ===== *)
theory Paging_Bus
  imports Paging
begin

text \<open>
  What a page walk relies on of the bus: dword reads and writes of one byte memory, as a contract
  that the guest memory of \<open>bus/lib.rs\<close> fulfils, with the facts on aligned dwords and on the bits of
  page-table entries that the proofs about translation share.
\<close>

section \<open>Dwords in byte memory\<close>

definition dword :: "(u32 \<Rightarrow> u8) \<Rightarrow> u32 \<Rightarrow> u32" where
  "dword m a = of_nat (from_le (map m (span a 4)))"

definition store_dword :: "u32 \<Rightarrow> u32 \<Rightarrow> (u32 \<Rightarrow> u8) \<Rightarrow> (u32 \<Rightarrow> u8)" where
  "store_dword a v m = (\<lambda>x. if x \<in> set (span a 4) then le_bytes 4 (unat v) ! unat (x - a) else m x)"

definition aligned :: "u32 \<Rightarrow> bool" where
  "aligned a \<longleftrightarrow> unat a mod 4 = 0"

lemma dword_cong: "(\<And>x. x \<in> set (span a 4) \<Longrightarrow> m' x = m x) \<Longrightarrow> dword m' a = dword m a"
  unfolding dword_def by (metis (mono_tags, lifting) map_eq_conv)

lemma dword_store_same: "dword (store_dword a v m) a = v"
proof -
  have "map (store_dword a v m) (span a 4) = le_bytes 4 (unat v)"
  proof (rule nth_equalityI)
    fix i assume "i < length (map (store_dword a v m) (span a 4))"
    then have i: "i < 4" by simp
    have "unat (of_nat i :: u32) = i" using i by (simp add: unat_of_nat)
    then show "map (store_dword a v m) (span a 4) ! i = le_bytes 4 (unat v) ! i"
      using i by (auto simp: store_dword_def span_def)
  qed simp
  moreover have "unat v < 256 ^ 4" using unat_lt32 [of v] by simp
  ultimately show ?thesis by (simp add: dword_def from_le_le_bytes del: le_bytes.simps)
qed

lemma aligned_span:
  assumes "aligned a"
  shows "x \<in> set (span a 4) \<longleftrightarrow> unat x div 4 = unat a div 4"
proof -
  have a: "4 * (unat a div 4) = unat a" using assms by (auto simp: aligned_def)
  have "unat a div 4 < 1073741824" using unat_lt32 [of a] by (simp add: div_less_iff_less_mult)
  then have top: "unat a + 4 \<le> 4294967296" using a by linarith
  show ?thesis
  proof
    assume "x \<in> set (span a 4)"
    then have "unat a \<le> unat x" "unat x < unat a + 4" using set_span_fits [OF top] by auto
    then show "unat x div 4 = unat a div 4" using a by (intro div_nat_eqI) simp_all
  next
    assume e: "unat x div 4 = unat a div 4"
    have x: "unat x = 4 * (unat x div 4) + unat x mod 4" by simp
    have "unat x mod 4 < 4" by simp
    then show "x \<in> set (span a 4)" unfolding set_span_fits [OF top] using x a e by linarith
  qed
qed

lemma aligned_page: "aligned a \<Longrightarrow> x \<in> set (span a 4) \<Longrightarrow> page_of x = page_of a"
proof -
  assume "aligned a" "x \<in> set (span a 4)"
  then have "unat x div 4 div 1024 = unat a div 4 div 1024" using aligned_span by simp
  then show ?thesis by (simp add: page_of_eq_iff flip: div_mult2_eq)
qed

lemma dword_store_other:
  assumes "aligned a" and "aligned a'" and "a \<noteq> a'"
  shows "dword (store_dword a v m) a' = dword m a'"
proof (rule dword_cong)
  fix x assume "x \<in> set (span a' 4)"
  then have x: "unat x div 4 = unat a' div 4" using aligned_span [OF assms(2)] by simp
  have "unat a div 4 \<noteq> unat a' div 4"
    using assms unfolding aligned_def by (metis div_mult_mod_eq add.right_neutral word_unat_eq_iff)
  then have "x \<notin> set (span a 4)" using x aligned_span [OF assms(1)] by simp
  then show "store_dword a v m x = m x" by (simp add: store_dword_def)
qed

section \<open>The contract\<close>

text \<open>
  \<open>peek\<close> is the byte memory behind the bus, \<open>acc\<close> the dwords that can be accessed; both survive reads,
  and \<open>acc\<close> also writes.
\<close>

locale walk_bus =
  fixes rd :: "'b dword_read" and wr :: "'b dword_write" and peek :: "'b \<Rightarrow> u32 \<Rightarrow> u8" and acc :: "'b \<Rightarrow> u32 \<Rightarrow> bool"
  assumes rd_ok: "acc b a \<Longrightarrow> aligned a \<Longrightarrow> rd b a = (v, b') \<Longrightarrow> v = Inr (dword (peek b) a) \<and> peek b' = peek b \<and> acc b' = acc b"
    and rd_err: "\<not> acc b a \<Longrightarrow> aligned a \<Longrightarrow> rd b a = (v, b') \<Longrightarrow> (\<exists>e. v = Inl e) \<and> peek b' = peek b \<and> acc b' = acc b"
    and wr_ok: "acc b a \<Longrightarrow> aligned a \<Longrightarrow> wr b a x = (w, b') \<Longrightarrow>
      w = Inr () \<and> peek b' = store_dword a x (peek b) \<and> acc b' = acc b"

section \<open>Guest memory fulfils it\<close>

definition ram_read :: "memory dword_read" where
  "ram_read m a = (mem_read_u32 m (unat a), m)"

definition ram_write :: "memory dword_write" where
  "ram_write m a v = mem_write_u32 m (unat a) v"

definition ram_peek :: "memory \<Rightarrow> u32 \<Rightarrow> u8" where
  "ram_peek m a = (if unat a < length m then m ! unat a else 0)"

definition ram_acc :: "memory \<Rightarrow> u32 \<Rightarrow> bool" where
  "ram_acc m a \<longleftrightarrow> unat a + 4 \<le> length m"

lemma unat_span4: "aligned a \<Longrightarrow> i < 4 \<Longrightarrow> unat (a + of_nat i) = unat a + i"
proof -
  assume a: "aligned a" and i: "i < 4"
  have "4 * (unat a div 4) = unat a" using a by (auto simp: aligned_def)
  moreover have "unat a div 4 < 1073741824" using unat_lt32 [of a] by (simp add: div_less_iff_less_mult)
  ultimately have "unat a + i < 4294967296" using i by linarith
  then show ?thesis by (rule unat_add_nat)
qed

lemma span4: "span a 4 = [a, a + 1, a + 2, a + 3]"
  by (simp add: span_def upt_rec)

lemma unat_span4s: "aligned a \<Longrightarrow> unat (a + 1) = unat a + 1 \<and> unat (a + 2) = unat a + 2 \<and> unat (a + 3) = unat a + 3"
  using unat_span4 [of a 1] unat_span4 [of a 2] unat_span4 [of a 3] by simp

interpretation ram: walk_bus ram_read ram_write ram_peek ram_acc
proof unfold_locales
  fix b :: memory and a v b'
  assume al: "aligned a" and run: "ram_read b a = (v, b')"
  note u = unat_span4s [OF al]
  show "v = Inr (dword (ram_peek b) a) \<and> ram_peek b' = ram_peek b \<and> ram_acc b' = ram_acc b" if "ram_acc b a"
    using that run u by (auto simp: ram_acc_def ram_read_def mem_read_u32_def mem_read_u8_def bindE_def dword_def span4 ram_peek_def)
  show "(\<exists>e. v = Inl e) \<and> ram_peek b' = ram_peek b \<and> ram_acc b' = ram_acc b" if "\<not> ram_acc b a"
    using that run u by (auto simp: ram_acc_def ram_read_def mem_read_u32_def mem_read_u8_def bindE_def not_le)
next
  fix b :: memory and a x v b'
  assume ac: "ram_acc b a" and al: "aligned a" and run: "ram_write b a x = (v, b')"
  have fit: "unat a + length (le_bytes 4 (unat x)) \<le> length b" using ac by (simp add: ram_acc_def)
  have w: "mem_write_bytes b (unat a) (le_bytes 4 (unat x)) = (v, b')" using run by (simp add: ram_write_def mem_write_u32_def)
  have ok: "v = Inr ()" "length b' = length b" using mem_write_bytes_fits [OF fit] w by simp_all
  have "ram_peek b' y = store_dword a x (ram_peek b) y" for y
  proof -
    have n: "b' ! unat y = (if unat a \<le> unat y \<and> unat y < unat a + 4 then le_bytes 4 (unat x) ! (unat y - unat a) else b ! unat y)"
      if "unat y < length b" using mem_read_after_write [OF fit that] w by (simp del: le_bytes.simps)
    have s: "y \<in> set (span a 4) \<longleftrightarrow> unat a \<le> unat y \<and> unat y < unat a + 4"
      using set_span_fits [of a 4 y] unat_span4s [OF al] unat_lt32 [of "a + 3"] by simp
    have d: "unat (y - a) = unat y - unat a" if "unat a \<le> unat y" using that by (intro unat_sub) (simp add: word_le_nat_alt)
    show ?thesis
      using n s d ok(2) ac by (auto simp: ram_peek_def store_dword_def ram_acc_def simp del: le_bytes.simps)
  qed
  then show "v = Inr () \<and> ram_peek b' = store_dword a x (ram_peek b) \<and> ram_acc b' = ram_acc b"
    using ok by (auto simp: ram_acc_def fun_eq_iff)
qed

end
