(* ===== verification/Paging_Coherence.thy ===== *)
theory Paging_Coherence
  imports Paging_Bus
begin

text \<open>
  The invariant behind translation: every entry the TLB can serve, now or after a switch back to the
  other page directory of the ring, agrees with the page tables in memory, because the pages those
  tables live in are watched and a reported write to a watched page retires both slots.
\<close>

section \<open>Addresses of page-table entries\<close>

lemma mask_page: "(x :: u32) AND 0xfffff000 = push_bit 12 (page_of x)"
proof -
  have m: "(0xfffff000 :: u32) = NOT (mask 12)" by (simp add: mask_eq_exp_minus_1)
  show ?thesis
    unfolding m by (rule bit_word_eqI) (auto simp: bit_and_iff bit_not_iff bit_mask_iff bit_push_bit_iff page_of_def bit_drop_bit_eq)
qed

lemma unat_mask_page: "unat ((x :: u32) AND 0xfffff000) = unat x div 4096 * 4096"
  using unat_join [of x 0] by (simp add: mask_page)

lemma unat_index: "unat ((x :: u32) AND 0x3ff) < 1024"
proof -
  have "x AND 0x3ff = take_bit 10 x" by (simp add: take_bit_eq_mask mask_eq_exp_minus_1)
  then have "unat (x AND 0x3ff) = take_bit 10 (unat x)" by (simp only: unsigned_take_bit_eq)
  then show ?thesis by (simp add: take_bit_eq_mod)
qed

lemma entry_address:
  fixes x i :: u32
  assumes "unat i < 1024"
  shows "unat ((x AND 0xfffff000) + i * 4) = unat x div 4096 * 4096 + 4 * unat i"
proof -
  have "unat (i * 4) = 4 * unat i" using assms by (simp add: unat_word_ariths)
  moreover have "unat x div 4096 * 4096 + 4 * unat i < 4294967296"
    using page_of_lt [of x] assms unfolding unat_page_of by linarith
  ultimately show ?thesis by (subst unat_add_fits) (simp_all add: unat_mask_page)
qed

lemma entry_address_facts:
  fixes x i :: u32
  assumes "unat i < 1024"
  shows "aligned ((x AND 0xfffff000) + i * 4)" and "page_of ((x AND 0xfffff000) + i * 4) = page_of x"
proof -
  show "aligned ((x AND 0xfffff000) + i * 4)"
  proof -
    have "unat x div 4096 * 4096 + 4 * unat i = 4 * (unat x div 4096 * 1024 + unat i)" by simp
    then show ?thesis unfolding aligned_def entry_address [OF assms] by (metis mod_mult_self1_is_0)
  qed
  have "(unat x div 4096 * 4096 + 4 * unat i) div 4096 = unat x div 4096"
    using assms by (intro div_nat_eqI) simp_all
  then show "page_of ((x AND 0xfffff000) + i * 4) = page_of x"
    unfolding page_of_eq_iff entry_address [OF assms] .
qed

lemma directory_address_facts [simp]:
  "aligned (directory_address cr3 linear)" "page_of (directory_address cr3 linear) = page_of cr3"
  unfolding directory_address_def by (rule entry_address_facts [OF unat_index])+

lemma table_address_facts [simp]:
  "aligned (table_address pde linear)" "page_of (table_address pde linear) = page_of pde"
  unfolding table_address_def by (rule entry_address_facts [OF unat_index])+

lemma directory_address_masked [simp]: "directory_address (cr3 AND 0xfffff000) linear = directory_address cr3 linear"
  by (simp add: directory_address_def and.assoc)

text \<open>The walk of a linear address depends on its page only.\<close>

definition page_base :: "u32 \<Rightarrow> u32" where
  "page_base page = push_bit 12 page"

lemma walk_page_base:
  "directory_address cr3 (page_base (page_of linear)) = directory_address cr3 linear"
  "table_address pde (page_base (page_of linear)) = table_address pde linear"
proof -
  have "drop_bit 22 (page_base (page_of linear)) = drop_bit 22 linear"
    by (rule bit_word_eqI) (auto simp: page_base_def page_of_def bit_simps dest: bit_imp_le_length)
  moreover have "drop_bit 12 (page_base (page_of linear)) = drop_bit 12 linear"
    by (rule bit_word_eqI) (auto simp: page_base_def page_of_def bit_simps dest: bit_imp_le_length)
  ultimately show "directory_address cr3 (page_base (page_of linear)) = directory_address cr3 linear"
    "table_address pde (page_base (page_of linear)) = table_address pde linear"
    by (simp_all add: directory_address_def table_address_def)
qed

section \<open>Entries that agree with the tables\<close>

definition entry_current :: "(u32 \<Rightarrow> u8) \<Rightarrow> (u32 \<Rightarrow> bool) \<Rightarrow> (u32 \<Rightarrow> bool) \<Rightarrow> u32 \<Rightarrow> tlb_entry \<Rightarrow> bool" where
  "entry_current m ac marked dir e \<longleftrightarrow>
    (let lin = page_base (te_tag e); da = directory_address dir lin; pde = dword m da;
         ta = table_address pde lin; pte = dword m ta
     in ac da \<and> test pde 1 \<and> test pde 0x20 \<and> marked (page_of da)
        \<and> (test pde 0x80 \<or>
            (ac ta \<and> test pte 1 \<and> test pte 0x20 \<and> te_phys e = pte AND 0xfffff000
             \<and> te_writable e = test (pde AND pte) 2 \<and> te_user e = test (pde AND pte) 4
             \<and> (te_dirty e \<longrightarrow> test pte 0x40) \<and> marked (page_of ta))))"

lemma entry_current_frame:
  assumes "entry_current m ac mk dir e" and "\<And>p. mk p \<Longrightarrow> mk' p" and "\<And>a. ac a \<Longrightarrow> ac' a"
    and "\<And>a. aligned a \<Longrightarrow> mk (page_of a) \<Longrightarrow> dword m' a = dword m a"
  shows "entry_current m' ac' mk' dir e"
proof -
  let ?lin = "page_base (te_tag e)" and ?da = "directory_address dir (page_base (te_tag e))"
  have da: "dword m' ?da = dword m ?da" using assms(1,4) by (simp add: entry_current_def Let_def)
  have ta: "dword m' (table_address (dword m ?da) ?lin) = dword m (table_address (dword m ?da) ?lin)" if "\<not> test (dword m ?da) 0x80"
    using assms(1,4) that by (simp add: entry_current_def Let_def)
  show ?thesis
    using assms(1-3) da ta by (auto simp: entry_current_def Let_def)
qed

section \<open>The invariant\<close>

definition watched :: "'r decode_cache \<Rightarrow> u32 \<Rightarrow> bool" where
  "watched dc p = bitmap_get (translation_pages dc) p"

definition slot_dir :: "tlb \<Rightarrow> 'r decode_cache \<Rightarrow> u32 \<Rightarrow> nat \<Rightarrow> u32 \<Rightarrow> bool" where
  "slot_dir t dc cr3 s dir \<longleftrightarrow> (s = tlb_live t \<and> dir = cr3 AND 0xfffff000) \<or> (\<exists>g. contexts dc ! s = Some (dir, g))"

definition paging_ok :: "(u32 \<Rightarrow> u8) \<Rightarrow> (u32 \<Rightarrow> bool) \<Rightarrow> tlb \<Rightarrow> 'r decode_cache \<Rightarrow> u32 \<Rightarrow> bool" where
  "paging_ok m ac t dc cr3 \<longleftrightarrow> tlb_ok t \<and> dc_ok dc \<and> (\<not> ring_seeded dc \<longrightarrow> tlb_live t = 0)
    \<and> (\<forall>dir g. contexts dc ! tlb_live t = Some (dir, g) \<longrightarrow> dir = cr3 AND 0xfffff000)
    \<and> (\<forall>s < 2. \<forall>e dir. serves t s e \<longrightarrow> slot_dir t dc cr3 s dir \<longrightarrow> entry_current m ac (watched dc) dir e)"

text \<open>Nothing to check once both slots are retired and the ring is empty.\<close>

lemma paging_ok_retired:
  assumes "tlb_ok t" and "dc_ok dc" and "tlb_live t = 0" and "contexts dc = [None, None]"
    and "\<And>s e. s < 2 \<Longrightarrow> \<not> serves t s e"
  shows "paging_ok m ac t dc cr3"
  using assms by (simp add: paging_ok_def)

lemma paging_ok_frame:
  assumes ok: "paging_ok m ac t dc cr3" and t': "tlb_ok t'" "tlb_live t' = tlb_live t"
    and dc': "dc_ok dc'" "contexts dc' = contexts dc" "ring_seeded dc' = ring_seeded dc"
    and mem: "\<And>p. watched dc p \<Longrightarrow> watched dc' p" "\<And>a. ac a \<Longrightarrow> ac' a"
      "\<And>a. aligned a \<Longrightarrow> watched dc (page_of a) \<Longrightarrow> dword m' a = dword m a"
    and new: "\<And>s e dir. s < 2 \<Longrightarrow> serves t' s e \<Longrightarrow> \<not> serves t s e \<Longrightarrow> slot_dir t dc cr3 s dir \<Longrightarrow> entry_current m' ac' (watched dc') dir e"
  shows "paging_ok m' ac' t' dc' cr3"
proof -
  have "entry_current m' ac' (watched dc') dir e"
    if s: "s < 2" "serves t' s e" "slot_dir t' dc' cr3 s dir" for s e dir
  proof -
    have d: "slot_dir t dc cr3 s dir" using s(3) t'(2) dc'(2) by (simp add: slot_dir_def)
    show ?thesis
    proof (cases "serves t s e")
      case True
      then have "entry_current m ac (watched dc) dir e" using ok s(1) d by (simp add: paging_ok_def)
      then show ?thesis using mem by (rule entry_current_frame)
    next
      case False
      then show ?thesis using new s d by blast
    qed
  qed
  then show ?thesis using ok t' dc' by (simp add: paging_ok_def)
qed

section \<open>Reported writes\<close>

lemma invalidate_frame:
  "translation_pages (invalidate_and_clear_code_marks False dc) = translation_pages dc"
  "ring_seeded (invalidate_and_clear_code_marks c dc) = ring_seeded dc"
  by (simp_all add: invalidate_and_clear_code_marks_def allocate_generation_def retire_ring_def clear_lines_def Let_def)

lemma untouched_pages:
  assumes "\<not> range_hits_translation_page dc p w" and "unat p + unat w \<le> 4294967296" and "b \<in> set (span p (unat w))"
  shows "\<not> watched dc (page_of b)"
proof -
  have b: "unat p \<le> unat b" "unat b < unat p + unat w" using assms(3) set_span_fits [OF assms(2)] by auto
  then have "unat (sat_sub32 w 1) = unat w - 1" by (simp add: unat_sat_sub32)
  then have top: "unat (p + sat_sub32 w 1) = unat p + (unat w - 1)" using b assms(2) by (subst unat_add_fits) simp_all
  have "page_of b \<in> set (range_incl (page_of p) (page_of (p + sat_sub32 w 1)))"
    unfolding set_range_incl word_le_nat_alt unat_page_of top using b by (auto intro!: div_le_mono)
  then show ?thesis
    using assms(1) by (auto simp: range_hits_translation_page_def list_ex_iff watched_def translation_page_is_watched_def)
qed

text \<open>
  A reported write either leaves the TLB and the ring alone, and then it touched no watched page, or
  it retires both slots with the ring.
\<close>

lemma note_code_write_cases:
  assumes ok: "dc_ok (m_decode c)" and tok: "tlb_ok (m_tlb c)" and room: "tlb_room (k + 4) (m_tlb c)"
    and fits: "unat p + unat w \<le> 4294967296" and run: "note_code_write p w c = (hit, c')"
  shows "m_decode c' = note_write_lines p w (m_decode c)"
    and "translation_pages (m_decode c') = translation_pages (m_decode c)" "ring_seeded (m_decode c') = ring_seeded (m_decode c)"
    and "m_cr3 c' = m_cr3 c" "m_cr0 c' = m_cr0 c" "m_cr2 c' = m_cr2 c" "m_cpl c' = m_cpl c"
    and "tlb_ok (m_tlb c')" "tlb_room k (m_tlb c')"
    and "(m_tlb c' = m_tlb c \<and> contexts (m_decode c') = contexts (m_decode c) \<and> \<not> range_hits_translation_page (m_decode c) p w)
      \<or> (tlb_live (m_tlb c') = 0 \<and> contexts (m_decode c') = [None, None] \<and> (\<forall>s<2. \<forall>e. \<not> serves (m_tlb c') s e))"
proof -
  let ?hp = "range_hits_translation_page (m_decode c) p w"
  define d1 where "d1 = (if ?hp then invalidate_and_clear_code_marks False (m_decode c) else m_decode c)"
  define t1 where "t1 = (if ?hp then retire_all_slots (m_tlb c) else m_tlb c)"
  have ok1: "dc_ok d1" using ok invalidate_ok by (auto simp: d1_def)
  have r1: "tlb_ok t1" "tlb_room (k + 2) t1"
    using retire_all_ok [OF tok, of "k + 2"] tok room by (auto simp: t1_def tlb_room_def)
  obtain res d2 where n: "narrow_invalidate_write p w d1 = (res, d2)" by fastforce
  note kill = narrow_write_kill [OF ok1 fits n]
  have ok2: "dc_ok d2" using killed_from_ok [OF kill(1) ok1] .
  note same = killed_from_same [OF kill(1)]
  let ?hc = "range_hits_code d1 p w"
  define d3 where "d3 = (if ?hc then (if res = None then invalidate_and_clear_code_marks False d2 else d2) else d1)"
  define t3 where "t3 = (if ?hc \<and> res = None then retire_all_slots t1 else t1)"
  have c': "m_decode c' = d3" "m_tlb c' = t3" "m_cr3 c' = m_cr3 c" "m_cr0 c' = m_cr0 c" "m_cr2 c' = m_cr2 c" "m_cpl c' = m_cpl c"
    using run n by (auto simp: note_code_write_def Let_def d1_def t1_def d3_def t3_def split: if_splits option.splits)
  show "m_cr3 c' = m_cr3 c" "m_cr0 c' = m_cr0 c" "m_cr2 c' = m_cr2 c" "m_cpl c' = m_cpl c" using c' by simp_all
  show "m_decode c' = note_write_lines p w (m_decode c)"
    using n by (cases res) (auto simp: c'(1) d3_def note_write_lines_def Let_def d1_def [symmetric])
  have tp: "translation_pages d1 = translation_pages (m_decode c)" "ring_seeded d1 = ring_seeded (m_decode c)"
    by (simp_all add: d1_def invalidate_frame)
  show "translation_pages (m_decode c') = translation_pages (m_decode c)" "ring_seeded (m_decode c') = ring_seeded (m_decode c)"
    using tp same by (simp_all add: c'(1) d3_def invalidate_frame)
  show "tlb_ok (m_tlb c')" "tlb_room k (m_tlb c')"
    using retire_all_ok [OF r1(1), of k] r1 by (auto simp: c'(2) t3_def tlb_room_def)
  show "(m_tlb c' = m_tlb c \<and> contexts (m_decode c') = contexts (m_decode c) \<and> \<not> ?hp)
      \<or> (tlb_live (m_tlb c') = 0 \<and> contexts (m_decode c') = [None, None] \<and> (\<forall>s<2. \<forall>e. \<not> serves (m_tlb c') s e))"
  proof (cases "?hc \<and> res = None")
    case True
    then show ?thesis
      using retire_all_ok(3,4) [OF r1(1), of k] r1(2) invalidate_ok(3) [OF ok2] by (simp add: c' d3_def t3_def)
  next
    case False
    then have "contexts d3 = contexts d1" "t3 = t1" using same by (auto simp: d3_def t3_def)
    then show ?thesis
      using retire_all_ok(3,4) [OF tok, of "k + 2"] room invalidate_ok(3) [OF ok]
      by (auto simp: c' d1_def t1_def tlb_room_def)
  qed
qed

end
