(* ===== verification/Paging_Walk.thy ===== *)
theory Paging_Walk
  imports Paging_Coherence
begin

text \<open>
  The page walk and every operation that moves the mapping keep the invariant of \<open>Paging_Coherence\<close>;
  in the states they reach a TLB hit is indistinguishable from the walk.
\<close>

section \<open>Bits of page-table entries\<close>

lemma test_or_left: "test (a OR b) m \<longleftrightarrow> test a m \<or> test b m"
  by (simp add: test_def bit.conj_disj_distrib2 or_eq_0_iff)

lemma test_and_or_left: "test ((a OR b) AND x) m \<longleftrightarrow> test (a AND x) m \<or> test (b AND x) m"
  by (simp add: bit.conj_disj_distrib2 test_or_left)

lemma test_and_disjoint: "k AND m = 0 \<Longrightarrow> \<not> test (k AND (x :: u32)) m"
proof -
  have "(k AND x) AND m = (k AND m) AND x" by (simp only: and.assoc and.commute [of x m])
  then show "k AND m = 0 \<Longrightarrow> \<not> test (k AND x) m" by (simp add: test_def)
qed

lemma or_of_and: "(v :: u32) AND k = k \<Longrightarrow> v OR k = v"
  by (auto simp: bit_eq_iff bit_and_iff bit_or_iff)

lemma page_or: "k AND 0xfffff000 = 0 \<Longrightarrow> (v OR k) AND 0xfffff000 = (v :: u32) AND 0xfffff000"
  by (simp add: bit.conj_disj_distrib2)

text \<open>Setting accessed and dirty bits changes nothing a walk reads of an entry but those bits.\<close>

definition ad_bits :: "u32 \<Rightarrow> bool" where
  "ad_bits k \<longleftrightarrow> k = 0 \<or> k = 0x20 \<or> k = 0x60"

lemma ad_keeps:
  assumes "ad_bits k"
  shows "test (v OR k) 1 = test v 1" "test (v OR k) 0x80 = test v 0x80" "(v OR k) AND 0xfffff000 = v AND 0xfffff000"
    "test ((v OR k) AND x) 2 = test (v AND x) 2" "test ((v OR k) AND x) 4 = test (v AND x) 4"
    "test (x AND (v OR k)) 2 = test (x AND v) 2" "test (x AND (v OR k)) 4 = test (x AND v) 4"
    "table_address (v OR k) linear = table_address v linear" "page_of (v OR k) = page_of v"
    "test v 0x20 \<Longrightarrow> test (v OR k) 0x20"
proof -
  have z: "k AND 1 = 0" "k AND 0x80 = 0" "k AND 0xfffff000 = 0" "k AND 2 = 0" "k AND 4 = 0"
    using assms by (auto simp: ad_bits_def)
  then have "\<not> test k 1" "\<not> test k 0x80" by (simp_all add: test_def)
  then show "test (v OR k) 1 = test v 1" "test (v OR k) 0x80 = test v 0x80" by (simp_all add: test_or_left)
  show p: "(v OR k) AND 0xfffff000 = v AND 0xfffff000" using z(3) by (rule page_or)
  show "test ((v OR k) AND x) 2 = test (v AND x) 2" "test ((v OR k) AND x) 4 = test (v AND x) 4"
    using test_and_disjoint [OF z(4)] test_and_disjoint [OF z(5)] by (simp_all add: test_and_or_left)
  then show "test (x AND (v OR k)) 2 = test (x AND v) 2" "test (x AND (v OR k)) 4 = test (x AND v) 4"
    by (simp_all add: and.commute)
  show "table_address (v OR k) linear = table_address v linear" by (simp add: table_address_def p)
  show "test v 0x20 \<Longrightarrow> test (v OR k) 0x20" by (simp add: test_or_left)
  have "unat (v OR k) div 4096 = unat v div 4096"
    using p unat_mask_page [of "v OR k"] unat_mask_page [of v] by simp
  then show "page_of (v OR k) = page_of v" by (simp add: page_of_eq_iff)
qed

lemma page_of_mask [simp]: "page_of (x AND 0xfffff000) = page_of x"
  unfolding page_of_eq_iff unat_mask_page by simp

section \<open>Stores and marks\<close>

abbreviation inv_at :: "(u32 \<Rightarrow> u8) \<Rightarrow> (u32 \<Rightarrow> bool) \<Rightarrow> ('r, 'seg, 'ptr) mmu \<Rightarrow> bool" where
  "inv_at m ac c \<equiv> paging_ok m ac (m_tlb c) (m_decode c) (m_cr3 c)"

lemma store_ok:
  assumes inv: "inv_at m ac c" and room: "tlb_room (k + 4) (m_tlb c)" and fits: "unat p + unat w \<le> 4294967296"
    and mem: "\<And>x. x \<notin> set (span p (unat w)) \<Longrightarrow> m' x = m x" and run: "note_code_write p w c = (hit, c')"
  shows "inv_at m' ac c'"
proof -
  have dok: "dc_ok (m_decode c)" and tok: "tlb_ok (m_tlb c)" using inv by (simp_all add: paging_ok_def)
  note n = note_code_write_cases [OF dok tok room fits run]
  have dok': "dc_ok (m_decode c')" using note_write_ok(1) [OF dok fits] n(1) by simp
  show ?thesis using n(10)
  proof (elim disjE conjE)
    assume same: "m_tlb c' = m_tlb c" "contexts (m_decode c') = contexts (m_decode c)"
      and no: "\<not> range_hits_translation_page (m_decode c) p w"
    have "dword m' a = dword m a" if "aligned a" "watched (m_decode c) (page_of a)" for a
    proof (rule dword_cong)
      fix x assume "x \<in> set (span a 4)"
      then have "watched (m_decode c) (page_of x)" using that aligned_page by simp
      then show "m' x = m x" using untouched_pages [OF no fits] mem by blast
    qed
    then show ?thesis
      unfolding n(4) same(1) using same(2) n(2,3) dok' tok
      by (intro paging_ok_frame [OF inv]) (simp_all add: watched_def)
  next
    assume "tlb_live (m_tlb c') = 0" "contexts (m_decode c') = [None, None]" "\<forall>s<2. \<forall>e. \<not> serves (m_tlb c') s e"
    then show ?thesis using n(8) dok' by (intro paging_ok_retired) simp_all
  qed
qed

lemma mark_ok:
  assumes inv: "inv_at m ac c"
  shows "inv_at m ac (mark_translation_page p c)" and "watched (m_decode (mark_translation_page p c)) (page_of p)"
    and "watched (m_decode c) q \<Longrightarrow> watched (m_decode (mark_translation_page p c)) q"
    and "m_tlb (mark_translation_page p c) = m_tlb c" "m_cr3 (mark_translation_page p c) = m_cr3 c"
      "m_cr0 (mark_translation_page p c) = m_cr0 c" "m_cr2 (mark_translation_page p c) = m_cr2 c"
      "m_cpl (mark_translation_page p c) = m_cpl c"
proof -
  obtain r dc' where m: "dc_mark_translation_page p (m_decode c) = (r, dc')" by fastforce
  have e: "mark_translation_page p c = c\<lparr>m_decode := dc'\<rparr>" by (simp add: mark_translation_page_def m)
  note f = mark_translation_frame [OF m]
  have dok: "dc_ok (m_decode c)" and tok: "tlb_ok (m_tlb c)" using inv by (simp_all add: paging_ok_def)
  have w: "watched dc' q \<longleftrightarrow> q = page_of p \<or> watched (m_decode c) q" for q using f(2) by (simp add: watched_def)
  have fr: "contexts dc' = contexts (m_decode c)" "ring_seeded dc' = ring_seeded (m_decode c)"
    by (subst f(1), simp)+
  show "inv_at m ac (mark_translation_page p c)"
    unfolding e using tok mark_translation_ok(1) [OF dok m] fr w
    by (simp, intro paging_ok_frame [OF inv]) simp_all
  show "watched (m_decode (mark_translation_page p c)) (page_of p)"
    "watched (m_decode c) q \<Longrightarrow> watched (m_decode (mark_translation_page p c)) q" by (simp_all add: e w)
  show "m_tlb (mark_translation_page p c) = m_tlb c" "m_cr3 (mark_translation_page p c) = m_cr3 c"
      "m_cr0 (mark_translation_page p c) = m_cr0 c" "m_cr2 (mark_translation_page p c) = m_cr2 c"
      "m_cpl (mark_translation_page p c) = m_cpl c" by (simp_all add: e)
qed

lemma record_write_frame:
  "m_tlb (record_write_page p c) = m_tlb c" "m_decode (record_write_page p c) = m_decode c" "m_cr3 (record_write_page p c) = m_cr3 c"
  "m_cr0 (record_write_page p c) = m_cr0 c" "m_cr2 (record_write_page p c) = m_cr2 c" "m_cpl (record_write_page p c) = m_cpl c"
  by (simp_all add: record_write_page_def Let_def split: option.splits)

lemma insert_ok:
  assumes inv: "inv_at m ac c"
    and cur: "entry_current m ac (watched (m_decode c)) (m_cr3 c AND 0xfffff000)
      \<lparr>te_tag = page, te_phys = phys, te_generation = tlb_generation (m_tlb c), te_writable = w, te_user = u, te_dirty = d\<rparr>"
  shows "paging_ok m ac (snd (tlb_insert page phys w u d (m_tlb c))) (m_decode c) (m_cr3 c)"
    and "tlb_next_generation (snd (tlb_insert page phys w u d (m_tlb c))) = tlb_next_generation (m_tlb c)"
proof -
  obtain prev t' where i: "tlb_insert page phys w u d (m_tlb c) = (prev, t')" by fastforce
  have tok: "tlb_ok (m_tlb c)" and dok: "dc_ok (m_decode c)" using inv by (simp_all add: paging_ok_def)
  note ins = tlb_insert_ok [OF tok i]
  have "dir = m_cr3 c AND 0xfffff000" if "slot_dir (m_tlb c) (m_decode c) (m_cr3 c) (tlb_live (m_tlb c)) dir" for dir
    using that inv by (auto simp: slot_dir_def paging_ok_def)
  then have "paging_ok m ac t' (m_decode c) (m_cr3 c)"
    using ins(1,2) dok ins(4) cur by (intro paging_ok_frame [OF inv]) auto
  then show "paging_ok m ac (snd (tlb_insert page phys w u d (m_tlb c))) (m_decode c) (m_cr3 c)"
    "tlb_next_generation (snd (tlb_insert page phys w u d (m_tlb c))) = tlb_next_generation (m_tlb c)"
    using i ins(3) by simp_all
qed

section \<open>The walk\<close>

context walk_bus
begin

lemma set_entry_bits_ok:
  assumes inv: "inv_at (peek b) (acc b) c" and room: "tlb_room (k + 4) (m_tlb c)" and a: "acc b a" "aligned a"
    and run: "set_entry_bits wr a (dword (peek b) a) bits c b = (r, c', b')"
  shows "inv_at (peek b') (acc b') c'" and "tlb_room k (m_tlb c')" and "r = Inr (dword (peek b) a OR bits)"
    and "dword (peek b') a = dword (peek b) a OR bits"
    and "aligned a' \<Longrightarrow> a' \<noteq> a \<Longrightarrow> dword (peek b') a' = dword (peek b) a'" and "acc b' = acc b"
    and "m_cr3 c' = m_cr3 c" "m_cr0 c' = m_cr0 c" "m_cr2 c' = m_cr2 c" "watched (m_decode c') = watched (m_decode c)"
    and "dword (peek b) a AND bits = bits \<Longrightarrow> c' = c \<and> b' = b"
proof -
  let ?v = "dword (peek b) a"
  have "inv_at (peek b') (acc b') c' \<and> tlb_room k (m_tlb c') \<and> r = Inr (?v OR bits) \<and> dword (peek b') a = ?v OR bits
     \<and> (\<forall>a'. aligned a' \<longrightarrow> a' \<noteq> a \<longrightarrow> dword (peek b') a' = dword (peek b) a') \<and> acc b' = acc b
     \<and> m_cr3 c' = m_cr3 c \<and> m_cr0 c' = m_cr0 c \<and> m_cr2 c' = m_cr2 c \<and> watched (m_decode c') = watched (m_decode c)
     \<and> (?v AND bits = bits \<longrightarrow> c' = c \<and> b' = b)"
  proof (cases "?v AND bits = bits")
    case True
    then have "?v OR bits = ?v" by (rule or_of_and)
    then show ?thesis using True run inv room by (auto simp: set_entry_bits_def tlb_room_def)
  next
    case False
    obtain w b1 where w: "wr b a (?v OR bits) = (w, b1)" by fastforce
    have wr: "w = Inr ()" "peek b1 = store_dword a (?v OR bits) (peek b)" "acc b1 = acc b" using wr_ok [OF a w] by auto
    obtain hit c1 where n: "note_code_write a 4 (record_write_page a c) = (hit, c1)" by fastforce
    have e: "c' = c1" "b' = b1" "r = Inr (?v OR bits)"
      using run False w wr(1) n by (auto simp: set_entry_bits_def write_page_walk_entry_def)
    have inv0: "inv_at (peek b) (acc b) (record_write_page a c)" using inv by (simp add: record_write_frame)
    have fits: "unat a + unat (4 :: u32) \<le> 4294967296" using unat_span4s [OF a(2)] unat_lt32 [of "a + 3"] by simp
    have mem: "peek b1 x = peek b x" if "x \<notin> set (span a (unat (4 :: u32)))" for x using that by (simp add: wr(2) store_dword_def)
    have room0: "tlb_room (k + 4) (m_tlb (record_write_page a c))" using room by (simp add: record_write_frame)
    have parts: "dc_ok (m_decode (record_write_page a c))" "tlb_ok (m_tlb (record_write_page a c))"
      using inv0 by (simp_all add: paging_ok_def)
    note f = note_code_write_cases [OF parts room0 fits n]
    have wt: "watched (m_decode c1) = watched (m_decode c)"
      by (rule ext) (simp add: watched_def f(2) record_write_frame)
    have inv1: "inv_at (peek b1) (acc b) c1" by (rule store_ok [OF inv0 room0 fits mem n])
    have other: "dword (peek b1) a' = dword (peek b) a'" if "aligned a'" "a' \<noteq> a" for a'
      unfolding wr(2) using that by (intro dword_store_other [OF a(2)]) auto
    show ?thesis
      using inv1 other False f(4-6,9) wt by (simp add: e wr dword_store_same record_write_frame)
  qed
  then show "inv_at (peek b') (acc b') c'" "tlb_room k (m_tlb c')" "r = Inr (?v OR bits)"
    "dword (peek b') a = ?v OR bits" "aligned a' \<Longrightarrow> a' \<noteq> a \<Longrightarrow> dword (peek b') a' = dword (peek b) a'" "acc b' = acc b"
    "m_cr3 c' = m_cr3 c" "m_cr0 c' = m_cr0 c" "m_cr2 c' = m_cr2 c" "watched (m_decode c') = watched (m_decode c)"
    "?v AND bits = bits \<Longrightarrow> c' = c \<and> b' = b" by auto
qed

lemma walk_table_ok:
  assumes inv: "inv_at (peek b) (acc b) c" and room: "tlb_room (k + 4) (m_tlb c)"
    and da: "acc b (directory_address (m_cr3 c) linear)" "pde = dword (peek b) (directory_address (m_cr3 c) linear)"
      "test pde 1" "test pde 0x20" "watched (m_decode c) (page_of (m_cr3 c))"
    and run: "walk_table rd wr linear write user pde c b = (r, c', b')"
  shows "inv_at (peek b') (acc b') c' \<and> tlb_room k (m_tlb c') \<and> acc b' = acc b"
proof -
  let ?ta = "table_address pde linear" and ?da = "directory_address (m_cr3 c) linear"
  obtain v b1 where rd: "rd b ?ta = (v, b1)" by fastforce
  have room0: "tlb_room k (m_tlb c)" using room by (simp add: tlb_room_def)
  show ?thesis
  proof (cases "acc b ?ta")
    case False
    then obtain e where "v = Inl e" "peek b1 = peek b" "acc b1 = acc b" using rd_err [OF False _ rd] by auto
    then show ?thesis using run rd inv room0 by (auto simp: walk_table_def)
  next
    case True
    have b1: "v = Inr (dword (peek b) ?ta)" "peek b1 = peek b" "acc b1 = acc b" using rd_ok [OF True _ rd] by auto
    let ?pte = "dword (peek b) ?ta" and ?bits = "if write then 0x60 else 0x20 :: u32"
    let ?fault = "if user then \<not> test (pde AND ?pte) 4 \<or> (write \<and> \<not> test (pde AND ?pte) 2)
      else write \<and> test (m_cr0 c) CR0_WP \<and> \<not> test (pde AND ?pte) 2"
    show ?thesis
    proof (cases "test ?pte 1 \<and> \<not> ?fault")
      case False
      then have "m_tlb c' = m_tlb c" "m_decode c' = m_decode c" "m_cr3 c' = m_cr3 c" "b' = b1"
        using run rd b1(1) by (auto simp: walk_table_def page_fault_def Let_def split: if_splits)
      then show ?thesis using inv room0 b1 by simp
    next
      case go: True
      obtain x c2 b2 where s: "set_entry_bits wr ?ta ?pte ?bits c b1 = (x, c2, b2)" by (metis prod_cases3)
      have inv1: "inv_at (peek b1) (acc b1) c" and ta1: "acc b1 ?ta" using inv True b1 by simp_all
      note f = set_entry_bits_ok [OF inv1 room ta1 table_address_facts(1), unfolded b1(2), OF s]
      define c3 where "c3 = (if \<not> test pde 0x80 then mark_translation_page (pde AND 0xfffff000) c2 else c2)"
      have inv3: "inv_at (peek b2) (acc b2) c3" using f(1) mark_ok(1) [OF f(1)] by (simp add: c3_def)
      have cr3: "m_cr3 c3 = m_cr3 c" "m_tlb c3 = m_tlb c2" using f(7) mark_ok [OF f(1)] by (simp_all add: c3_def)
      let ?p = "?pte OR ?bits"
      let ?t = "snd (tlb_insert (page_of linear) (?p AND 0xfffff000) (test (pde AND ?pte) 2) (test (pde AND ?pte) 4) (test ?p 0x40) (m_tlb c3))"
      have c': "m_tlb c' = ?t" "m_decode c' = m_decode c3" "m_cr3 c' = m_cr3 c3" "b' = b2"
        using run rd b1(1) go s f(3) by (auto simp: walk_table_def Let_def c3_def record_write_frame split: if_splits)
      have ad: "ad_bits ?bits" by (simp add: ad_bits_def)
      have "\<exists>k. ad_bits k \<and> dword (peek b2) ?da = pde OR k"
      proof (cases "?da = ?ta")
        case True
        then show ?thesis using f(4) ad da(2) by metis
      next
        case False
        then show ?thesis using f(5) [of ?da] da(2) by (intro exI [of _ 0]) (simp add: ad_bits_def)
      qed
      then obtain k0 where k0: "ad_bits k0" "dword (peek b2) ?da = pde OR k0" by blast
      have mk: "watched (m_decode c3) (page_of (m_cr3 c))" using f(10) da(5) mark_ok(3) [OF f(1)] by (auto simp: c3_def)
      have mt: "test pde 0x80 \<or> watched (m_decode c3) (page_of pde)"
        using mark_ok(2) [OF f(1), of "pde AND 0xfffff000"] by (simp add: c3_def)
      have bit5: "test ?p 0x20" unfolding test_or_left by (simp add: test_def)
      have "entry_current (peek b2) (acc b2) (watched (m_decode c3)) (m_cr3 c3 AND 0xfffff000)
          \<lparr>te_tag = page_of linear, te_phys = ?p AND 0xfffff000, te_generation = tlb_generation (m_tlb c3),
           te_writable = test (pde AND ?pte) 2, te_user = test (pde AND ?pte) 4, te_dirty = test ?p 0x40\<rparr>"
        using da True b1(3) f(4,6) k0 mk mt bit5 go
        by (simp add: entry_current_def Let_def walk_page_base cr3 ad_keeps [OF k0(1)] ad_keeps [OF ad])
      from insert_ok [OF inv3 this] show ?thesis
        using c' f(2,6) b1(3) cr3 by (simp add: tlb_room_def)
    qed
  qed
qed

lemma page_walk_ok:
  assumes inv: "inv_at (peek b) (acc b) c" and room: "tlb_room (k + 8) (m_tlb c)"
    and run: "page_walk rd wr linear write user c b = (r, c', b')"
  shows "inv_at (peek b') (acc b') c' \<and> tlb_room k (m_tlb c') \<and> acc b' = acc b"
proof -
  let ?da = "directory_address (m_cr3 c) linear"
  obtain v b1 where rd: "rd b ?da = (v, b1)" by fastforce
  have room0: "tlb_room k (m_tlb c)" using room by (simp add: tlb_room_def)
  show ?thesis
  proof (cases "acc b ?da")
    case False
    then obtain e where "v = Inl e" "peek b1 = peek b" "acc b1 = acc b" using rd_err [OF False _ rd] by auto
    then show ?thesis using run rd inv room0 by (auto simp: page_walk_def)
  next
    case True
    have b1: "v = Inr (dword (peek b) ?da)" "peek b1 = peek b" "acc b1 = acc b" using rd_ok [OF True _ rd] by auto
    let ?pde = "dword (peek b) ?da"
    show ?thesis
    proof (cases "test ?pde 1")
      case False
      then show ?thesis using run rd b1 inv room0 by (auto simp: page_walk_def page_fault_def)
    next
      case go: True
      obtain x c2 b2 where s: "set_entry_bits wr ?da ?pde 0x20 c b1 = (x, c2, b2)" by (metis prod_cases3)
      have inv1: "inv_at (peek b1) (acc b1) c" and da1: "acc b1 ?da" using inv True b1 by simp_all
      have room4: "tlb_room ((k + 4) + 4) (m_tlb c)" using room by (simp add: tlb_room_def)
      note f = set_entry_bits_ok [OF inv1 room4 da1 directory_address_facts(1), unfolded b1(2), OF s]
      let ?c3 = "mark_translation_page (m_cr3 c2 AND 0xfffff000) c2"
      note m = mark_ok [OF f(1), of "m_cr3 c2 AND 0xfffff000"]
      have w: "walk_table rd wr linear write user (?pde OR 0x20) ?c3 b2 = (r, c', b')"
        using run rd b1(1) go s f(3) by (simp add: page_walk_def)
      have "inv_at (peek b') (acc b') c' \<and> tlb_room k (m_tlb c') \<and> acc b' = acc b2"
      proof (rule walk_table_ok [OF m(1) _ _ _ _ _ _ w])
        show "tlb_room (k + 4) (m_tlb ?c3)" using f(2) m(4) by simp
        show "acc b2 (directory_address (m_cr3 ?c3) linear)" using m(5) f(6,7) da1 by simp
        show "?pde OR 0x20 = dword (peek b2) (directory_address (m_cr3 ?c3) linear)" using m(5) f(4,7) by simp
        show "test (?pde OR 0x20) 1" "test (?pde OR 0x20) 0x20" unfolding test_or_left using go by (simp_all add: test_def)
        show "watched (m_decode ?c3) (page_of (m_cr3 ?c3))" using m(2,5) by simp
      qed
      then show ?thesis using f(6) b1(3) by metis
    qed
  qed
qed

lemma translate_ok:
  assumes inv: "inv_at (peek b) (acc b) c" and room: "tlb_room (k + 8) (m_tlb c)"
    and run: "translate_linear_checked rd wr linear write accessor c b = (r, c', b')"
  shows "inv_at (peek b') (acc b') c' \<and> tlb_room k (m_tlb c') \<and> acc b' = acc b"
proof (cases "(m_tlb c', m_decode c', m_cr3 c', b') = (m_tlb c, m_decode c, m_cr3 c, b)")
  case True
  then show ?thesis using inv room by (simp add: tlb_room_def)
next
  case False
  then obtain user where "page_walk rd wr linear write user c b = (r, c', b')"
    using run by (auto simp: translate_linear_checked_def Let_def record_write_frame split: if_splits option.splits)
  then show ?thesis by (rule page_walk_ok [OF inv room])
qed

end

end
