(* ===== verification/Paging_Steps.thy ===== *)
theory Paging_Steps
  imports Paging_Walk
begin

text \<open>
  The control-register operations keep the invariant; reachable states; a TLB hit is the walk.
\<close>

section \<open>Switching the page directory\<close>

lemma select_context_cases:
  assumes ok: "dc_ok dc" and sel: "select_context old new dc = (sel, dc')"
  shows "ring_seeded dc'" and "dc_ok dc'"
    and "(\<exists>slot g. slot < 2 \<and> sel = Reselected slot \<and> contexts (seeded old dc) ! slot = Some (new, g)
            \<and> contexts dc' = contexts (seeded old dc) \<and> translation_pages dc' = translation_pages dc)
       \<or> (\<exists>slot g. slot < 2 \<and> sel = Allocated slot \<and> contexts dc' ! slot = Some (new, g)
            \<and> (\<forall>r < 2. r \<noteq> slot \<longrightarrow> contexts dc' ! r = contexts (seeded old dc) ! r \<or> contexts dc' ! r = None)
            \<and> translation_pages dc' = translation_pages dc)
       \<or> (\<exists>g. sel = Taken 0 \<and> contexts dc' = [Some (new, g), None])"
    (is "?re \<or> ?al \<or> ?ta")
proof -
  define d where "d = seeded old dc"
  have dok: "dc_ok d" using seeded_ok [OF ok] by (simp add: d_def)
  have len: "length (contexts d) = 2" using dok by (simp add: dc_ok_def dc_shape_def)
  have fr: "translation_pages d = translation_pages dc" "ring_seeded d" by (simp_all add: d_def seeded_def)
  note unf = select_context_def d_def [unfolded seeded_def, symmetric] Let_def
  let ?hit = "\<lambda>c. case c of Some (cr3, _) \<Rightarrow> cr3 = new | None \<Rightarrow> False"
  show "dc_ok dc'" using select_context_ok [OF ok sel] by simp
  have "ring_seeded dc' \<and> (?re \<or> ?al \<or> ?ta)"
  proof (cases "position ?hit (contexts d)")
    case (Some slot)
    then obtain g where c: "contexts d ! slot = Some (new, g)" "slot < 2"
      using position_Some [OF Some] len by (auto split: option.splits prod.splits)
    then have "sel = Reselected slot" "dc' = d\<lparr>dc_generation := g\<rparr>" using sel Some by (auto simp: unf)
    then show ?thesis using c fr by (auto simp: d_def [symmetric])
  next
    case None
    show ?thesis
    proof (cases "position (\<lambda>c. c = None) (contexts d)")
      case (Some slot)
      obtain g d1 where al: "allocate_generation d = (g, d1)" by fastforce
      have e: "sel = Allocated slot" "dc' = d1\<lparr>contexts := (contexts d1)[slot := Some (new, g)], dc_generation := g\<rparr>"
        using sel None Some al by (auto simp: unf)
      note f = allocate_fresh [OF _ _ _ al]
      have parts: "dc_shape d" "gens_ok d" "dirty_ok d" using dok by (simp_all add: dc_ok_def)
      have slot: "slot < 2" using position_Some [OF Some] len by simp
      have "contexts d1 ! r = contexts d ! r \<or> contexts d1 ! r = None" if "r < 2" for r
        using f(5) [OF parts] that by (auto simp: less_2_cases_iff)
      then show ?thesis
        using e slot f(11,12,13) [OF parts] fr by (simp add: d_def [symmetric])
    next
      case full: None
      obtain g d1 where al: "allocate_generation (retire_ring True d) = (g, d1)" by fastforce
      have e: "sel = Taken 0" "dc' = d1\<lparr>dc_generation := g, contexts := (contexts d1)[0 := Some (new, g)]\<rparr>"
        using sel None full al by (auto simp: unf)
      note f = allocate_fresh [OF retire_ring_parts [OF dok] al]
      have "contexts d1 = [None, None]" using f(5) by (auto simp: retire_ring_frame)
      then show ?thesis using e f(13) fr by (simp add: retire_ring_frame)
    qed
  qed
  then show "ring_seeded dc'" "?re \<or> ?al \<or> ?ta" by auto
qed

text \<open>\<open>MOV CR3\<close> never panics and keeps the invariant.\<close>

lemma cr3_write_ok:
  assumes inv: "inv_at m ac c" and room: "tlb_room (k + 3) (m_tlb c)"
  shows "\<exists>c'. cr3_write new c = Some c' \<and> inv_at m ac c' \<and> tlb_room k (m_tlb c')
    \<and> m_cr0 c' = m_cr0 c \<and> m_cr3 c' = new \<and> m_cpl c' = m_cpl c"
proof -
  let ?old = "m_cr3 c AND 0xfffff000" and ?new = "new AND 0xfffff000" and ?t = "m_tlb c" and ?d = "m_decode c"
  obtain sel dc' where sel: "select_context ?old ?new ?d = (sel, dc')" by fastforce
  have tok: "tlb_ok ?t" and dok: "dc_ok ?d" and seed: "\<not> ring_seeded ?d \<Longrightarrow> tlb_live ?t = 0"
    and cur: "\<And>s e dir. s < 2 \<Longrightarrow> serves ?t s e \<Longrightarrow> slot_dir ?t ?d (m_cr3 c) s dir \<Longrightarrow> entry_current m ac (watched ?d) dir e"
    using inv by (auto simp: paging_ok_def)
  note sc = select_context_cases [OF dok sel]
  have two: "length (contexts ?d) = 2" using dok by (simp add: dc_ok_def dc_shape_def)
  have owner: "slot_dir ?t ?d (m_cr3 c) s dir" if "s < 2" "contexts (seeded ?old ?d) ! s = Some (dir, g)" for s dir g
    using that seed two by (cases "s = 0") (auto simp: seeded_def slot_dir_def split: if_splits)
  note unf = cr3_write_def Let_def sel invalidate_fetch_frontend_def
  from sc(3) show ?thesis
  proof (elim disjE exE conjE)
    fix slot g assume s: "slot < 2" "sel = Reselected slot" "contexts (seeded ?old ?d) ! slot = Some (?new, g)"
      and same: "contexts dc' = contexts (seeded ?old ?d)" "translation_pages dc' = translation_pages ?d"
    obtain t where t: "select_generation slot ?t = Some t" "tlb_ok t" "tlb_live t = slot"
        "tlb_next_generation t = tlb_next_generation ?t" "\<And>r e. serves t r e = serves ?t r e"
      using select_generation_ok [OF tok s(1)] by metis
    have "entry_current m ac (watched dc') dir e" if "r < 2" "serves t r e" "slot_dir t dc' new r dir" for r e dir
    proof -
      have "\<exists>g. contexts (seeded ?old ?d) ! r = Some (dir, g)" using that(3) s(3) same(1) t(3) by (auto simp: slot_dir_def)
      then have "entry_current m ac (watched ?d) dir e" using owner cur that t(5) by blast
      moreover have "watched dc' = watched ?d" by (rule ext) (simp add: watched_def same(2))
      ultimately show ?thesis by simp
    qed
    then have "paging_ok m ac t dc' new" using t(2,3) sc(1,2) s(3) same(1) by (simp add: paging_ok_def)
    then show ?thesis
      using t(1,4) s(2) room by (simp add: unf tlb_room_def)
  next
    fix slot g assume s: "slot < 2" "sel = Allocated slot" "contexts dc' ! slot = Some (?new, g)"
      and other: "\<forall>r < 2. r \<noteq> slot \<longrightarrow> contexts dc' ! r = contexts (seeded ?old ?d) ! r \<or> contexts dc' ! r = None"
      and same: "translation_pages dc' = translation_pages ?d"
    have room1: "tlb_room (Suc (k + 2)) ?t" using room by (simp add: tlb_room_def)
    obtain t where t: "tlb_allocate_generation slot ?t = Some t" "tlb_ok t" "tlb_room (k + 2) t" "tlb_live t = slot"
        "\<And>e. \<not> serves t slot e" "\<And>r e. r < 2 \<Longrightarrow> r \<noteq> slot \<Longrightarrow> serves t r e \<Longrightarrow> serves ?t r e"
      using allocate_ok [OF tok room1 s(1)] by metis
    have "entry_current m ac (watched dc') dir e" if "r < 2" "serves t r e" "slot_dir t dc' new r dir" for r e dir
    proof -
      have r: "r \<noteq> slot" using that(2) t(5) by auto
      then have "\<exists>g. contexts (seeded ?old ?d) ! r = Some (dir, g)"
        using that(1,3) t(4) other by (auto simp: slot_dir_def)
      then have "entry_current m ac (watched ?d) dir e" using owner cur that t(6) r by blast
      moreover have "watched dc' = watched ?d" by (rule ext) (simp add: watched_def same)
      ultimately show ?thesis by simp
    qed
    then have "paging_ok m ac t dc' new" using t(2,4) sc(1,2) s(3) by (simp add: paging_ok_def)
    then show ?thesis
      using t(1,3) s(2) by (simp add: unf tlb_room_def)
  next
    fix g assume s: "sel = Taken 0" "contexts dc' = [Some (?new, g), None]"
    have "tlb_room (Suc (Suc (Suc k))) ?t" using room by (simp add: tlb_room_def)
    note r = retire_all_ok [OF tok this]
    obtain t where t: "tlb_allocate_generation 0 (retire_all_slots ?t) = Some t" "tlb_ok t" "tlb_room k t" "tlb_live t = 0"
        "\<And>e. \<not> serves t 0 e" "\<And>r e. r < 2 \<Longrightarrow> r \<noteq> 0 \<Longrightarrow> serves t r e \<Longrightarrow> serves (retire_all_slots ?t) r e"
      using allocate_ok [OF r(1,2), of 0] by (metis zero_less_numeral)
    have "\<not> serves t s e" if "s < 2" for s e using that t(5,6) r(4) by (cases "s = 0") auto
    then have "paging_ok m ac t dc' new" using t(2,4) sc(1,2) s(2) by (simp add: paging_ok_def)
    then show ?thesis
      using t(1,3) s(1) by (simp add: unf)
  qed
qed


section \<open>Flushes\<close>

lemma invalidate_code_ok:
  assumes inv: "inv_at m ac c" and room: "tlb_room (k + 2) (m_tlb c)"
  shows "inv_at m' ac' (invalidate_code_caches c)" and "tlb_room k (m_tlb (invalidate_code_caches c))"
    and "inv_at m' ac' (flush_tlb_and_code_caches (c\<lparr>m_cr0 := x, m_cr3 := y\<rparr>))"
    and "tlb_room k (m_tlb (flush_tlb_and_code_caches (c\<lparr>m_cr0 := x, m_cr3 := y\<rparr>)))"
proof -
  have dok: "dc_ok (m_decode c)" and tok: "tlb_ok (m_tlb c)" using inv by (simp_all add: paging_ok_def)
  have "tlb_room (Suc (Suc k)) (m_tlb c)" using room by (simp add: tlb_room_def)
  note r = retire_all_ok [OF tok this] and d = invalidate_ok [OF dok]
  show "inv_at m' ac' (invalidate_code_caches c)" "tlb_room k (m_tlb (invalidate_code_caches c))"
    "inv_at m' ac' (flush_tlb_and_code_caches (c\<lparr>m_cr0 := x, m_cr3 := y\<rparr>))"
    "tlb_room k (m_tlb (flush_tlb_and_code_caches (c\<lparr>m_cr0 := x, m_cr3 := y\<rparr>)))"
    using r d
    by (auto intro!: paging_ok_retired simp: invalidate_code_caches_def flush_tlb_and_code_caches_def
        invalidate_decode_frontend_def invalidate_fetch_frontend_def Let_def)
qed

lemma note_a20_ok:
  assumes inv: "inv_at m ac c" and room: "tlb_room (k + 2) (m_tlb c)"
  shows "inv_at m' ac' (note_a20_changed c) \<and> tlb_room k (m_tlb (note_a20_changed c))"
  using invalidate_code_ok(1,2) [OF assms] by (simp add: note_a20_changed_def invalidate_direct_pages_def)

lemma task_cr3_ok:
  assumes inv: "inv_at m ac c" and room: "tlb_room (k + 2) (m_tlb c)"
  shows "inv_at m ac (task_cr3_load v c) \<and> tlb_room k (m_tlb (task_cr3_load v c))"
  using invalidate_code_ok(3,4) [OF assms, where x = "m_cr0 c" and y = v] assms by (simp add: task_cr3_load_def tlb_room_def)

lemma keep_code_ok:
  assumes inv: "inv_at m ac c" and room: "tlb_room (k + 1) (m_tlb c)"
  shows "inv_at m ac (flush_tlb_keep_code_caches v c) \<and> tlb_room k (m_tlb (flush_tlb_keep_code_caches v c))"
proof -
  have dok: "dc_ok (m_decode c)" and tok: "tlb_ok (m_tlb c)" using inv by (simp_all add: paging_ok_def)
  have live: "tlb_live (m_tlb c) < 2" using tok by (simp add: tlb_ok_def)
  have "tlb_room (Suc k) (m_tlb c)" using room by simp
  note r = remint_ok [OF tok this live, folded flush_live_slot_remint]
  have old: "serves (m_tlb c) s e" if "s < 2" "serves (flush_live_slot (m_tlb c)) s e" for s e using that r(4,5) by metis
  have "paging_ok m ac (flush_live_slot (m_tlb c)) (m_decode c) (m_cr3 c)"
    using r(1,3) old dok by (intro paging_ok_frame [OF inv]) simp_all
  then show ?thesis
    using inv room r(2) by (simp add: flush_tlb_keep_code_caches_def invalidate_fetch_frontend_def tlb_room_def)
qed

lemma cr0_write_ok:
  assumes inv: "inv_at m ac c" and room: "tlb_room (k + 2) (m_tlb c)"
  shows "inv_at m ac (cr0_write v c) \<and> tlb_room k (m_tlb (cr0_write v c))"
proof -
  have inv0: "inv_at m ac (c\<lparr>m_cr0 := v\<rparr>)" and room0: "tlb_room (k + 1) (m_tlb (c\<lparr>m_cr0 := v\<rparr>))"
    using inv room by (simp_all add: tlb_room_def)
  show ?thesis
    using invalidate_code_ok(3,4) [OF assms, where x = v and y = "m_cr3 c"] keep_code_ok [OF inv0 room0, of v]
    by (simp add: cr0_write_def flush_tlb_for_cr0_write_def)
qed

lemma invlpg_ok:
  assumes inv: "inv_at m ac c" and room: "tlb_room (k + 1) (m_tlb c)"
  shows "inv_at m ac (apply_invlpg linear c) \<and> tlb_room k (m_tlb (apply_invlpg linear c))"
proof -
  have dok: "dc_ok (m_decode c)" and tok: "tlb_ok (m_tlb c)" using inv by (simp_all add: paging_ok_def)
  note i = tlb_invalidate_ok [OF tok]
  let ?t = "tlb_invalidate (page_of linear) (m_tlb c)"
  have live: "tlb_live ?t < 2" "1 - tlb_live ?t < 2" using i(1) by (simp_all add: tlb_ok_def)
  have "tlb_room (Suc k) ?t" using room by (simp add: tlb_room_def i(3))
  note r = remint_ok [OF i(1) this live(2), folded retire_dormant_remint [OF live(1)]]
  have d: "dc_ok (m_decode (apply_invlpg linear c))" "contexts (m_decode (apply_invlpg linear c)) = [None, None]"
    "m_tlb (apply_invlpg linear c) = retire_dormant_slot ?t" "m_cr3 (apply_invlpg linear c) = m_cr3 c"
    using invalidate_ok [OF dok] by (simp_all add: apply_invlpg_def invalidate_decode_frontend_def invalidate_fetch_frontend_def Let_def)
  have fr: "translation_pages (m_decode (apply_invlpg linear c)) = translation_pages (m_decode c)"
    "ring_seeded (m_decode (apply_invlpg linear c)) = ring_seeded (m_decode c)"
    by (simp_all add: apply_invlpg_def invalidate_decode_frontend_def invalidate_fetch_frontend_def Let_def invalidate_frame)
  then have w: "watched (m_decode (apply_invlpg linear c)) = watched (m_decode c)" by (intro ext) (simp add: watched_def)
  have "entry_current m ac (watched (m_decode c)) (m_cr3 c AND 0xfffff000) e" if s: "s < 2" "serves (retire_dormant_slot ?t) s e" "s = tlb_live (m_tlb c)" for s e
  proof -
    have "s \<noteq> 1 - tlb_live ?t" using r(4) s(2) by auto
    then have "serves ?t s e" using r(5) s by blast
    then have "serves (m_tlb c) s e" using i(4) s(1) by blast
    then show ?thesis using inv s by (auto simp: paging_ok_def slot_dir_def)
  qed
  moreover have none: "[None, None] ! s = (None :: (u32 \<times> u32) option)" if "s < 2" for s
    using that by (auto simp: less_2_cases_iff)
  ultimately have "inv_at m ac (apply_invlpg linear c)"
    unfolding paging_ok_def d w slot_dir_def using inv d(1) r(1,3) i(2) fr(2) none live by (auto simp: paging_ok_def)
  then show ?thesis using r(2) d(3) by simp
qed

end
