(* ===== verification/Paging_Tables.thy ===== *)
theory Paging_Tables
  imports Paging_Steps
begin

text \<open>
  What the page tables in memory say of an address, as a pure function, and that the walk computes it.
\<close>

section \<open>Specification\<close>

datatype walk_outcome = Unreachable | Faulted u32 | Mapped u32

definition protected :: "u32 \<Rightarrow> u32 \<Rightarrow> bool \<Rightarrow> bool \<Rightarrow> bool" where
  "protected cr0 flags write user \<longleftrightarrow>
    (if user then \<not> test flags 4 \<or> (write \<and> \<not> test flags 2) else write \<and> test cr0 CR0_WP \<and> \<not> test flags 2)"

definition table_spec :: "(u32 \<Rightarrow> u8) \<Rightarrow> (u32 \<Rightarrow> bool) \<Rightarrow> u32 \<Rightarrow> u32 \<Rightarrow> u32 \<Rightarrow> bool \<Rightarrow> bool \<Rightarrow> walk_outcome" where
  "table_spec m ac cr0 pde linear write user =
    (let ta = table_address pde linear; pte = dword m ta in
     if \<not> ac ta then Unreachable
     else if \<not> test pte 1 then Faulted (page_fault_code False write user)
     else if protected cr0 (pde AND pte) write user then Faulted (page_fault_code True write user)
     else Mapped ((pte AND 0xfffff000) OR (linear AND 0xfff)))"

definition tables_say :: "(u32 \<Rightarrow> u8) \<Rightarrow> (u32 \<Rightarrow> bool) \<Rightarrow> u32 \<Rightarrow> u32 \<Rightarrow> u32 \<Rightarrow> bool \<Rightarrow> bool \<Rightarrow> walk_outcome" where
  "tables_say m ac cr0 cr3 linear write user =
    (let da = directory_address cr3 linear; pde = dword m da in
     if \<not> ac da then Unreachable
     else if \<not> test pde 1 then Faulted (page_fault_code False write user)
     else table_spec m ac cr0 pde linear write user)"

text \<open>What a translation returned: a page fault is vector 14 with its code, and leaves the address in \<open>CR2\<close>.\<close>

definition yields :: "internal_fault + u32 \<Rightarrow> u32 \<Rightarrow> u32 \<Rightarrow> walk_outcome \<Rightarrow> bool" where
  "yields r cr2 linear out \<longleftrightarrow>
    (case r of Inr p \<Rightarrow> out = Mapped p
     | Inl (BusFault e) \<Rightarrow> out = Unreachable
     | Inl (ExceptionFault v code) \<Rightarrow> v = 14 \<and> cr2 = linear \<and> (\<exists>k. code = Some k \<and> out = Faulted k))"

definition marks_of :: "u32 \<Rightarrow> u32 \<Rightarrow> bool \<Rightarrow> u32 \<Rightarrow> u32" where
  "marks_of da ta write a = (if a = da then 0x20 else 0) OR (if a = ta then (if write then 0x60 else 0x20) else 0)"

lemma table_spec_ad:
  assumes "ad_bits k" and "ad_bits k'" and "dword m' (table_address pde linear) = dword m (table_address pde linear) OR k'"
  shows "table_spec m' ac cr0 (pde OR k) linear write user = table_spec m ac cr0 pde linear write user"
proof -
  let ?pte = "dword m (table_address pde linear)"
  have "test ((pde OR k) AND (?pte OR k')) x = test (pde AND ?pte) x" if "x = 2 \<or> x = 4" for x
    using that ad_keeps(4,5) [OF assms(1)] ad_keeps(6,7) [OF assms(2)] by auto
  then show ?thesis
    using assms(3) ad_keeps [OF assms(1)] ad_keeps [OF assms(2)] by (simp add: table_spec_def Let_def protected_def)
qed

text \<open>A TLB hit yields what the tables say.\<close>

lemma lookup_current:
  assumes inv: "inv_at m ac c" and hit: "tlb_lookup (m_tlb c) (page_of linear) = Some e"
  shows "entry_current m ac (watched (m_decode c)) (m_cr3 c AND 0xfffff000) e \<and> te_tag e = page_of linear"
proof -
  have tok: "tlb_ok (m_tlb c)" using inv by (simp add: paging_ok_def)
  have e: "te_tag e = page_of linear" "serves (m_tlb c) (tlb_live (m_tlb c)) e"
    using hit tlb_lookup_serves [OF tok] by auto
  have "tlb_live (m_tlb c) < 2" using tok by (simp add: tlb_ok_def)
  then show ?thesis using inv e by (auto simp: paging_ok_def slot_dir_def)
qed

lemma tlb_hit_yields:
  assumes inv: "inv_at m ac c" and hit: "tlb_lookup (m_tlb c) (page_of linear) = Some e"
    and perm: "tlb_permits (m_cr0 c) write user e" and ps: "\<not> test (dword m (directory_address (m_cr3 c) linear)) 0x80"
  shows "tables_say m ac (m_cr0 c) (m_cr3 c) linear write user = Mapped (te_phys e OR (linear AND 0xfff))"
proof -
  show ?thesis
    using lookup_current [OF inv hit] ps perm
    by (auto simp: entry_current_def walk_page_base tables_say_def table_spec_def protected_def tlb_permits_def Let_def split: if_splits)
qed

lemma or_bit_set: "test (v :: u32) (2 ^ n) \<Longrightarrow> v OR 2 ^ n = v"
  by (rule bit_word_eqI) (auto simp: test_def and_exp_eq_0_iff_not_bit bit_or_iff bit_exp_iff)

lemma tlb_hit_marked:
  assumes inv: "inv_at m ac c" and hit: "tlb_lookup (m_tlb c) (page_of linear) = Some e"
    and perm: "tlb_permits (m_cr0 c) write user e" and ps: "\<not> test (dword m (directory_address (m_cr3 c) linear)) 0x80"
    and da: "da = directory_address (m_cr3 c) linear"
  shows "dword m a OR marks_of da (table_address (dword m da) linear) write a = dword m a"
proof -
  have cur: "entry_current m ac (watched (m_decode c)) (m_cr3 c AND 0xfffff000) e" "te_tag e = page_of linear"
    using lookup_current [OF inv hit] by auto
  then have t: "test (dword m da) 0x20" "test (dword m (table_address (dword m da) linear)) 0x20"
    "write \<Longrightarrow> test (dword m (table_address (dword m da) linear)) 0x40"
    using ps perm by (auto simp: entry_current_def walk_page_base da Let_def tlb_permits_def)
  have b: "v OR 0x20 = v" if "test v 0x20" for v :: u32 using or_bit_set [of v 5] that by simp
  have d: "v OR 0x60 = v" if "test v 0x20" "test v 0x40" for v :: u32
  proof -
    have "v OR 0x60 = (v OR 0x20) OR 0x40" by (simp add: or.assoc)
    then show ?thesis using b [OF that(1)] or_bit_set [of v 6] that(2) by simp
  qed
  show ?thesis using t b d by (auto simp: marks_of_def simp flip: or.assoc)
qed

lemma translate_cases:
  assumes pg: "is_paging_enabled c" and run: "translate_linear_checked rd wr linear write accessor c b = (r, c', b')"
  shows "(\<exists>e. tlb_lookup (m_tlb c) (page_of linear) = Some e
            \<and> tlb_permits (m_cr0 c) write (accessor = Current \<and> m_cpl c = 3) e
            \<and> r = Inr (te_phys e OR (linear AND 0xfff)) \<and> b' = b)
       \<or> page_walk rd wr linear write (accessor = Current \<and> m_cpl c = 3) c b = (r, c', b')"
proof -
  have u: "(case accessor of Current \<Rightarrow> m_cpl c = 3 | Supervisor \<Rightarrow> False) = (accessor = Current \<and> m_cpl c = 3)"
    by (cases accessor) simp_all
  show ?thesis
    using run pg unfolding translate_linear_checked_def u by (auto simp: Let_def split: option.splits if_splits)
qed

section \<open>The walk\<close>

context walk_bus
begin

lemma walk_table_yields:
  assumes inv: "inv_at (peek b) (acc b) c" and room: "tlb_room (k + 4) (m_tlb c)"
    and run: "walk_table rd wr linear write user pde c b = (r, c', b')"
  shows "yields r (m_cr2 c') linear (table_spec (peek b) (acc b) (m_cr0 c) pde linear write user)"
proof -
  let ?ta = "table_address pde linear"
  obtain v b1 where rd: "rd b ?ta = (v, b1)" by fastforce
  show ?thesis
  proof (cases "acc b ?ta")
    case False
    then obtain e where "v = Inl e" using rd_err [OF False _ rd] by auto
    then show ?thesis using run rd False by (auto simp: walk_table_def yields_def table_spec_def)
  next
    case True
    have b1: "v = Inr (dword (peek b) ?ta)" "peek b1 = peek b" "acc b1 = acc b" using rd_ok [OF True _ rd] by auto
    let ?pte = "dword (peek b) ?ta" and ?bits = "if write then 0x60 else 0x20 :: u32"
    show ?thesis
    proof (cases "test ?pte 1 \<and> \<not> protected (m_cr0 c) (pde AND ?pte) write user")
      case False
      then show ?thesis using run rd b1(1) True
        by (auto simp: walk_table_def page_fault_def table_spec_def yields_def protected_def Let_def split: if_splits)
    next
      case go: True
      obtain x c2 b2 where s: "set_entry_bits wr ?ta ?pte ?bits c b1 = (x, c2, b2)" by (metis prod_cases3)
      have inv1: "inv_at (peek b1) (acc b1) c" and ta1: "acc b1 ?ta" using inv True b1 by simp_all
      note f = set_entry_bits_ok [OF inv1 room ta1 table_address_facts(1), unfolded b1(2), OF s]
      have ad: "ad_bits ?bits" by (simp add: ad_bits_def)
      have "r = Inr (((?pte OR ?bits) AND 0xfffff000) OR (linear AND 0xfff))"
        using run rd b1(1) go s f(3) by (auto simp: walk_table_def Let_def protected_def split: if_splits)
      then show ?thesis using go True ad_keeps(3) [OF ad, of ?pte] by (simp add: yields_def table_spec_def Let_def)
    qed
  qed
qed

lemma page_walk_yields:
  assumes inv: "inv_at (peek b) (acc b) c" and room: "tlb_room (k + 8) (m_tlb c)"
    and run: "page_walk rd wr linear write user c b = (r, c', b')"
  shows "yields r (m_cr2 c') linear (tables_say (peek b) (acc b) (m_cr0 c) (m_cr3 c) linear write user)"
proof -
  let ?da = "directory_address (m_cr3 c) linear"
  obtain v b1 where rd: "rd b ?da = (v, b1)" by fastforce
  show ?thesis
  proof (cases "acc b ?da \<and> test (dword (peek b) ?da) 1")
    case False
    show ?thesis
    proof (cases "acc b ?da")
      case True
      then show ?thesis using run rd False rd_ok [OF True _ rd] by (auto simp: page_walk_def page_fault_def yields_def tables_say_def)
    next
      case no: False
      then show ?thesis using run rd rd_err [OF no _ rd] by (auto simp: page_walk_def yields_def tables_say_def)
    qed
  next
    case True
    then have b1: "v = Inr (dword (peek b) ?da)" "peek b1 = peek b" "acc b1 = acc b" using rd_ok [OF _ _ rd] by auto
    let ?pde = "dword (peek b) ?da" and ?ta = "table_address (dword (peek b) ?da) linear"
    obtain x c2 b2 where s: "set_entry_bits wr ?da ?pde 0x20 c b1 = (x, c2, b2)" by (metis prod_cases3)
    have inv1: "inv_at (peek b1) (acc b1) c" and da1: "acc b1 ?da" using inv True b1 by simp_all
    have room4: "tlb_room ((k + 4) + 4) (m_tlb c)" using room by (simp add: tlb_room_def)
    note f = set_entry_bits_ok [OF inv1 room4 da1 directory_address_facts(1), unfolded b1(2), OF s]
    let ?c3 = "mark_translation_page (m_cr3 c2 AND 0xfffff000) c2"
    note m = mark_ok [OF f(1), of "m_cr3 c2 AND 0xfffff000"]
    have w: "walk_table rd wr linear write user (?pde OR 0x20) ?c3 b2 = (r, c', b')"
      using run rd b1(1) True s f(3) by (simp add: page_walk_def)
    have room3: "tlb_room (k + 4) (m_tlb ?c3)" using f(2) m(4) by simp
    have "\<exists>k'. ad_bits k' \<and> dword (peek b2) ?ta = dword (peek b) ?ta OR k'"
    proof (cases "?ta = ?da")
      case True
      then show ?thesis using f(4) by (intro exI [of _ "0x20"]) (simp add: ad_bits_def)
    next
      case False
      then show ?thesis using f(5) [of ?ta] by (intro exI [of _ 0]) (simp add: ad_bits_def)
    qed
    then obtain k' where k': "ad_bits k'" "dword (peek b2) ?ta = dword (peek b) ?ta OR k'" by blast
    have ad: "ad_bits 0x20" by (simp add: ad_bits_def)
    have "m_cr0 ?c3 = m_cr0 c" "acc b2 = acc b" using m(6) f(6,8) b1(3) by simp_all
    then have "yields r (m_cr2 c') linear (table_spec (peek b) (acc b) (m_cr0 c) ?pde linear write user)"
      using walk_table_yields [OF m(1) room3 w] table_spec_ad [OF ad k'] by simp
    then show ?thesis using True by (simp add: tables_say_def Let_def)
  qed
qed

text \<open>A walk that succeeds sets the accessed bits of the two entries it used, on a write also the dirty bit.\<close>

lemma walk_table_memory:
  assumes inv: "inv_at (peek b) (acc b) c" and room: "tlb_room (k + 4) (m_tlb c)" and a: "aligned a"
    and run: "walk_table rd wr linear write user pde c b = (Inr p, c', b')"
  shows "dword (peek b') a = dword (peek b) a OR (if a = table_address pde linear then (if write then 0x60 else 0x20) else 0)"
proof -
  let ?ta = "table_address pde linear"
  obtain v b1 where rd: "rd b ?ta = (v, b1)" by fastforce
  have ta: "acc b ?ta"
  proof (rule ccontr)
    assume n: "\<not> acc b ?ta"
    then show False using run rd rd_err [OF n _ rd] by (auto simp: walk_table_def)
  qed
  have b1: "v = Inr (dword (peek b) ?ta)" "peek b1 = peek b" "acc b1 = acc b" using rd_ok [OF ta _ rd] by auto
  let ?pte = "dword (peek b) ?ta" and ?bits = "if write then 0x60 else 0x20 :: u32"
  obtain x c2 b2 where s: "set_entry_bits wr ?ta ?pte ?bits c b1 = (x, c2, b2)" by (metis prod_cases3)
  have inv1: "inv_at (peek b1) (acc b1) c" and ta1: "acc b1 ?ta" using inv ta b1 by simp_all
  note f = set_entry_bits_ok [OF inv1 room ta1 table_address_facts(1), unfolded b1(2), OF s]
  have "b' = b2"
    using run rd b1(1) s f(3) by (auto simp: walk_table_def page_fault_def Let_def split: if_splits)
  then show ?thesis using f(4) f(5) [OF a] by (cases "a = ?ta") simp_all
qed

lemma page_walk_memory:
  assumes inv: "inv_at (peek b) (acc b) c" and room: "tlb_room (k + 8) (m_tlb c)" and a: "aligned a"
    and run: "page_walk rd wr linear write user c b = (Inr p, c', b')" and da: "da = directory_address (m_cr3 c) linear"
  shows "dword (peek b') a = dword (peek b) a OR marks_of da (table_address (dword (peek b) da) linear) write a"
proof -
  obtain v b1 where rd: "rd b da = (v, b1)" by fastforce
  have al: "aligned da" by (simp add: da)
  have acc: "acc b da"
  proof (rule ccontr)
    assume n: "\<not> acc b da"
    then show False using run rd rd_err [OF n al rd] by (auto simp: page_walk_def da)
  qed
  have b1: "v = Inr (dword (peek b) da)" "peek b1 = peek b" "acc b1 = acc b" using rd_ok [OF acc al rd] by auto
  let ?pde = "dword (peek b) da"
  obtain x c2 b2 where s: "set_entry_bits wr da ?pde 0x20 c b1 = (x, c2, b2)" by (metis prod_cases3)
  have inv1: "inv_at (peek b1) (acc b1) c" and da1: "acc b1 da" using inv acc b1 by simp_all
  have room4: "tlb_room ((k + 4) + 4) (m_tlb c)" using room by (simp add: tlb_room_def)
  note f = set_entry_bits_ok [OF inv1 room4 da1 al, unfolded b1(2), OF s]
  let ?c3 = "mark_translation_page (m_cr3 c2 AND 0xfffff000) c2"
  note m = mark_ok [OF f(1), of "m_cr3 c2 AND 0xfffff000"]
  have w: "walk_table rd wr linear write user (?pde OR 0x20) ?c3 b2 = (Inr p, c', b')"
    using run rd b1(1) s f(3) by (auto simp: page_walk_def page_fault_def da split: if_splits)
  have room3: "tlb_room (k + 4) (m_tlb ?c3)" using f(2) m(4) by simp
  have "table_address (?pde OR 0x20) linear = table_address ?pde linear" by (rule ad_keeps(8)) (simp add: ad_bits_def)
  moreover have "dword (peek b2) a = dword (peek b) a OR (if a = da then 0x20 else 0)" 
    using f(4) f(5) [OF a] by (cases "a = da") simp_all
  ultimately show ?thesis using walk_table_memory [OF m(1) room3 a w] by (simp add: marks_of_def or.assoc)
qed

lemma translate_yields:
  assumes inv: "inv_at (peek b) (acc b) c" and room: "tlb_room (k + 8) (m_tlb c)" and pg: "is_paging_enabled c"
    and ps: "\<not> test (dword (peek b) (directory_address (m_cr3 c) linear)) 0x80"
    and run: "translate_linear_checked rd wr linear write accessor c b = (r, c', b')"
  shows "yields r (m_cr2 c') linear (tables_say (peek b) (acc b) (m_cr0 c) (m_cr3 c) linear write (accessor = Current \<and> m_cpl c = 3))"
  using translate_cases [OF pg run]
proof (elim disjE exE conjE)
  fix e assume "tlb_lookup (m_tlb c) (page_of linear) = Some e"
    "tlb_permits (m_cr0 c) write (accessor = Current \<and> m_cpl c = 3) e" "r = Inr (te_phys e OR (linear AND 0xfff))"
  then show ?thesis using tlb_hit_yields [OF inv _ _ ps] by (simp add: yields_def)
qed (rule page_walk_yields [OF inv room])

lemma translate_memory:
  assumes inv: "inv_at (peek b) (acc b) c" and room: "tlb_room (k + 8) (m_tlb c)" and pg: "is_paging_enabled c"
    and ps: "\<not> test (dword (peek b) (directory_address (m_cr3 c) linear)) 0x80" and a: "aligned a"
    and run: "translate_linear_checked rd wr linear write accessor c b = (Inr p, c', b')"
    and da: "da = directory_address (m_cr3 c) linear"
  shows "dword (peek b') a = dword (peek b) a OR marks_of da (table_address (dword (peek b) da) linear) write a"
  using translate_cases [OF pg run]
proof (elim disjE exE conjE)
  fix e assume "tlb_lookup (m_tlb c) (page_of linear) = Some e"
    "tlb_permits (m_cr0 c) write (accessor = Current \<and> m_cpl c = 3) e" "b' = b"
  then show ?thesis using tlb_hit_marked [OF inv _ _ ps da] by simp
qed (rule page_walk_memory [OF inv room a _ da])

end

end
