(* ===== verification/Paging_Reach.thy ===== *)
theory Paging_Reach
  imports Paging_Tables
begin

text \<open>
  The states translation, stores, decoding and the control-register operations reach from power-on,
  and that in them a translation yields what the page tables in memory say.
\<close>

section \<open>Reachable states\<close>

text \<open>
  \<open>store\<close> is any write the processor reports, \<open>device_store\<close> one a device reports; memory changes by
  these writes and by the walks' own, and by no write behind the processor's back.  \<open>fill\<close> caches an
  instruction of any length; \<open>remap\<close> is a change of the bus's address map, after which
  \<open>note_a20_changed\<close> runs; \<open>other\<close> is an instruction that touches neither the TLB, the decode cache nor
  \<open>CR0\<close> and \<open>CR3\<close>.  The steps are taken while at least sixteen
  TLB generations are left of the \<open>2\<^sup>3\<^sup>2\<close>.
\<close>

inductive mmu_reach :: "'b dword_read \<Rightarrow> 'b dword_write \<Rightarrow> ('b \<Rightarrow> u32 \<Rightarrow> u8) \<Rightarrow> ('b \<Rightarrow> u32 \<Rightarrow> bool)
    \<Rightarrow> ('r, 'seg, 'ptr) mmu \<Rightarrow> 'b \<Rightarrow> bool"
  for rd wr peek acc where
  power_on: "m_tlb c = tlb_default \<Longrightarrow> decode_cache_new n = Some (m_decode c) \<Longrightarrow> mmu_reach rd wr peek acc c b"
| translate: "mmu_reach rd wr peek acc c b \<Longrightarrow> tlb_room 16 (m_tlb c) \<Longrightarrow>
    translate_linear_checked rd wr linear write accessor c b = (r, c', b') \<Longrightarrow> mmu_reach rd wr peek acc c' b'"
| store: "mmu_reach rd wr peek acc c b \<Longrightarrow> tlb_room 16 (m_tlb c) \<Longrightarrow> unat p + unat w \<le> 4294967296 \<Longrightarrow>
    (\<And>a. a \<notin> set (span p (unat w)) \<Longrightarrow> peek b' a = peek b a) \<Longrightarrow> acc b' = acc b \<Longrightarrow>
    note_code_write p w (record_write_page p c) = (hit, c') \<Longrightarrow> mmu_reach rd wr peek acc c' b'"
| device_store: "mmu_reach rd wr peek acc c b \<Longrightarrow> tlb_room 16 (m_tlb c) \<Longrightarrow> unat p + unat w \<le> 4294967296 \<Longrightarrow>
    (\<And>a. a \<notin> set (span p (unat w)) \<Longrightarrow> peek b' a = peek b a) \<Longrightarrow> acc b' = acc b \<Longrightarrow>
    mmu_reach rd wr peek acc (note_device_memory_write_range p w c) b'"
| fill: "mmu_reach rd wr peek acc c b \<Longrightarrow> unat lin mod 4096 = unat phys mod 4096 \<Longrightarrow>
    dc_put lin insn d phys (m_decode c) = (outcome, dc') \<Longrightarrow> mmu_reach rd wr peek acc (c\<lparr>m_decode := dc'\<rparr>) b"
| mov_cr3: "mmu_reach rd wr peek acc c b \<Longrightarrow> tlb_room 16 (m_tlb c) \<Longrightarrow> cr3_write v c = Some c' \<Longrightarrow>
    mmu_reach rd wr peek acc c' b"
| mov_cr0: "mmu_reach rd wr peek acc c b \<Longrightarrow> tlb_room 16 (m_tlb c) \<Longrightarrow> mmu_reach rd wr peek acc (cr0_write v c) b"
| task_switch: "mmu_reach rd wr peek acc c b \<Longrightarrow> tlb_room 16 (m_tlb c) \<Longrightarrow> mmu_reach rd wr peek acc (task_cr3_load v c) b"
| invlpg: "mmu_reach rd wr peek acc c b \<Longrightarrow> tlb_room 16 (m_tlb c) \<Longrightarrow> mmu_reach rd wr peek acc (apply_invlpg linear c) b"
| remap: "mmu_reach rd wr peek acc c b \<Longrightarrow> tlb_room 16 (m_tlb c) \<Longrightarrow> mmu_reach rd wr peek acc (note_a20_changed c) b'"
| other: "mmu_reach rd wr peek acc c b \<Longrightarrow> m_tlb c' = m_tlb c \<Longrightarrow> m_decode c' = m_decode c \<Longrightarrow> m_cr0 c' = m_cr0 c \<Longrightarrow>
    m_cr3 c' = m_cr3 c \<Longrightarrow> mmu_reach rd wr peek acc c' b"

lemma power_on_ok:
  assumes "m_tlb c = tlb_default" and "decode_cache_new n = Some (m_decode c)"
  shows "inv_at m ac c"
proof (rule paging_ok_retired)
  show "dc_ok (m_decode c)" by (rule decode_cache_new_ok(1) [OF assms(2)])
  show "contexts (m_decode c) = [None, None]" 
    using assms(2) unfolding decode_cache_new_def by (metis option.distinct(1) option.sel decode_cache.select_convs(8))
qed (use assms(1) tlb_default_ok tlb_default_serves in \<open>simp_all add: tlb_default_def\<close>)

lemma fill_ok:
  assumes inv: "inv_at m ac c" and put: "dc_put lin insn d phys (m_decode c) = (outcome, dc')"
    and off: "unat lin mod 4096 = unat phys mod 4096"
  shows "inv_at m ac (c\<lparr>m_decode := dc'\<rparr>)"
proof -
  have dok: "dc_ok (m_decode c)" and tok: "tlb_ok (m_tlb c)" using inv by (simp_all add: paging_ok_def)
  have f: "contexts dc' = contexts (m_decode c)" "ring_seeded dc' = ring_seeded (m_decode c)"
    "translation_pages dc' = translation_pages (m_decode c)"
    using dc_put_cases [OF put] mark_code_range_same [of "m_decode c" phys "di_len insn"]
    by (auto simp: publish_line_def note_code_page_def same_but_marks_def)
  have "dc_ok dc'" using dc_put_ok [OF dok off put] by simp
  then show ?thesis
    using f tok by simp (intro paging_ok_frame [OF inv], simp_all add: watched_def)
qed

lemma device_store_ok:
  assumes inv: "inv_at m ac c" and room: "tlb_room 16 (m_tlb c)" and fits: "unat p + unat w \<le> 4294967296"
    and mem: "\<And>x. x \<notin> set (span p (unat w)) \<Longrightarrow> m' x = m x"
  shows "inv_at m' ac (note_device_memory_write_range p w c)"
proof (cases "w = 0")
  case True
  then have "m' = m" using mem by (intro ext) (simp add: span_def)
  then show ?thesis using True inv by (simp add: note_device_memory_write_range_def)
next
  case False
  obtain hit c' where n: "note_code_write p w c = (hit, c')" by fastforce
  have "inv_at m' ac c'" by (rule store_ok [OF inv _ fits mem n, of 12]) (use room in simp)
  then show ?thesis using False n by (simp add: note_device_memory_write_range_def Let_def)
qed

context walk_bus
begin

lemma reach_inv: "mmu_reach rd wr peek acc c b \<Longrightarrow> inv_at (peek b) (acc b) c"
proof (induction rule: mmu_reach.induct)
  case (power_on c n b)
  then show ?case by (rule power_on_ok)
next
  case (translate c b linear w accessor r c' b')
  have "tlb_room (8 + 8) (m_tlb c)" using translate.hyps(2) by simp
  from translate_ok [OF translate.IH this translate.hyps(3)] show ?case by (rule conjunct1)
next
  case (store c b p w b' hit c')
  have inv: "inv_at (peek b) (acc b) (record_write_page p c)" using store.IH by (simp add: record_write_frame)
  have "tlb_room (12 + 4) (m_tlb (record_write_page p c))" using store.hyps(2) by (simp add: record_write_frame)
  from store_ok [OF inv this store.hyps(3,4,6)] show ?case using store.hyps(5) by simp
next
  case (device_store c b p w b')
  from device_store_ok [OF device_store.IH device_store.hyps(2,3,4)] show ?case using device_store.hyps(5) by simp
next
  case (fill c b lin phys insn d outcome dc')
  from fill_ok [OF fill.IH fill.hyps(3,2)] show ?case .
next
  case (mov_cr3 c b v c')
  have "tlb_room (13 + 3) (m_tlb c)" using mov_cr3.hyps(2) by simp
  from cr3_write_ok [OF mov_cr3.IH this, of v] show ?case using mov_cr3.hyps(3) by auto
next
  case (mov_cr0 c b v)
  have "tlb_room (14 + 2) (m_tlb c)" using mov_cr0.hyps(2) by simp
  from cr0_write_ok [OF mov_cr0.IH this] show ?case by simp
next
  case (task_switch c b v)
  have "tlb_room (14 + 2) (m_tlb c)" using task_switch.hyps(2) by simp
  from task_cr3_ok [OF task_switch.IH this] show ?case by simp
next
  case (invlpg c b linear)
  have "tlb_room (15 + 1) (m_tlb c)" using invlpg.hyps(2) by simp
  from invlpg_ok [OF invlpg.IH this] show ?case by simp
next
  case (remap c b b')
  have "tlb_room (14 + 2) (m_tlb c)" using remap.hyps(2) by simp
  from note_a20_ok [OF remap.IH this] show ?case by simp
next
  case (other c b c')
  then show ?case by simp
qed

end

section \<open>Translation is what the tables say\<close>

text \<open>C3: Whatever was cached before, by this page directory or by the other one of the ring, a
  translation under paging yields what the page tables in memory say at this moment: the mapped
  address, a page fault with the code for that access and the address in \<open>CR2\<close>, or the bus error of
  an unreachable table.  The conditions: memory has changed only by writes that were reported to the
  processor (its own stores, device writes, the accessed and dirty marks of walks), the directory
  entry of the address has its page-size bit clear, and sixteen of the \<open>2\<^sup>3\<^sup>2\<close> TLB generations are left.
  The bus is any that reads and writes dwords of one memory.  Such a write to a watched page table
  drops the cached entries, so an edited table entry is not served stale even without a flush by the
  guest.
\<close>

theorem translation_follows_tables:
  assumes "walk_bus rd wr peek acc" and "mmu_reach rd wr peek acc c b" and "tlb_room 16 (m_tlb c)"
    and "is_paging_enabled c" and "\<not> test (dword (peek b) (directory_address (m_cr3 c) linear)) 0x80"
    and "translate_linear_checked rd wr linear write accessor c b = (r, c', b')"
  shows "yields r (m_cr2 c') linear
    (tables_say (peek b) (acc b) (m_cr0 c) (m_cr3 c) linear write (accessor = Current \<and> m_cpl c = 3))"
proof -
  have "tlb_room (8 + 8) (m_tlb c)" using assms(3) by simp
  from walk_bus.translate_yields [OF assms(1) walk_bus.reach_inv [OF assms(1,2)] this assms(4-6)] show ?thesis .
qed

text \<open>A processor after power-on with paging switched on, and a memory that maps page 0 to page 5.\<close>

definition boot_mmu :: "(unit, unit, unit) mmu" where
  "boot_mmu =
    \<lparr>m_tlb = tlb_default, m_decode = the (decode_cache_new 16), m_cr0 = 0x10, m_cr2 = 0, m_cr3 = 0, m_cpl = 0,
     m_code_page_valid = False,
     m_prefetch = \<lparr>pw_bytes = replicate 16 0, pw_cs = (), pw_linear_base = 0, pw_physical_base = 0, pw_len = 0\<rparr>,
     m_fetch_page = [], m_data_read_pages = direct_cache_default, m_data_write_pages = direct_cache_default,
     m_has_aperture_code = False, m_written_pages = [None], m_written_count = 0, m_written_overflow = False,
     m_last_written_page = NO_LAST_WRITTEN_PAGE\<rparr>"

definition paged_mmu :: "(unit, unit, unit) mmu" where
  "paged_mmu = cr0_write 0x80000011 boot_mmu"

definition boot_tables :: memory where
  "boot_tables = (replicate 8192 0)[0 := 3, 1 := 0x10, 4096 := 3, 4097 := 0x50]"

lemma paged_mmu_facts:
  "mmu_reach ram_read ram_write ram_peek ram_acc paged_mmu boot_tables" "tlb_room 16 (m_tlb paged_mmu)"
  "is_paging_enabled paged_mmu" "m_cr3 paged_mmu = 0" "m_cr0 paged_mmu = 0x80000011"
proof -
  have room: "tlb_room (16 + 2) (m_tlb boot_mmu)" by (simp add: tlb_room_def boot_mmu_def tlb_default_def)
  have "is_power_of_two 16" unfolding is_power_of_two_def by (intro conjI exI [of _ 4]) simp_all
  then have new: "decode_cache_new 16 = Some (m_decode boot_mmu)" "m_tlb boot_mmu = tlb_default"
    by (simp_all add: boot_mmu_def decode_cache_new_def)
  have r: "mmu_reach ram_read ram_write ram_peek ram_acc boot_mmu boot_tables" by (rule mmu_reach.power_on [OF new(2,1)])
  have "tlb_room 16 (m_tlb boot_mmu)" using room by (simp add: tlb_room_def)
  then show "mmu_reach ram_read ram_write ram_peek ram_acc paged_mmu boot_tables"
    unfolding paged_mmu_def by (rule mmu_reach.mov_cr0 [OF r])
  show "tlb_room 16 (m_tlb paged_mmu)"
    unfolding paged_mmu_def using cr0_write_ok [OF power_on_ok [OF new(2,1)] room] by blast
  have "m_cr0 paged_mmu = 0x80000011" "m_cr3 paged_mmu = 0"
    by (simp_all add: paged_mmu_def cr0_write_def flush_tlb_for_cr0_write_def flush_tlb_and_code_caches_def
        flush_tlb_keep_code_caches_def invalidate_decode_frontend_def invalidate_fetch_frontend_def Let_def boot_mmu_def)
  then show "is_paging_enabled paged_mmu" "m_cr3 paged_mmu = 0" "m_cr0 paged_mmu = 0x80000011"
    by (simp_all add: is_paging_enabled_def CR0_PG_def test_def)
qed

lemma boot_tables_entries: "dword (ram_peek boot_tables) 0 = 0x1003" "dword (ram_peek boot_tables) 0x1000 = 0x5003"
  by (simp_all add: dword_def span4 ram_peek_def boot_tables_def)

lemma boot_tables_say:
  "tables_say (ram_peek boot_tables) (ram_acc boot_tables) (m_cr0 paged_mmu) (m_cr3 paged_mmu) 0xabc w False = Mapped 0x5abc"
  by (simp add: tables_say_def table_spec_def paged_mmu_facts directory_address_def table_address_def boot_tables_entries
      ram_acc_def protected_def test_def CR0_WP_def) (simp add: boot_tables_def)

theorem translation_follows_tables_witness:
  "fst (translate_linear_checked ram_read ram_write 0xabc True Supervisor paged_mmu boot_tables) = Inr 0x5abc"
proof -
  obtain r c' b' where run: "translate_linear_checked ram_read ram_write 0xabc True Supervisor paged_mmu boot_tables = (r, c', b')"
    by (metis prod_cases3)
  have "\<not> test (dword (ram_peek boot_tables) (directory_address (m_cr3 paged_mmu) 0xabc)) 0x80"
    by (simp add: directory_address_def paged_mmu_facts boot_tables_entries test_def)
  from translation_follows_tables [OF ram.walk_bus_axioms paged_mmu_facts(1-3) this run]
  have "yields r (m_cr2 c') 0xabc (Mapped 0x5abc)" by (simp add: boot_tables_say)
  then show ?thesis using run by (simp add: yields_def split: sum.splits internal_fault.splits)
qed

text \<open>C23: A translation that succeeds under paging, through the TLB or not, leaves memory with the
  accessed bit set in the directory entry and in the table entry of the address, the dirty bit set
  in the table entry when the access is a write, and every other bit of every dword as it was.  The
  conditions are those of the translation itself: memory has changed only by reported writes, the
  directory entry of the address has its page-size bit clear, and sixteen TLB generations are left.
  In particular a guest that clears the bits of a watched entry gets them set again by its next
  access, without a flush.
\<close>

theorem accessed_dirty_exact:
  assumes "walk_bus rd wr peek acc" and "mmu_reach rd wr peek acc c b" and "tlb_room 16 (m_tlb c)"
    and "is_paging_enabled c" and "da = directory_address (m_cr3 c) linear" and "\<not> test (dword (peek b) da) 0x80"
    and "translate_linear_checked rd wr linear write accessor c b = (Inr p, c', b')" and "aligned a"
  shows "dword (peek b') a = dword (peek b) a OR marks_of da (table_address (dword (peek b) da) linear) write a"
proof -
  have room: "tlb_room (8 + 8) (m_tlb c)" using assms(3) by simp
  have ps: "\<not> test (dword (peek b) (directory_address (m_cr3 c) linear)) 0x80" using assms(5,6) by simp
  from walk_bus.translate_memory [OF assms(1) walk_bus.reach_inv [OF assms(1,2)] room assms(4) ps assms(8,7,5)]
  show ?thesis .
qed

theorem accessed_dirty_exact_witness:
  "dword (ram_peek (snd (snd (translate_linear_checked ram_read ram_write 0xabc True Supervisor paged_mmu boot_tables)))) 0x1000 = 0x5063"
proof -
  obtain r c' b' where run: "translate_linear_checked ram_read ram_write 0xabc True Supervisor paged_mmu boot_tables = (r, c', b')"
    by (metis prod_cases3)
  have da: "0 = directory_address (m_cr3 paged_mmu) 0xabc" by (simp add: directory_address_def paged_mmu_facts)
  have ps: "\<not> test (dword (ram_peek boot_tables) 0) 0x80" by (simp add: boot_tables_entries test_def)
  have room: "tlb_room (8 + 8) (m_tlb paged_mmu)" using paged_mmu_facts(2) by simp
  have "\<not> test (dword (ram_peek boot_tables) (directory_address (m_cr3 paged_mmu) 0xabc)) 0x80" using da ps by simp
  from ram.translate_yields [OF ram.reach_inv [OF paged_mmu_facts(1)] room paged_mmu_facts(3) this run]
  have "r = Inr 0x5abc" by (simp add: boot_tables_say yields_def split: sum.splits internal_fault.splits)
  moreover have "aligned 0x1000" by (simp add: aligned_def)
  ultimately show ?thesis
    using accessed_dirty_exact [OF ram.walk_bus_axioms paged_mmu_facts(1-3) da ps, where a = "0x1000"] run
    by (simp add: boot_tables_entries marks_of_def table_address_def)
qed

end
