(* ===== verification/Spec2Isabelle.thy ===== *)
theory Spec2Isabelle
  imports Prelude Clock Canonical Timeline Pic Memory Dma Rtc Uart Uart_Facts Uart_Irq Lpt Mouse
    Keyboard Keyboard_Facts Keyboard_Streams Cpu_Alu Cpu_Flags Cpu_Exact Cpu_Shift Cpu_Muldiv Decode_Cache Decode_Facts Decode_Coherence Decode_Steps
    Tlb Page_Caches Paging Paging_Bus Paging_Coherence Paging_Walk Paging_Steps Paging_Tables Paging_Reach
begin

text \<open>
  Verification of IzarraVM, an emulator of a PC of the 386 to Pentium era (the Izarra3000), written
  in Rust under \<open>src/crates\<close>.

  \<^bold>\<open>The program.\<close> The processor (\<open>izarravm-cpu\<close>) executes guest instructions in batches. Between
  batches the machine (\<open>izarravm-machine\<close>) advances one master clock, the timeline, which hands every
  device the ticks of its own clock; devices publish the tick of their next event so that no batch
  runs past it, raise lines of the interrupt controller pair, and exchange bytes with guest memory
  through the DMA controllers or with the guest through ports. A device that is accessed in the
  middle of a batch first catches up with the part of the batch that has elapsed and later receives
  only the rest. The state of the machine can be written to and compared through a canonical
  container of tagged sections.

  \<^bold>\<open>Conventions.\<close> A Rust struct is a record with the source's fields, an enum a datatype. A method
  \<open>fn f(&mut self, args) -> R\<close> is a function from the state and the arguments to the result and the
  new state; names that two devices share carry the device's name. Registers are words of their
  width, so arithmetic on them wraps; \<open>u64\<close> counts of ticks are naturals with Rust's checked,
  saturating and wrapping operations written out. A panic or an unreachable arm is \<open>None\<close>, an error
  is the left side of a sum. Loops are recursion: by structure where the source counts, and with a
  termination proof where it does not (the advance loops of the UART, the printer port and the
  keyboard controller end because each round uses up ticks or retires a timer that is due; the
  calendar loop because each round uses up a month). Nothing is bounded by fuel.

  \<^bold>\<open>Theories, in the order of the code.\<close>

  \<^item> \<open>Prelude\<close>: Rust integers, bits of registers, byte encodings, and the contracts devices share:
    \<open>tick_device\<close> (advancing by a sum is advancing twice), \<open>deadline_device\<close> (a published deadline is
    the exact tick of the next event) and \<open>credit_device\<close> (accesses in the middle of a batch). Every
    timed device below interprets them on its own operations.
  \<^item> \<open>Clock\<close> (\<open>core/clock.rs\<close>, \<open>core/gsw.rs\<close>): clock rates, conversion between clocks and master
    ticks, the processor modes. The conversions are adjoint and the mode table is consistent.
  \<^item> \<open>Canonical\<close> (\<open>core/canonical_state.rs\<close>): the writer and the parser of the section container.
    What is written parses back, the parser accepts exactly the well-formed images, and a section
    that fails after writing part of itself leaves the writer as it was.
  \<^item> \<open>Timeline\<close> (\<open>machine/timeline.rs\<close>): the master clock and its phases. No event is lost or
    duplicated however a span of time is cut into batches, deadlines are exact in processor clocks,
    and the canonical projection determines the future.
  \<^item> \<open>Pic\<close> (\<open>machine/pic.rs\<close>): the two 8259A controllers. Priority resolution, the stack of levels
    in service as an abstract specification, delivery through the cascade exactly once, and
    completeness of the canonical section with its two gaps.
  \<^item> \<open>Memory\<close> (\<open>bus/lib.rs\<close>, \<open>Memory\<close>): bounds-checked little-endian access.
  \<^item> \<open>Dma\<close> (\<open>machine/dma.rs\<close>): both 8237A controllers, block transfers, memory-to-memory copies,
    programming and page registers.
  \<^item> \<open>Rtc\<close> (\<open>machine/rtc.rs\<close>): calendar, alarm, periodic interrupt and battery-backed memory.
  \<^item> \<open>Uart\<close>, \<open>Uart_Facts\<close>, \<open>Uart_Irq\<close> (\<open>machine/uart.rs\<close>): model, invariant and time, interrupt
    deadlines and progress of the serial ports.
  \<^item> \<open>Lpt\<close> (\<open>machine/lpt.rs\<close>): the printer handshake.
  \<^item> \<open>Mouse\<close>, \<open>Keyboard\<close>, \<open>Keyboard_Facts\<close>, \<open>Keyboard_Streams\<close> (\<open>machine/mouse.rs\<close>,
    \<open>machine/keyboard.rs\<close>): motion is conserved in packets, the controller loses and reorders no
    byte, and delivers an unmasked byte on time unless a stale ready mark or an input in progress
    holds it back.
  \<^item> \<open>Cpu_Alu\<close> (\<open>cpu/flags.rs\<close>, the arithmetic of \<open>cpu/core.rs\<close>, flag loads of \<open>cpu/control.rs\<close>,
    decimal and flag instructions of \<open>cpu/execute.rs\<close> and \<open>cpu/execute_extended.rs\<close>): registers,
    deferred flags, arithmetic, shifts, multiplication, division. \<open>Cpu_Flags\<close> shows that deferring
    flags is invisible, \<open>Cpu_Exact\<close> that addition, subtraction and the condition codes are exact as
    numbers, \<open>Cpu_Shift\<close> the same for shifts and rotates in closed form, \<open>Cpu_Muldiv\<close> for products,
    quotients and divide faults. The clock charge of an instruction is not part of these
    definitions.
  \<^item> \<open>Decode_Cache\<close> (\<open>DecodeCache\<close> of \<open>cpu/lib.rs\<close>, without the native backend): cached lines, marks
    of code bytes and page tables, the narrow and the wholesale invalidation, generations and the
    two-slot ring of page directories. \<open>Decode_Facts\<close> and \<open>Decode_Coherence\<close> hold its library and
    invariant; \<open>Decode_Steps\<close> shows, over the history of fills, that a hit returns an instruction some
    fill stored, and that its bytes have not changed since when it has at most fifteen of them and
    ends below the last byte of physical memory. A fill may store any instruction of any length;
    nothing is assumed of the decoder, of which the prefix loop is modelled
    (\<open>read_prefixes\<close> of \<open>cpu/decode.rs\<close>) to show that longer instructions exist and do go stale.
  \<^item> \<open>Tlb\<close>, \<open>Page_Caches\<close> (\<open>cpu/paging.rs\<close>): the translation buffer with its generations, and the
    caches of directly accessible pages, which share the contract \<open>lossy_cache\<close> (what they answer was
    inserted since the last invalidation).
  \<^item> \<open>Paging\<close> (\<open>translate_linear_checked\<close> of \<open>cpu/memory.rs\<close>; reported writes, control-register
    writes and \<open>INVLPG\<close> of \<open>cpu/core.rs\<close>): the page walk and everything that moves the mapping.
    \<open>Paging_Bus\<close> states what the walk relies on of the bus (\<open>walk_bus\<close>) and shows it for guest memory;
    \<open>Paging_Coherence\<close>, \<open>Paging_Walk\<close> and \<open>Paging_Steps\<close> show that every operation keeps the cached
    entries of both page directories in agreement with the tables; \<open>Paging_Tables\<close> and \<open>Paging_Reach\<close>
    conclude that a translation yields what the tables in memory say. Memory changes by writes that
    are reported to the processor, and no other; the steps are taken while sixteen of the \<open>2\<^sup>3\<^sup>2\<close> generations are left, and the directory entry has its page-size bit clear:
    beyond either bound the code does serve stale entries.

  \<^bold>\<open>What the modelling showed.\<close> A pulse on a masked line is later acknowledged as spurious (\<open>Pic\<close>);
  the canonical section of the controllers drops, while ICW4 is awaited, a flag that ICW4 can make
  effective; writing the CMOS
  data port with an index above the memory panics (\<open>Rtc\<close>); the UART's published deadline omits an
  edge that an asserted line will still raise; a scancode that becomes ready while the keyboard is
  disabled stalls the mouse (\<open>Keyboard_Streams\<close>); the narrow kill of self-modified code misses an
  instruction that ends at the last byte of physical memory, and the bytes from the sixteenth on of
  an instruction with many prefixes (\<open>Decode_Steps\<close>); the translation buffer, documented as
  non-snooping, does drop its entries when a reported write edits a watched table, accessed and
  dirty bits included (\<open>Paging_Reach\<close>); once the generation
  counter of the translation buffer wraps, two page directories can share a generation (\<open>Tlb\<close>); a
  table reached through a directory entry with the page-size bit is not watched although its
  translations are cached.

  \<^bold>\<open>Not modelled, and why.\<close> The instruction executors and the decoder but for its prefix loop (they run over a generic bus
  and the whole processor state), native code generation (it rests on the semantics of host machine
  code), the x87 unit and audio synthesis (host floating point), rasterisation, host files and
  windows (pure I/O), and the disk and CD controllers, which are the next candidates together with
  the interval timer.
\<close>

end
